(* ===== verification/Storm_Prelude.thy ===== *)
theory Storm_Prelude
  imports Main "HOL-Library.Word"
begin

text \<open>
  Shared vocabulary of the Storm verification library: the machine integer types of the
  i386 target (ILP32: \<open>int\<close>, \<open>long\<close>, \<open>size_t\<close> and pointers are 32 bits wide), the ways
  in which a kernel routine may fail to return, sequencing of fallible operations, and the
  generic facts on machine words that the component theories use.
\<close>

unbundle bit_operations_syntax

type_synonym u8 = "8 word"
type_synonym u16 = "16 word"
type_synonym u32 = "32 word"
type_synonym u64 = "64 word"

section \<open>Outcomes of kernel routines\<close>

text \<open>
  A routine of the kernel that does not return to its caller does so in one of four ways:
  a loop that never ends, a call of \<open>panic\<close> (through \<open>assert\<close> or directly) with its
  message, an access outside an array, or an operation the processor traps on.
\<close>

datatype fault = Diverges | Panic string | OutOfBounds | DivideError

type_synonym 'a res = "fault + 'a"

definition bind_res :: "'a res \<Rightarrow> ('a \<Rightarrow> 'b res) \<Rightarrow> 'b res" where
  "bind_res r f = (case r of Inl e \<Rightarrow> Inl e | Inr x \<Rightarrow> f x)"

definition of_loop :: "'a option \<Rightarrow> 'a res" where
  "of_loop r = (case r of None \<Rightarrow> Inl Diverges | Some x \<Rightarrow> Inr x)"

text \<open>
  \<open>panic\<close> of \<open>src/kernel/panic.c\<close> does not return: to its caller it is the fault with its text. What
  it prints is in the theory of the whole kernel.
\<close>

definition panic :: "string \<Rightarrow> 'a res" where
  "panic msg = Inl (Panic msg)"

text \<open>\<open>assert\<close> of \<open>src/lib/assert.h\<close>: a failed assertion panics with the text of the condition.\<close>

definition kassert :: "bool \<Rightarrow> string \<Rightarrow> unit res" where
  "kassert cond txt = (if \<not> cond then panic (''Assertion failed: '' @ txt) else Inr ())"

lemma bind_res_simps [simp]:
  "bind_res (Inl e) f = Inl e" "bind_res (Inr x) f = f x"
  by (simp_all add: bind_res_def)

lemma of_loop_simps [simp]: "of_loop None = Inl Diverges" "of_loop (Some x) = Inr x"
  by (simp_all add: of_loop_def)

lemma bind_res_Inr_iff: "bind_res r f = Inr y \<longleftrightarrow> (\<exists>x. r = Inr x \<and> f x = Inr y)"
  by (cases r) auto

lemma kassert_simps [simp]:
  "kassert True txt = Inr ()" "kassert False txt = Inl (Panic (''Assertion failed: '' @ txt))"
  by (simp_all add: kassert_def panic_def)

lemma kassert_Inr_iff [simp]: "kassert c txt = Inr u \<longleftrightarrow> c"
  by (auto simp: kassert_def panic_def)

section \<open>Address arithmetic\<close>

named_theorems addr_simps \<open>unsigned value of address computations that do not wrap\<close>

lemma unat_u32_less [simp]: "unat (x :: u32) < 4294967296"
  using unsigned_less [of x, where ?'a = nat] by simp

lemma unat_u32_le [simp]: "unat (x :: u32) \<le> 4294967295"
  using unat_u32_less [of x] by linarith

lemma unat_add_u32:
  fixes a b :: u32
  assumes "unat a + unat b < 4294967296"
  shows "unat (a + b) = unat a + unat b"
  using assms by (simp add: unat_word_ariths)

lemma unat_sub_u32:
  fixes a b :: u32
  assumes "unat b \<le> unat a"
  shows "unat (a - b) = unat a - unat b"
  using assms by (simp add: unat_sub word_le_nat_alt)

lemma unat_of_nat_u32: "n < 4294967296 \<Longrightarrow> unat (of_nat n :: u32) = n"
  by (simp add: unat_of_nat)

lemma unat_numeral_u32: "numeral k < (4294967296 :: nat) \<Longrightarrow> unat (numeral k :: u32) = numeral k"
  using unat_of_nat_u32 [of "numeral k"] by (simp only: of_nat_numeral)

lemma unat_plus_numeral [addr_simps]:
  fixes a :: u32
  assumes "unat a + numeral k < 4294967296"
  shows "unat (a + numeral k) = unat a + numeral k"
proof -
  have k: "unat (numeral k :: u32) = numeral k"
    by (rule unat_numeral_u32 [OF le_less_trans [OF le_add2 assms]])
  show ?thesis
    unfolding k [symmetric] using assms by (intro unat_add_u32) (simp only: k)
qed

lemma unat_plus_1 [addr_simps]:
  fixes a :: u32
  assumes "unat a + 1 < 4294967296"
  shows "unat (a + 1) = unat a + 1"
  using assms by (simp add: unat_add_u32)

lemma u32_eq_iff_unat: "(x :: u32) = y \<longleftrightarrow> unat x = unat y"
  by (simp add: word_unat_eq_iff)

lemma unat_u8_less [simp]: "unat (x :: u8) < 256"
  using unsigned_less [of x, where ?'a = nat] by simp

lemma unat_ucast_u8_u32 [simp]: "unat (ucast (x :: u8) :: u32) = unat x"
proof -
  have "unat x < 2 ^ 32" using unat_u8_less [of x] by (rule less_trans) simp
  then show ?thesis by (simp add: unsigned_ucast_eq take_bit_nat_eq_self)
qed

lemma ucast_u8_u32_back [simp]: "ucast (ucast (x :: u8) :: u32) = x"
  by (rule bit_word_eqI) (simp add: bit_simps)

text \<open>Writing the low byte or the low half of a register.\<close>

lemma low_part:
  "ucast (w AND - 256 OR ucast b :: u32) = (b :: u8)" "ucast (w AND - 65536 OR ucast h :: u32) = (h :: u16)"
proof -
  have m: "(- 256 :: u32) = NOT (mask 8)" "(- 65536 :: u32) = NOT (mask 16)"
    by (simp_all add: mask_eq_exp_minus_1)
  show "ucast (w AND - 256 OR ucast b :: u32) = (b :: u8)" unfolding m by (rule bit_word_eqI) (auto simp: bit_simps)
  show "ucast (w AND - 65536 OR ucast h :: u32) = (h :: u16)" unfolding m by (rule bit_word_eqI) (auto simp: bit_simps)
qed

lemma mod_once: "m \<le> x \<Longrightarrow> x < 2 * m \<Longrightarrow> x mod m = x - (m :: nat)"
  by (simp add: le_mod_geq)

lemma sorted_wrt_pair:
  assumes "sorted_wrt P xs" "\<And>x y. P x y \<Longrightarrow> P y x" "x \<in> set xs" "y \<in> set xs" "x \<noteq> y"
  shows "P x y"
  using assms(1,3-5) by (induction xs) (auto intro: assms(2))

end
