(* ===== verification/Memory_Model.thy ===== *)
theory Memory_Model
  imports Storm_Prelude
begin

text \<open>
  The memory of the machine: a byte at every 32 bit address, with the little-endian 32 bit
  loads and stores through which the kernel reads and writes its structures. The laws a
  client of aligned words needs are the locale \<open>word_memory\<close>, interpreted here on the bytes.
\<close>

type_synonym mem = "u32 \<Rightarrow> u8"

definition load8 :: "mem \<Rightarrow> u32 \<Rightarrow> u8" where
  "load8 m a = m a"

definition store8 :: "mem \<Rightarrow> u32 \<Rightarrow> u8 \<Rightarrow> mem" where
  "store8 m a v = m(a := v)"

definition load32 :: "mem \<Rightarrow> u32 \<Rightarrow> u32" where
  "load32 m a = ucast (m a) OR push_bit 8 (ucast (m (a + 1)))
     OR push_bit 16 (ucast (m (a + 2))) OR push_bit 24 (ucast (m (a + 3)))"

definition store32 :: "mem \<Rightarrow> u32 \<Rightarrow> u32 \<Rightarrow> mem" where
  "store32 m a v = m(a := ucast v, a + 1 := ucast (drop_bit 8 v),
     a + 2 := ucast (drop_bit 16 v), a + 3 := ucast (drop_bit 24 v))"

text \<open>\<open>aligned4 a\<close>: the address of a 32 bit word. \<open>span a n\<close>: the \<open>n\<close> bytes from \<open>a\<close> on.\<close>

definition aligned4 :: "u32 \<Rightarrow> bool" where
  "aligned4 a \<longleftrightarrow> unat a mod 4 = 0"

definition span :: "u32 \<Rightarrow> nat \<Rightarrow> u32 set" where
  "span a n = {x. unat a \<le> unat x \<and> unat x < unat a + n}"

lemma load32_store32_same [simp]: "load32 (store32 m a v) a = v"
proof (rule bit_word_eqI)
  fix n
  assume "n < LENGTH(32)"
  then consider "n < 8" | "8 \<le> n" "n < 16" | "16 \<le> n" "n < 24" | "24 \<le> n" "n < 32" by fastforce
  then show "bit (load32 (store32 m a v) a) n = bit v n"
    by cases (simp_all add: load32_def store32_def bit_simps, auto)
qed

lemma aligned4_room: "aligned4 a \<Longrightarrow> unat a \<le> 4294967292"
  using unat_u32_less [of a] unfolding aligned4_def by presburger

lemma aligned4_offset:
  assumes "aligned4 a"
  shows "unat (a + 1) = unat a + 1" "unat (a + 2) = unat a + 2" "unat (a + 3) = unat a + 3"
  using aligned4_room [OF assms] by (simp_all add: addr_simps)

lemma store32_outside: "aligned4 a \<Longrightarrow> x \<notin> span a 4 \<Longrightarrow> store32 m a v x = m x"
  by (auto simp: store32_def span_def aligned4_offset)

lemma store8_outside [simp]: "x \<noteq> a \<Longrightarrow> store8 m a v x = m x"
  by (simp add: store8_def)

lemma load32_cong:
  assumes "aligned4 a" "\<And>x. x \<in> span a 4 \<Longrightarrow> m x = m' x"
  shows "load32 m a = load32 m' a"
proof -
  have "m a = m' a" "m (a + 1) = m' (a + 1)" "m (a + 2) = m' (a + 2)" "m (a + 3) = m' (a + 3)"
    using assms(1) by (auto intro!: assms(2) simp: span_def aligned4_offset)
  then show ?thesis by (simp add: load32_def)
qed

lemma aligned4_disjoint:
  assumes "aligned4 a" "aligned4 b" "a \<noteq> b" "x \<in> span a 4"
  shows "x \<notin> span b 4"
proof
  assume "x \<in> span b 4"
  with assms have "unat a = unat b"
    unfolding aligned4_def span_def mem_Collect_eq by presburger
  with assms(3) show False by (simp add: u32_eq_iff_unat)
qed

lemma load32_store32_other [simp]:
  assumes "aligned4 a" "aligned4 b" "a \<noteq> b"
  shows "load32 (store32 m a v) b = load32 m b"
  using assms by (intro load32_cong) (auto simp: store32_outside aligned4_disjoint)

lemma load32_store32:
  "aligned4 a \<Longrightarrow> aligned4 b \<Longrightarrow> load32 (store32 m a v) b = (if b = a then v else load32 m b)"
  by simp

section \<open>The interface of aligned word memory\<close>

text \<open>
  What the pointer structures of the kernel rely on: a word reads back what was last
  stored at its address, stores to other word addresses do not touch it, and a store
  changes nothing outside its four bytes.
\<close>

locale word_memory =
  fixes ld :: "'m \<Rightarrow> u32 \<Rightarrow> u32"
    and st :: "'m \<Rightarrow> u32 \<Rightarrow> u32 \<Rightarrow> 'm"
    and ok :: "u32 \<Rightarrow> bool"
  assumes ld_st_same: "ld (st m a v) a = v"
    and ld_st_other: "ok a \<Longrightarrow> ok b \<Longrightarrow> a \<noteq> b \<Longrightarrow> ld (st m a v) b = ld m b"
begin

fun st_all :: "'m \<Rightarrow> (u32 \<times> u32) list \<Rightarrow> 'm" where
  "st_all m [] = m"
| "st_all m ((a, v) # ws) = st_all (st m a v) ws"

lemma ld_st_all_other:
  "ok b \<Longrightarrow> \<forall>w \<in> set ws. ok (fst w) \<Longrightarrow> b \<notin> fst ` set ws \<Longrightarrow> ld (st_all m ws) b = ld m b"
  by (induction m ws rule: st_all.induct) (auto simp: ld_st_other)

lemma ld_st_all_written:
  assumes "\<forall>w \<in> set ws. ok (fst w)" "distinct (map fst ws)" "(a, v) \<in> set ws"
  shows "ld (st_all m ws) a = v"
  using assms
proof (induction m ws rule: st_all.induct)
  case (1 m)
  then show ?case by simp
next
  case (2 m a' v' ws)
  show ?case
  proof (cases "(a, v) \<in> set ws")
    case True
    with 2 show ?thesis by auto
  next
    case False
    with 2 show ?thesis by (auto simp: ld_st_all_other ld_st_same)
  qed
qed

end

interpretation wm: word_memory load32 store32 aligned4
  by unfold_locales auto

end
