(* ===== verification/Linked_List.thy ===== *)
theory Linked_List
  imports Memory_Model
begin

text \<open>
  The intrusive circular doubly linked list of \<open>src/lib/list.h\<close>. A \<open>struct list\<close> is a pair
  of words in memory, \<open>next\<close> at offset 0 and \<open>prev\<close> at offset 4; a list is a ring of such
  nodes through a head node that is not itself an element. The operations are translated
  store by store. \<open>dll m h ns\<close> says that memory \<open>m\<close> holds the ring with head \<open>h\<close> and elements
  \<open>ns\<close>; the lemmas show what every operation does to \<open>ns\<close> and which bytes it leaves alone.
\<close>

section \<open>The operations\<close>

definition list_next :: "mem \<Rightarrow> u32 \<Rightarrow> u32" where
  "list_next m n = load32 m n"

definition list_prev :: "mem \<Rightarrow> u32 \<Rightarrow> u32" where
  "list_prev m n = load32 m (n + 4)"

definition set_next :: "mem \<Rightarrow> u32 \<Rightarrow> u32 \<Rightarrow> mem" where
  "set_next m n v = store32 m n v"

definition set_prev :: "mem \<Rightarrow> u32 \<Rightarrow> u32 \<Rightarrow> mem" where
  "set_prev m n v = store32 m (n + 4) v"

definition container_of :: "u32 \<Rightarrow> u32 \<Rightarrow> u32" where
  "container_of ptr offs = ptr - offs"

definition list_first_entry :: "mem \<Rightarrow> u32 \<Rightarrow> u32 \<Rightarrow> u32" where
  "list_first_entry m head offs = container_of (list_next m head) offs"

definition list_init :: "mem \<Rightarrow> u32 \<Rightarrow> mem" where
  "list_init m n = set_prev (set_next m n n) n n"

definition list_node_init :: "mem \<Rightarrow> u32 \<Rightarrow> mem" where
  "list_node_init m n = set_prev (set_next m n 0) n 0"

definition list_insert :: "mem \<Rightarrow> u32 \<Rightarrow> u32 \<Rightarrow> u32 \<Rightarrow> mem" where
  "list_insert m n prv nxt =
     (let m1 = set_prev m nxt n;
          m2 = set_next m1 n nxt;
          m3 = set_prev m2 n prv
      in set_next m3 prv n)"

definition list_add :: "mem \<Rightarrow> u32 \<Rightarrow> u32 \<Rightarrow> mem" where
  "list_add m n head = list_insert m n head (list_next m head)"

definition list_add_tail :: "mem \<Rightarrow> u32 \<Rightarrow> u32 \<Rightarrow> mem" where
  "list_add_tail m n head = list_insert m n (list_prev m head) head"

definition list_del_links :: "mem \<Rightarrow> u32 \<Rightarrow> u32 \<Rightarrow> mem" where
  "list_del_links m prv nxt = set_next (set_prev m nxt prv) prv nxt"

definition list_del :: "mem \<Rightarrow> u32 \<Rightarrow> mem" where
  "list_del m entry =
     (let m1 = list_del_links m (list_prev m entry) (list_next m entry);
          m2 = set_next m1 entry 0
      in set_prev m2 entry 0)"

text \<open>
  \<open>list_for_each\<close> with a body that reads the memory and updates a local state; \<open>None\<close> is a
  traversal that never comes back to the head.
\<close>

partial_function (option) list_for_each ::
  "(u32 \<Rightarrow> 's \<Rightarrow> 's) \<Rightarrow> mem \<Rightarrow> u32 \<Rightarrow> u32 \<Rightarrow> 's \<Rightarrow> 's option" where
  "list_for_each body m head pos s =
     (if pos = head then Some s
      else list_for_each body m head (list_next m pos) (body pos s))"

text \<open>
  The other traversals: over the structures that hold the nodes, and with the next node read before the body
  runs, so that the body may remove the current one.
\<close>

partial_function (option) list_for_each_entry ::
  "(u32 \<Rightarrow> 's \<Rightarrow> 's) \<Rightarrow> mem \<Rightarrow> u32 \<Rightarrow> u32 \<Rightarrow> u32 \<Rightarrow> 's \<Rightarrow> 's option" where
  "list_for_each_entry body m head offs pos s =
     (if pos + offs = head then Some s
      else list_for_each_entry body m head offs (container_of (list_next m (pos + offs)) offs) (body pos s))"

partial_function (option) list_for_each_safe ::
  "(u32 \<Rightarrow> mem \<times> 's \<Rightarrow> mem \<times> 's) \<Rightarrow> u32 \<Rightarrow> u32 \<Rightarrow> u32 \<Rightarrow> mem \<times> 's \<Rightarrow> (mem \<times> 's) option" where
  "list_for_each_safe body head pos n s =
     (if pos = head then Some s
      else let s = body pos s; pos = n; n = list_next (fst s) pos in list_for_each_safe body head pos n s)"

partial_function (option) list_for_each_entry_safe ::
  "(u32 \<Rightarrow> mem \<times> 's \<Rightarrow> mem \<times> 's) \<Rightarrow> u32 \<Rightarrow> u32 \<Rightarrow> u32 \<Rightarrow> u32 \<Rightarrow> mem \<times> 's \<Rightarrow> (mem \<times> 's) option" where
  "list_for_each_entry_safe body head offs pos n s =
     (if pos + offs = head then Some s
      else let s = body pos s; pos = n; n = container_of (list_next (fst s) (n + offs)) offs
           in list_for_each_entry_safe body head offs pos n s)"

text \<open>\<open>LIST_INIT\<close>: a head that points to itself.\<close>

abbreviation (input) LIST_INIT :: "u32 \<Rightarrow> mem \<Rightarrow> mem" where
  "LIST_INIT name m \<equiv> list_init m name"

section \<open>Nodes that do not overlap\<close>

definition apart :: "u32 \<Rightarrow> nat \<Rightarrow> u32 \<Rightarrow> nat \<Rightarrow> bool" where
  "apart a j b k \<longleftrightarrow> unat a + j \<le> unat b \<or> unat b + k \<le> unat a"

definition node_ok :: "u32 \<Rightarrow> bool" where
  "node_ok x \<longleftrightarrow> aligned4 x \<and> unat x + 8 \<le> 4294967296"

definition nodes_ok :: "u32 list \<Rightarrow> bool" where
  "nodes_ok xs \<longleftrightarrow> distinct xs \<and> (\<forall>x \<in> set xs. node_ok x)
     \<and> (\<forall>x \<in> set xs. \<forall>y \<in> set xs. x \<noteq> y \<longrightarrow> apart x 8 y 8)"

named_theorems node_simps \<open>reads of list fields after list stores\<close>

lemma node_ok_offset4:
  assumes "node_ok x"
  shows "unat (x + 4) = unat x + 4" "aligned4 (x + 4)" "aligned4 x" "x + 4 \<noteq> x"
  using assms unfolding node_ok_def aligned4_def by (simp_all add: addr_simps)

lemma nodes_ok_fields_differ:
  assumes "nodes_ok xs" "x \<in> set xs" "y \<in> set xs"
  shows "x \<noteq> y + 4" "y + 4 \<noteq> x"
proof -
  have "node_ok y" using assms by (simp add: nodes_ok_def)
  then have "unat (y + 4) = unat y + 4" by (rule node_ok_offset4)
  moreover have "x \<noteq> y \<Longrightarrow> apart x 8 y 8" using assms by (simp add: nodes_ok_def)
  ultimately show "x \<noteq> y + 4" by (cases "x = y") (auto simp: apart_def)
  then show "y + 4 \<noteq> x" by simp
qed

lemma nodes_ok_subset: "nodes_ok xs \<Longrightarrow> set ys \<subseteq> set xs \<Longrightarrow> distinct ys \<Longrightarrow> nodes_ok ys"
  unfolding nodes_ok_def by blast

lemma nodes_ok_set_eq: "nodes_ok xs \<Longrightarrow> set ys = set xs \<Longrightarrow> distinct ys \<Longrightarrow> nodes_ok ys"
  by (rule nodes_ok_subset) auto

lemma node_fields [node_simps]:
  assumes "nodes_ok xs" "x \<in> set xs" "y \<in> set xs"
  shows "list_next (set_next m x v) y = (if y = x then v else list_next m y)"
    and "list_prev (set_next m x v) y = list_prev m y"
    and "list_prev (set_prev m x v) y = (if y = x then v else list_prev m y)"
    and "list_next (set_prev m x v) y = list_next m y"
proof -
  have ok: "node_ok x" "node_ok y" using assms by (simp_all add: nodes_ok_def)
  note al = node_ok_offset4 [OF ok(1)] node_ok_offset4 [OF ok(2)]
  note df = nodes_ok_fields_differ [OF assms] nodes_ok_fields_differ [OF assms(1,3,2)]
  show "list_next (set_next m x v) y = (if y = x then v else list_next m y)"
    using al by (auto simp: list_next_def set_next_def)
  show "list_prev (set_next m x v) y = list_prev m y"
    using al df by (auto simp: list_prev_def set_next_def)
  show "list_prev (set_prev m x v) y = (if y = x then v else list_prev m y)"
    using al by (auto simp: list_prev_def set_prev_def)
  show "list_next (set_prev m x v) y = list_next m y"
    using al df by (auto simp: list_next_def set_prev_def)
qed

lemma list_insert_fields:
  assumes "nodes_ok xs" "n \<in> set xs" "prv \<in> set xs" "nxt \<in> set xs" "y \<in> set xs"
  shows "list_next (list_insert m n prv nxt) y
           = (if y = prv then n else if y = n then nxt else list_next m y)"
    and "list_prev (list_insert m n prv nxt) y
           = (if y = n then prv else if y = nxt then n else list_prev m y)"
  using assms by (auto simp: list_insert_def Let_def node_simps)

lemma list_del_fields:
  assumes "nodes_ok xs" "e \<in> set xs" "list_prev m e \<in> set xs" "list_next m e \<in> set xs" "y \<in> set xs"
  shows "list_next (list_del m e) y
           = (if y = e then 0 else if y = list_prev m e then list_next m e else list_next m y)"
    and "list_prev (list_del m e) y
           = (if y = e then 0 else if y = list_next m e then list_prev m e else list_prev m y)"
  using assms by (auto simp: list_del_def list_del_links_def Let_def node_simps)

section \<open>The ring\<close>

fun linked :: "mem \<Rightarrow> u32 list \<Rightarrow> bool" where
  "linked m (x # y # zs) = (list_next m x = y \<and> list_prev m y = x \<and> linked m (y # zs))"
| "linked m _ = True"

definition dll :: "mem \<Rightarrow> u32 \<Rightarrow> u32 list \<Rightarrow> bool" where
  "dll m h ns \<longleftrightarrow> nodes_ok (h # ns) \<and> linked m (h # ns @ [h])"

lemma linked_append: "linked m (xs @ y # zs) \<longleftrightarrow> linked m (xs @ [y]) \<and> linked m (y # zs)"
  by (induction m xs rule: linked.induct) auto

lemma linked_cong:
  assumes "\<And>x. x \<in> set (butlast xs) \<Longrightarrow> list_next m' x = list_next m x"
    and "\<And>x. x \<in> set (tl xs) \<Longrightarrow> list_prev m' x = list_prev m x"
  shows "linked m' xs = linked m xs"
  using assms by (induction m xs rule: linked.induct) (auto split: if_splits)

text \<open>A ring seen from the gap between two neighbours \<open>p\<close> and \<open>q\<close>.\<close>

lemma ring_gap:
  obtains us vs where "h # xs = us @ [last (h # xs)]" "ys @ [h] = hd (ys @ [h]) # vs"
    "set us \<subseteq> set (h # xs)" "set vs \<subseteq> set (h # ys)"
proof
  show "h # xs = butlast (h # xs) @ [last (h # xs)]" by simp
  show "ys @ [h] = hd (ys @ [h]) # tl (ys @ [h])" by simp
  show "set (butlast (h # xs)) \<subseteq> set (h # xs)" using in_set_butlastD by fast
  show "set (tl (ys @ [h])) \<subseteq> set (h # ys)" by (cases ys) auto
qed

lemma linked_gap:
  "linked m (h # xs @ ys @ [h]) \<longleftrightarrow>
     linked m (h # xs) \<and> linked m (ys @ [h])
     \<and> list_next m (last (h # xs)) = hd (ys @ [h]) \<and> list_prev m (hd (ys @ [h])) = last (h # xs)"
proof -
  obtain us vs where s: "h # xs = us @ [last (h # xs)]" "ys @ [h] = hd (ys @ [h]) # vs"
    by (rule ring_gap)
  have "linked m (h # xs @ ys @ [h]) = linked m (us @ last (h # xs) # hd (ys @ [h]) # vs)"
    using s by (metis append_Cons append_assoc append_Nil)
  also have "\<dots> = (linked m (us @ [last (h # xs)]) \<and> list_next m (last (h # xs)) = hd (ys @ [h])
      \<and> list_prev m (hd (ys @ [h])) = last (h # xs) \<and> linked m (hd (ys @ [h]) # vs))"
    by (subst linked_append) simp
  finally show ?thesis using s by metis
qed

lemma last_in_ring: "last (h # xs) \<in> set (h # xs)"
  by (rule last_in_set) simp

lemma hd_in_ring: "hd (ys @ [h]) \<in> set (h # ys)"
  by (cases ys) auto

lemma linked_front_cong:
  assumes "\<And>x. x \<in> set (h # xs) \<Longrightarrow> x \<noteq> last (h # xs) \<Longrightarrow> list_next m' x = list_next m x"
    and "\<And>x. x \<in> set xs \<Longrightarrow> list_prev m' x = list_prev m x" "distinct (h # xs)"
  shows "linked m' (h # xs) = linked m (h # xs)"
proof (rule linked_cong)
  fix x assume x: "x \<in> set (butlast (h # xs))"
  have "distinct (butlast (h # xs) @ [last (h # xs)])"
    unfolding append_butlast_last_id [OF list.distinct(2) [of h xs]] by (rule assms(3))
  with x have "x \<noteq> last (h # xs)" by auto
  moreover have "x \<in> set (h # xs)" using x by (rule in_set_butlastD)
  ultimately show "list_next m' x = list_next m x" by (rule assms(1) [rotated])
qed (use assms(2) in simp)

lemma linked_back_cong:
  assumes "\<And>x. x \<in> set ys \<Longrightarrow> list_next m' x = list_next m x"
    and "\<And>x. x \<in> set (h # ys) \<Longrightarrow> x \<noteq> hd (ys @ [h]) \<Longrightarrow> list_prev m' x = list_prev m x"
    "distinct (h # ys)"
  shows "linked m' (ys @ [h]) = linked m (ys @ [h])"
proof (rule linked_cong)
  fix x assume "x \<in> set (tl (ys @ [h]))"
  with assms(3) have "x \<in> set (h # ys)" "x \<noteq> hd (ys @ [h])" by (cases ys; auto)+
  then show "list_prev m' x = list_prev m x" by (rule assms(2))
qed (use assms(1) in simp)

section \<open>What the operations do to the ring\<close>

lemma list_init_dll: "node_ok h \<Longrightarrow> dll (list_init m h) h []"
  by (auto simp: dll_def nodes_ok_def list_init_def node_fields [of "[h]"])

lemma list_insert_dll:
  assumes "dll m h (xs @ ys)" "nodes_ok (h # xs @ n # ys)"
    and p_def: "p = last (h # xs)" and q_def: "q = hd (ys @ [h])"
  shows "dll (list_insert m n p q) h (xs @ n # ys)"
proof -
  let ?all = "h # xs @ n # ys" and ?m = "list_insert m n p q"
  have dist: "distinct ?all" using assms(2) by (simp add: nodes_ok_def)
  have p: "p \<in> set ?all" "p \<in> set (h # xs)" using last_in_ring [of h xs] p_def by auto
  have q: "q \<in> set ?all" "q \<in> set (h # ys)" using hd_in_ring [of ys h] q_def by auto
  have np: "n \<noteq> p" "n \<noteq> q" using p(2) q(2) dist by auto
  note f = list_insert_fields [OF assms(2) _ p(1) q(1), of n]
  have front: "linked ?m (h # xs) = linked m (h # xs)"
  proof (rule linked_front_cong)
    fix x assume x: "x \<in> set xs"
    then have "x \<noteq> n" "x \<noteq> q" using q(2) dist by auto
    with x show "list_prev ?m x = list_prev m x" by (simp add: f)
  next
    fix x assume x: "x \<in> set (h # xs)" "x \<noteq> last (h # xs)"
    then have "x \<noteq> n" "x \<noteq> p" using dist p_def by auto
    with x(1) show "list_next ?m x = list_next m x" by (auto simp: f)
  qed (use dist in auto)
  have rear: "linked ?m (ys @ [h]) = linked m (ys @ [h])"
  proof (rule linked_back_cong)
    fix x assume x: "x \<in> set ys"
    then have "x \<noteq> n" "x \<noteq> p" using p(2) dist by auto
    with x show "list_next ?m x = list_next m x" by (simp add: f)
  next
    fix x assume x: "x \<in> set (h # ys)" "x \<noteq> hd (ys @ [h])"
    then have "x \<noteq> n" "x \<noteq> q" using dist q_def by auto
    with x(1) show "list_prev ?m x = list_prev m x" by (auto simp: f)
  qed (use dist in auto)
  have old: "linked m (h # xs)" "linked m (ys @ [h])"
    using assms(1) by (simp_all add: dll_def linked_gap del: last.simps)
  have "list_next ?m n = q" "list_prev ?m q = n" using q np by (simp_all add: f)
  then have mid: "linked ?m ((n # ys) @ [h])"
    using old(2) rear q_def by (cases ys) auto
  have "list_next ?m p = n" "list_prev ?m n = p" using p np by (simp_all add: f)
  then have "linked ?m (h # xs @ (n # ys) @ [h])"
    unfolding linked_gap using old(1) front mid p_def by simp
  with assms(2) show ?thesis by (simp add: dll_def)
qed

lemma dll_neighbours:
  assumes "dll m h (xs @ e # ys)"
  shows "list_prev m e = last (h # xs)" "list_next m e = hd (ys @ [h])"
proof -
  have l: "linked m (h # xs @ (e # ys) @ [h])" using assms by (simp add: dll_def)
  from l show "list_prev m e = last (h # xs)" unfolding linked_gap by simp
  from l have "linked m (e # ys @ [h])" unfolding linked_gap by simp
  then show "list_next m e = hd (ys @ [h])" by (cases ys) simp_all
qed

lemma list_del_dll:
  assumes "dll m h (xs @ e # ys)"
  shows "dll (list_del m e) h (xs @ ys)"
proof -
  define p where p_def: "p = last (h # xs)"
  define q where q_def: "q = hd (ys @ [h])"
  let ?all = "h # xs @ e # ys" and ?m = "list_del m e"
  have ok: "nodes_ok ?all" and dist: "distinct ?all"
    using assms by (simp_all add: dll_def nodes_ok_def)
  have p: "p \<in> set ?all" "p \<in> set (h # xs)" using last_in_ring [of h xs] p_def by auto
  have q: "q \<in> set ?all" "q \<in> set (h # ys)" using hd_in_ring [of ys h] q_def by auto
  have np: "p \<noteq> e" "q \<noteq> e" using p(2) q(2) dist by auto
  have e: "list_prev m e = p" "list_next m e = q"
    using dll_neighbours [OF assms] p_def q_def by simp_all
  have "linked m (h # xs @ (e # ys) @ [h])" using assms by (simp add: dll_def)
  then have old: "linked m (h # xs)" "linked m (ys @ [h])"
    unfolding linked_gap by (cases ys; simp)+
  have f: "list_next ?m y = (if y = e then 0 else if y = p then q else list_next m y)"
    "list_prev ?m y = (if y = e then 0 else if y = q then p else list_prev m y)"
    if "y \<in> set ?all" for y
    using list_del_fields [OF ok, of e m y] p q that by (simp_all add: e)
  have front: "linked ?m (h # xs) = linked m (h # xs)"
  proof (rule linked_front_cong)
    fix x assume x: "x \<in> set xs"
    then have "x \<noteq> e" "x \<noteq> q" using q(2) dist by auto
    with x show "list_prev ?m x = list_prev m x" by (simp add: f)
  next
    fix x assume x: "x \<in> set (h # xs)" "x \<noteq> last (h # xs)"
    then have "x \<noteq> e" "x \<noteq> p" using dist p_def by auto
    with x(1) show "list_next ?m x = list_next m x" by (auto simp: f)
  qed (use dist in auto)
  have rear: "linked ?m (ys @ [h]) = linked m (ys @ [h])"
  proof (rule linked_back_cong)
    fix x assume x: "x \<in> set ys"
    then have "x \<noteq> e" "x \<noteq> p" using p(2) dist by auto
    with x show "list_next ?m x = list_next m x" by (simp add: f)
  next
    fix x assume x: "x \<in> set (h # ys)" "x \<noteq> hd (ys @ [h])"
    then have "x \<noteq> e" "x \<noteq> q" using dist q_def by auto
    with x(1) show "list_prev ?m x = list_prev m x" by (auto simp: f)
  qed (use dist in auto)
  have "list_next ?m p = q" "list_prev ?m q = p" using p q np by (simp_all add: f)
  then have "linked ?m (h # xs @ ys @ [h])"
    unfolding linked_gap using old front rear p_def q_def by simp
  moreover have "nodes_ok (h # xs @ ys)" by (rule nodes_ok_subset [OF ok]) (use dist in auto)
  ultimately show ?thesis by (simp add: dll_def)
qed

lemma dll_first: "dll m h ns \<Longrightarrow> list_next m h = hd (ns @ [h])"
  by (cases ns) (auto simp: dll_def)

lemma dll_last: "dll m h ns \<Longrightarrow> list_prev m h = last (h # ns)"
  using linked_gap [of m h ns "[]"] by (simp add: dll_def del: last.simps)

lemma list_add_tail_dll:
  "dll m h ns \<Longrightarrow> nodes_ok (h # ns @ [n]) \<Longrightarrow> dll (list_add_tail m n h) h (ns @ [n])"
  unfolding list_add_tail_def
  by (subst dll_last, assumption, rule list_insert_dll) (simp_all del: last.simps)

lemma list_add_dll:
  "dll m h ns \<Longrightarrow> nodes_ok (h # n # ns) \<Longrightarrow> dll (list_add m n h) h (n # ns)"
  unfolding list_add_def
  using list_insert_dll [of m h "[]" ns n h "hd (ns @ [h])"] by (simp add: dll_first)

lemma nodes_ok_snoc:
  assumes "nodes_ok (h # ns)" "node_ok n" "\<And>x. x \<in> set (h # ns) \<Longrightarrow> apart x 8 n 8"
  shows "nodes_ok (h # ns @ [n])"
  using assms unfolding nodes_ok_def
  by (auto simp: apart_def) (metis add_le_same_cancel1 le_zero_eq zero_neq_numeral)+

text \<open>A traversal visits the elements in order and ends.\<close>

lemma list_for_each_dll:
  assumes "linked m (pos # xs)" "last (pos # xs) = h" "h \<notin> set (butlast (pos # xs))"
  shows "list_for_each body m h pos s = Some (fold body (butlast (pos # xs)) s)"
  using assms
proof (induction xs arbitrary: pos s)
  case Nil
  then show ?case by (simp add: list_for_each.simps)
next
  case (Cons x xs)
  then have "pos \<noteq> h" "list_next m pos = x" by auto
  moreover have "list_for_each body m h x (body pos s) = Some (fold body (butlast (x # xs)) (body pos s))"
    using Cons.prems by (intro Cons.IH) auto
  ultimately show ?case by (simp add: list_for_each.simps [of body m h pos])
qed

lemma list_for_each_ring:
  assumes "dll m h ns"
  shows "list_for_each body m h (list_next m h) s = Some (fold body ns s)"
proof -
  obtain p xs where x: "ns @ [h] = p # xs" by (cases "ns @ [h]") auto
  have l: "linked m (h # p # xs)" "h \<notin> set ns" using assms x by (auto simp: dll_def nodes_ok_def)
  have b: "butlast (p # xs) = ns" "last (p # xs) = h" unfolding x [symmetric] by simp_all
  have "list_for_each body m h p s = Some (fold body (butlast (p # xs)) s)"
    by (rule list_for_each_dll) (use l b in auto)
  then show ?thesis using l b by simp
qed

lemma list_for_each_entry_dll:
  assumes "linked m (pos # xs)" "last (pos # xs) = h" "h \<notin> set (butlast (pos # xs))"
  shows "list_for_each_entry body m h offs (container_of pos offs) s =
    Some (fold (\<lambda>p. body (container_of p offs)) (butlast (pos # xs)) s)"
  using assms
proof (induction xs arbitrary: pos s)
  case Nil
  then show ?case by (simp add: list_for_each_entry.simps container_of_def)
next
  case (Cons x xs)
  then have "pos \<noteq> h" "list_next m pos = x" by auto
  moreover have "list_for_each_entry body m h offs (container_of x offs) (body (container_of pos offs) s)
      = Some (fold (\<lambda>p. body (container_of p offs)) (butlast (x # xs)) (body (container_of pos offs) s))"
    using Cons.prems by (intro Cons.IH) auto
  ultimately show ?case
    by (simp add: list_for_each_entry.simps [of body m h offs "container_of pos offs"]) (simp add: container_of_def)
qed

lemma list_for_each_entry_ring:
  assumes "dll m h ns"
  shows "list_for_each_entry body m h offs (container_of (list_next m h) offs) s =
    Some (fold (\<lambda>p. body (container_of p offs)) ns s)"
proof -
  obtain p xs where x: "ns @ [h] = p # xs" by (cases "ns @ [h]") auto
  have l: "linked m (h # p # xs)" "h \<notin> set ns" using assms x by (auto simp: dll_def nodes_ok_def)
  have b: "butlast (p # xs) = ns" "last (p # xs) = h" unfolding x [symmetric] by simp_all
  have "list_for_each_entry body m h offs (container_of p offs) s =
      Some (fold (\<lambda>p. body (container_of p offs)) (butlast (p # xs)) s)"
    by (rule list_for_each_entry_dll) (use l b in auto)
  then show ?thesis using l b by simp
qed

text \<open>A body that removes the current node: the safe traversals still visit every element, and empty the list.\<close>

lemma safe_removal_step:
  assumes "dll m h (x # xs)"
  shows "list_next m h = x" "x \<noteq> h" "dll (list_del m x) h xs"
    "list_next m x = list_next (list_del m x) h"
proof -
  show d: "dll (list_del m x) h xs" using list_del_dll [of m h "[]" x xs] assms by simp
  show "list_next m h = x" "x \<noteq> h" using assms by (auto simp: dll_def nodes_ok_def)
  show "list_next m x = list_next (list_del m x) h"
    using dll_first [OF d] assms by (cases xs) (auto simp: dll_def)
qed

lemma list_for_each_safe_removal:
  assumes "dll m h ns"
  shows "\<exists>m'. list_for_each_safe (\<lambda>p (m, s). (list_del m p, body p s)) h (list_next m h) (list_next m (list_next m h)) (m, s)
    = Some (m', fold body ns s) \<and> dll m' h []"
  using assms
proof (induction ns arbitrary: m s)
  case Nil
  then show ?case by (subst list_for_each_safe.simps) (simp add: dll_first)
next
  case (Cons x xs)
  note r = safe_removal_step [OF Cons.prems]
  from Cons.IH [OF r(3), of "body x s"] r(1,2,4) show ?case
    by (subst list_for_each_safe.simps) (simp add: Let_def)
qed

lemma list_for_each_entry_safe_removal:
  assumes "dll m h ns"
  shows "\<exists>m'. list_for_each_entry_safe (\<lambda>p (m, s). (list_del m (p + offs), body p s)) h offs
      (container_of (list_next m h) offs) (container_of (list_next m (list_next m h)) offs) (m, s)
    = Some (m', fold (\<lambda>p. body (container_of p offs)) ns s) \<and> dll m' h []"
  using assms
proof (induction ns arbitrary: m s)
  case Nil
  then show ?case by (subst list_for_each_entry_safe.simps) (simp add: dll_first container_of_def)
next
  case (Cons x xs)
  note r = safe_removal_step [OF Cons.prems]
  have e: "container_of p offs + offs = p" for p by (simp add: container_of_def)
  from Cons.IH [OF r(3), of "body (container_of x offs) s"] r(1,2,4) show ?case
    by (subst list_for_each_entry_safe.simps) (simp add: Let_def e)
qed

section \<open>Frame: the bytes an operation may change\<close>

definition nodes_span :: "u32 list \<Rightarrow> u32 set" where
  "nodes_span xs = (\<Union>x \<in> set xs. span x 8)"

lemma set_field_outside:
  assumes "node_ok n" "x \<notin> span n 8"
  shows "set_next m n v x = m x" "set_prev m n v x = m x"
proof -
  have "x \<notin> span n 4" "x \<notin> span (n + 4) 4"
    using assms node_ok_offset4 [OF assms(1)] by (auto simp: span_def)
  then show "set_next m n v x = m x" "set_prev m n v x = m x"
    using node_ok_offset4 [OF assms(1)] by (simp_all add: set_next_def set_prev_def store32_outside)
qed

lemma list_init_outside: "node_ok n \<Longrightarrow> x \<notin> span n 8 \<Longrightarrow> list_init m n x = m x"
  by (simp add: list_init_def set_field_outside)

lemma list_node_init_outside: "node_ok n \<Longrightarrow> x \<notin> span n 8 \<Longrightarrow> list_node_init m n x = m x"
  by (simp add: list_node_init_def set_field_outside)

lemma list_insert_outside:
  assumes "nodes_ok xs" "{n, p, q} \<subseteq> set xs" "x \<notin> nodes_span xs"
  shows "list_insert m n p q x = m x"
  using assms by (simp add: list_insert_def Let_def set_field_outside nodes_ok_def nodes_span_def)

lemma list_del_outside:
  assumes "dll m h (xs @ e # ys)" "x \<notin> nodes_span (h # xs @ e # ys)"
  shows "list_del m e x = m x"
proof -
  have "list_prev m e \<in> set (h # xs)" "list_next m e \<in> set (h # ys)"
    using dll_neighbours [OF assms(1)] last_in_ring hd_in_ring by metis+
  with assms show ?thesis
    by (auto simp: list_del_def list_del_links_def Let_def set_field_outside nodes_ok_def
        nodes_span_def dll_def)
qed

lemma fields_cong:
  assumes "node_ok y" "\<And>x. x \<in> span y 8 \<Longrightarrow> m' x = m x"
  shows "list_next m' y = list_next m y" "list_prev m' y = list_prev m y"
proof -
  have "span y 4 \<subseteq> span y 8" "span (y + 4) 4 \<subseteq> span y 8"
    using node_ok_offset4 [OF assms(1)] by (auto simp: span_def)
  then show "list_next m' y = list_next m y" "list_prev m' y = list_prev m y"
    using assms node_ok_offset4 [OF assms(1)] unfolding list_next_def list_prev_def
    by (intro load32_cong; blast)+
qed

lemma dll_cong:
  assumes "\<And>x. x \<in> nodes_span (h # ns) \<Longrightarrow> m' x = m x" "dll m h ns"
  shows "dll m' h ns"
proof -
  have nok: "\<And>y. y \<in> set (h # ns) \<Longrightarrow> node_ok y" using assms(2) by (auto simp: dll_def nodes_ok_def)
  have same: "m' x = m x" if "y \<in> set (h # ns)" "x \<in> span y 8" for x y
    by (rule assms(1)) (use that in \<open>auto simp: nodes_span_def\<close>)
  have c: "list_next m' y = list_next m y" "list_prev m' y = list_prev m y" if "y \<in> set (h # ns)" for y
    by (rule fields_cong [OF nok [OF that]], rule same [OF that], assumption)+
  have "linked m' (h # ns @ [h]) = linked m (h # ns @ [h])"
    by (rule linked_cong) (auto dest!: in_set_butlastD simp: c)
  with assms(2) show ?thesis by (simp add: dll_def)
qed

end
