(* ===== verification/Heap_Spec.thy ===== *)
theory Heap_Spec
  imports Linked_List
begin

text \<open>
  The allocator of \<open>src/kernel/heap.c\<close> seen without its memory: the free list as a list of
  blocks (address of the \<open>alloc_node_t\<close>, value of its \<open>size\<close> field) and what first-fit
  allocation, ordered insertion and coalescing do to it. \<open>heap_geom\<close> is the geometry the
  allocator is meant to keep: all blocks, free and allocated, lie inside the heap and do
  not overlap. The theory \<open>Heap_Code\<close> proves that the code implements these functions.
\<close>

type_synonym block = "u32 \<times> u32"

section \<open>First fit, insertion, coalescing\<close>

fun spec_malloc :: "u32 \<Rightarrow> block list \<Rightarrow> (block \<times> block list) option" where
  "spec_malloc sz [] = None"
| "spec_malloc sz ((a, s) # bs) =
     (if sz \<le> s then
        (if 44 \<le> s - sz then Some ((a, sz), (a + 12 + sz, s - sz - 12) # bs)
         else Some ((a, s), bs))
      else map_option (\<lambda>(b, r). (b, (a, s) # r)) (spec_malloc sz bs))"

fun spec_insert :: "block \<Rightarrow> block list \<Rightarrow> block list" where
  "spec_insert b [] = [b]"
| "spec_insert b (x # xs) = (if fst b < fst x then b # x # xs else x # spec_insert b xs)"

fun defrag_from :: "block \<Rightarrow> block list \<Rightarrow> block list" where
  "defrag_from lb [] = [lb]"
| "defrag_from lb (b # bs) =
     (if fst lb + 12 + snd lb = fst b then defrag_from (fst lb, snd lb + (16 + snd b)) bs
      else lb # defrag_from b bs)"

fun spec_defrag :: "block list \<Rightarrow> block list" where
  "spec_defrag [] = []"
| "spec_defrag (b # bs) = defrag_from b bs"

definition spec_free :: "block \<Rightarrow> block list \<Rightarrow> block list" where
  "spec_free b bs = spec_defrag (spec_insert b bs)"

section \<open>Geometry\<close>

definition block_end :: "block \<Rightarrow> nat" where
  "block_end b = unat (fst b) + 12 + unat (snd b)"

definition extent :: "block \<Rightarrow> u32 set" where
  "extent b = span (fst b) (12 + unat (snd b))"

definition before :: "block \<Rightarrow> block \<Rightarrow> bool" where
  "before x y \<longleftrightarrow> block_end x \<le> unat (fst y)"

definition separate :: "block \<Rightarrow> block \<Rightarrow> bool" where
  "separate x y \<longleftrightarrow> before x y \<or> before y x"

definition block_ok :: "nat \<Rightarrow> nat \<Rightarrow> block \<Rightarrow> bool" where
  "block_ok lo hi b \<longleftrightarrow> aligned4 (fst b) \<and> lo \<le> unat (fst b) \<and> block_end b \<le> hi"

definition heap_geom :: "nat \<Rightarrow> nat \<Rightarrow> block list \<Rightarrow> block list \<Rightarrow> bool" where
  "heap_geom lo hi bs al \<longleftrightarrow> 0 < lo \<and> hi < 4294967296
     \<and> (\<forall>b \<in> set (bs @ al). block_ok lo hi b) \<and> sorted_wrt before bs
     \<and> sorted_wrt separate (bs @ al)"

text \<open>Bytes taken by a list of blocks, headers included.\<close>

definition footprint :: "block list \<Rightarrow> nat" where
  "footprint bs = (\<Sum>b \<leftarrow> bs. 12 + unat (snd b))"

definition abuts :: "block \<Rightarrow> block \<Rightarrow> bool" where
  "abuts x y \<longleftrightarrow> fst x + 12 + snd x = fst y"

lemma separate_sym: "separate x y = separate y x"
  by (auto simp: separate_def)

lemma before_separate: "before x y \<Longrightarrow> separate x y" "before x y \<Longrightarrow> separate y x"
  by (simp_all add: separate_def)

lemma separate_irrefl [simp]: "\<not> separate x x" "\<not> before x x"
  by (auto simp: separate_def before_def block_end_def)

lemma separate_extents: "separate x y \<Longrightarrow> extent x \<inter> extent y = {}"
  by (auto simp: separate_def before_def block_end_def extent_def span_def)

lemma footprint_simps [simp]:
  "footprint [] = 0" "footprint (b # bs) = 12 + unat (snd b) + footprint bs"
  "footprint (xs @ ys) = footprint xs + footprint ys"
  by (simp_all add: footprint_def)

lemma spec_malloc_None: "spec_malloc sz bs = None \<longleftrightarrow> (\<forall>b \<in> set bs. snd b < sz)"
  by (induction sz bs rule: spec_malloc.induct) auto

text \<open>The block taken is the first that is large enough; it is split when 44 bytes remain.\<close>

lemma spec_malloc_split:
  assumes "spec_malloc sz bs = Some (b, bs')"
  obtains xs a s ys where "bs = xs @ (a, s) # ys" "\<forall>x \<in> set xs. snd x < sz" "sz \<le> s"
    "find (\<lambda>x. sz \<le> snd x) bs = Some (a, s)"
    "(b, bs') = (if 44 \<le> s - sz then ((a, sz), xs @ (a + 12 + sz, s - sz - 12) # ys)
                 else ((a, s), xs @ ys))"
  using assms
proof (induction sz bs arbitrary: b bs' thesis rule: spec_malloc.induct)
  case (1 sz)
  then show ?case by simp
next
  case (2 sz a s bs)
  show ?case
  proof (cases "sz \<le> s")
    case True
    with "2.prems" show ?thesis by (intro "2.prems"(1) [of "[]" a s bs]) (auto split: if_splits)
  next
    case False
    with "2.prems"(2) obtain r where r: "spec_malloc sz bs = Some (b, r)" "bs' = (a, s) # r" by auto
    show ?thesis
    proof (rule "2.IH" [OF False _ r(1)])
      fix xs a' s' ys
      assume "bs = xs @ (a', s') # ys" "\<forall>x \<in> set xs. snd x < sz" "sz \<le> s'"
        "find (\<lambda>x. sz \<le> snd x) bs = Some (a', s')"
        "(b, r) = (if 44 \<le> s' - sz then ((a', sz), xs @ (a' + 12 + sz, s' - sz - 12) # ys)
           else ((a', s'), xs @ ys))"
      with False r(2) show thesis
        by (intro "2.prems"(1) [of "(a, s) # xs" a' s' ys]) (auto split: if_splits)
    qed
  qed
qed

text \<open>Splitting a block in two leaves the extent of the whole covered exactly.\<close>

lemma split_block:
  assumes "sz \<le> s" "44 \<le> s - sz" "unat a + 12 + unat s < 4294967296"
  shows "unat (a + 12 + sz) = unat a + 12 + unat sz" "unat (s - sz - 12) = unat s - unat sz - 12"
    "unat sz + 44 \<le> unat s" "block_end (a, sz) = unat (a + 12 + sz)"
    "block_end (a + 12 + sz, s - sz - 12) = unat a + 12 + unat s"
proof -
  have le: "unat sz \<le> unat s" using assms(1) by (simp add: word_le_nat_alt)
  then have d: "unat (s - sz) = unat s - unat sz" by (rule unat_sub_u32)
  with assms(2) show 3: "unat sz + 44 \<le> unat s" by (simp add: word_le_nat_alt)
  have "unat (12 :: u32) \<le> unat (s - sz)" using 3 d by simp
  then show 2: "unat (s - sz - 12) = unat s - unat sz - 12" using d by (simp add: unat_sub_u32)
  have "unat (a + 12) = unat a + 12" using assms(3) by (simp add: addr_simps)
  then show 1: "unat (a + 12 + sz) = unat a + 12 + unat sz"
    using assms(3) le by (simp add: unat_add_u32)
  show "block_end (a, sz) = unat (a + 12 + sz)" by (simp add: block_end_def 1)
  show "block_end (a + 12 + sz, s - sz - 12) = unat a + 12 + unat s"
    using 3 by (simp add: block_end_def 1 2)
qed

text \<open>A block inside another inherits its position relative to all other blocks.\<close>

definition inside :: "block \<Rightarrow> block \<Rightarrow> bool" where
  "inside n b \<longleftrightarrow> unat (fst b) \<le> unat (fst n) \<and> block_end n \<le> block_end b"

lemma inside_before:
  "inside n b \<Longrightarrow> before x b \<Longrightarrow> before x n"
  "inside n b \<Longrightarrow> before b x \<Longrightarrow> before n x"
  "inside n b \<Longrightarrow> separate b x \<Longrightarrow> separate n x"
  "inside n b \<Longrightarrow> separate x b \<Longrightarrow> separate x n"
  by (auto simp: inside_def before_def separate_def)

lemma block_end_mono: "block_ok lo hi b \<Longrightarrow> hi < 4294967296 \<Longrightarrow> block_end b < 4294967296"
  by (simp add: block_ok_def)

lemma heap_geom_swap:
  assumes "heap_geom lo hi (xs @ b # ys) al" "inside n b" "inside c b" "before c n"
    "block_ok lo hi n" "block_ok lo hi c"
  shows "heap_geom lo hi (xs @ n # ys) (c # al)"
proof -
  have "\<forall>x \<in> set xs. before x b" "\<forall>y \<in> set ys. before b y" "\<forall>z \<in> set al. separate b z"
    "\<forall>x \<in> set xs. separate x b"
    using assms(1) by (auto simp: heap_geom_def sorted_wrt_append)
  then have "\<forall>x \<in> set xs. before x n \<and> before x c" "\<forall>y \<in> set ys. before n y \<and> before c y"
    "\<forall>z \<in> set al. separate n z \<and> separate c z"
    using assms(2,3) inside_before by blast+
  with assms(1,4-6) show ?thesis
    by (auto simp: heap_geom_def sorted_wrt_append separate_sym before_separate)
qed

lemma heap_geom_take:
  assumes "heap_geom lo hi (xs @ b # ys) al"
  shows "heap_geom lo hi (xs @ ys) (b # al)"
  using assms unfolding heap_geom_def
  by (auto simp: sorted_wrt_append separate_sym)

lemma aligned4_add:
  assumes "aligned4 a" "4 dvd unat n" "unat a + 12 + unat n < 4294967296"
  shows "aligned4 (a + 12 + n)"
proof -
  have "unat (a + 12 + n) = unat a + 12 + unat n"
    using assms(3) by (simp add: unat_add_u32 addr_simps)
  then show ?thesis using assms(1,2) unfolding aligned4_def by presburger
qed

theorem spec_malloc_geom:
  assumes "heap_geom lo hi bs al" "spec_malloc sz bs = Some (b, bs')" "4 dvd unat sz"
  shows "heap_geom lo hi bs' (b # al)"
proof -
  obtain xs a s ys where bs: "bs = xs @ (a, s) # ys" and le: "sz \<le> s" and
    res: "(b, bs') = (if 44 \<le> s - sz then ((a, sz), xs @ (a + 12 + sz, s - sz - 12) # ys)
                      else ((a, s), xs @ ys))"
    by (rule spec_malloc_split [OF assms(2)])
  show ?thesis
  proof (cases "44 \<le> s - sz")
    case False
    with res heap_geom_take [OF assms(1) [unfolded bs]] show ?thesis by simp
  next
    case True
    have ok: "block_ok lo hi (a, s)" "hi < 4294967296" using assms(1) bs by (auto simp: heap_geom_def)
    then have room: "unat a + 12 + unat s < 4294967296" by (simp add: block_ok_def block_end_def)
    note sp = split_block [OF le True room]
    have al: "aligned4 a" using ok by (simp add: block_ok_def)
    have "aligned4 (a + 12 + sz)" using al assms(3) room sp(3) by (intro aligned4_add) auto
    with ok al sp have "block_ok lo hi (a + 12 + sz, s - sz - 12)" "block_ok lo hi (a, sz)"
      by (auto simp: block_ok_def block_end_def)
    moreover have "inside (a + 12 + sz, s - sz - 12) (a, s)" "inside (a, sz) (a, s)"
      "before (a, sz) (a + 12 + sz, s - sz - 12)"
      using sp by (auto simp: inside_def before_def block_end_def)
    ultimately have "heap_geom lo hi (xs @ (a + 12 + sz, s - sz - 12) # ys) ((a, sz) # al)"
      using assms(1) unfolding bs by (intro heap_geom_swap)
    with res True show ?thesis by simp
  qed
qed

text \<open>Allocation accounts for every byte: what leaves the free list is the block handed out.\<close>

theorem spec_malloc_footprint:
  assumes "heap_geom lo hi bs al" "spec_malloc sz bs = Some (b, bs')"
  shows "footprint bs' + footprint (b # al) = footprint bs + footprint al"
proof -
  obtain xs a s ys where bs: "bs = xs @ (a, s) # ys" and le: "sz \<le> s" and
    res: "(b, bs') = (if 44 \<le> s - sz then ((a, sz), xs @ (a + 12 + sz, s - sz - 12) # ys)
                      else ((a, s), xs @ ys))"
    by (rule spec_malloc_split [OF assms(2)])
  have "unat a + 12 + unat s < 4294967296"
    using assms(1) bs by (auto simp: heap_geom_def block_ok_def block_end_def)
  note sp = split_block [OF le _ this]
  show ?thesis using res sp by (cases "44 \<le> s - sz") (auto simp: bs)
qed

text \<open>The block handed out holds the request and wastes fewer than 44 bytes.\<close>

theorem spec_malloc_size:
  assumes "spec_malloc sz bs = Some (b, bs')"
  shows "sz \<le> snd b" "unat (snd b) < unat sz + 44"
proof -
  obtain xs a s ys where le: "sz \<le> s" and
    res: "(b, bs') = (if 44 \<le> s - sz then ((a, sz), xs @ (a + 12 + sz, s - sz - 12) # ys)
                      else ((a, s), xs @ ys))"
    by (rule spec_malloc_split [OF assms])
  have "unat sz \<le> unat s" using le by (simp add: word_le_nat_alt)
  then have "\<not> 44 \<le> s - sz \<Longrightarrow> unat s < unat sz + 44"
    using unat_sub_u32 [of sz s] by (simp add: word_le_nat_alt)
  with res le show "sz \<le> snd b" "unat (snd b) < unat sz + 44" by (auto split: if_splits)
qed

section \<open>Insertion and coalescing\<close>

lemma set_spec_insert [simp]: "set (spec_insert b bs) = insert b (set bs)"
  by (induction b bs rule: spec_insert.induct) auto

lemma footprint_spec_insert [simp]: "footprint (spec_insert b bs) = footprint (b # bs)"
  by (induction b bs rule: spec_insert.induct) auto

lemma length_spec_insert [simp]: "length (spec_insert b bs) = Suc (length bs)"
  by (induction b bs rule: spec_insert.induct) auto

lemma spec_insert_split:
  obtains xs ys where "bs = xs @ ys" "spec_insert b bs = xs @ b # ys"
    "\<forall>x \<in> set xs. \<not> fst b < fst x" "ys \<noteq> [] \<longrightarrow> fst b < fst (hd ys)"
proof (induction b bs arbitrary: thesis rule: spec_insert.induct)
  case (1 b)
  then show ?case by (intro "1" [of "[]" "[]"]) auto
next
  case (2 b x xs)
  show ?case
  proof (cases "fst b < fst x")
    case True
    then show ?thesis by (intro "2.prems" [of "[]" "x # xs"]) auto
  next
    case False
    show ?thesis
    proof (rule "2.IH" [OF False])
      fix us vs
      assume "xs = us @ vs" "spec_insert b xs = us @ b # vs" "\<forall>x \<in> set us. \<not> fst b < fst x"
        "vs \<noteq> [] \<longrightarrow> fst b < fst (hd vs)"
      with False show thesis by (intro "2.prems" [of "x # us" vs]) auto
    qed
  qed
qed

lemma separate_before_iff: "separate x b \<Longrightarrow> before x b \<longleftrightarrow> \<not> fst b < fst x"
  by (auto simp: separate_def before_def block_end_def word_less_nat_alt)

lemma spec_insert_sorted:
  assumes "sorted_wrt before bs" "\<forall>x \<in> set bs. separate x b"
  shows "sorted_wrt before (spec_insert b bs)"
  using assms
proof (induction b bs rule: spec_insert.induct)
  case (1 b)
  then show ?case by simp
next
  case (2 b x xs)
  have trans: "before b x \<Longrightarrow> before x y \<Longrightarrow> before b y" for y
    by (auto simp: before_def block_end_def)
  from 2 have "before x b \<longleftrightarrow> \<not> fst b < fst x" "separate x b" by (simp_all add: separate_before_iff)
  then show ?case using 2 trans by (auto simp: separate_def)
qed

text \<open>
  Giving an allocated block back to the free list in address order keeps the geometry: the
  part of \<open>heap_free\<close> before coalescing is correct.
\<close>

lemma heap_geom_give_back:
  assumes "heap_geom lo hi bs (b # al)"
  shows "heap_geom lo hi (spec_insert b bs) al"
proof -
  obtain xs ys where sp: "bs = xs @ ys" "spec_insert b bs = xs @ b # ys"
    by (rule spec_insert_split)
  have sep: "\<forall>x \<in> set bs. separate x b" "sorted_wrt before bs"
    using assms by (auto simp: heap_geom_def sorted_wrt_append)
  have "sorted_wrt separate (spec_insert b bs @ al)"
    using assms unfolding sp(2) unfolding sp(1)
    by (auto simp: heap_geom_def sorted_wrt_append separate_sym)
  then show ?thesis using assms spec_insert_sorted [OF sep(2,1)] by (auto simp: heap_geom_def)
qed

lemma defrag_from_no_abut:
  "successively (\<lambda>x y. \<not> abuts x y) (lb # bs) \<Longrightarrow> defrag_from lb bs = lb # bs"
  by (induction lb bs rule: defrag_from.induct) (auto simp: abuts_def)

lemma spec_defrag_no_abut: "successively (\<lambda>x y. \<not> abuts x y) bs \<Longrightarrow> spec_defrag bs = bs"
  by (cases bs) (simp_all add: defrag_from_no_abut)

lemma length_defrag_from: "length (defrag_from lb bs) \<le> Suc (length bs)"
  by (induction lb bs rule: defrag_from.induct) auto

lemma defrag_from_subset: "set (map fst (defrag_from lb bs)) \<subseteq> set (map fst (lb # bs))"
  by (induction lb bs rule: defrag_from.induct) auto

text \<open>
  Coalescing accounts for four bytes too many at every merge: it adds \<open>sizeof(*b)\<close>, the 16
  bytes of the whole \<open>alloc_node_t\<close>, where the merged block gains the 12 bytes of a header.
\<close>

lemma defrag_from_footprint:
  assumes "unat (snd lb) + footprint bs + 4 * length bs < 4294967296"
  shows "footprint (defrag_from lb bs) + 4 * length (defrag_from lb bs)
           = footprint (lb # bs) + 4 * length (lb # bs)"
  using assms
proof (induction lb bs rule: defrag_from.induct)
  case (1 lb)
  then show ?case by simp
next
  case (2 lb b bs)
  show ?case
  proof (cases "fst lb + 12 + snd lb = fst b")
    case True
    have "unat (16 + snd b) = 16 + unat (snd b)" using "2.prems" by (simp add: unat_add_u32)
    then have "unat (snd lb + (16 + snd b)) = unat (snd lb) + 16 + unat (snd b)"
      using "2.prems" by (simp add: unat_add_u32)
    with 2 True show ?thesis by simp
  next
    case False
    with 2 show ?thesis by simp
  qed
qed

lemma spec_defrag_footprint:
  "footprint bs + 4 * length bs < 4294967296 \<Longrightarrow>
     footprint (spec_defrag bs) + 4 * length (spec_defrag bs) = footprint bs + 4 * length bs"
  using defrag_from_footprint by (cases bs) auto

end
