(* ===== verification/Heap_Code.thy ===== *)
theory Heap_Code
  imports Heap_Spec
begin

text \<open>
  The heap of \<open>src/kernel/heap.c\<close> on the byte memory. An \<open>alloc_node_t\<close> has its list node at
  offset 0, its \<open>size\<close> at offset 8 and its \<open>block\<close> member (where the memory handed to the
  user starts) at offset 12; \<open>sizeof(alloc_node_t)\<close> is 16. The address \<open>fl\<close> of the static
  \<open>free_list\<close> and the address of the static array \<open>heap\<close> are the linker's choice and are
  arguments. Loops are \<open>partial_function\<close>s: \<open>None\<close> is a loop that does not end.
\<close>

section \<open>The code\<close>

definition HEAP_SIZE :: u32 where
  "HEAP_SIZE = 4 * 1024 * 1024"

definition ALLOC_HEADER_SZ :: u32 where
  "ALLOC_HEADER_SZ = 12"

definition SIZEOF_ALLOC_NODE :: u32 where
  "SIZEOF_ALLOC_NODE = 16"

definition MIN_ALLOC_SZ :: u32 where
  "MIN_ALLOC_SZ = ALLOC_HEADER_SZ + 32"

definition align_up :: "u32 \<Rightarrow> u32 \<Rightarrow> u32" where
  "align_up num align = (num + (align - 1)) AND NOT (align - 1)"

definition node_block :: "u32 \<Rightarrow> u32" where
  "node_block blk = blk + ALLOC_HEADER_SZ"

definition node_size :: "mem \<Rightarrow> u32 \<Rightarrow> u32" where
  "node_size m blk = load32 m (blk + 8)"

definition set_node_size :: "mem \<Rightarrow> u32 \<Rightarrow> u32 \<Rightarrow> mem" where
  "set_node_size m blk v = store32 m (blk + 8) v"

text \<open>
  \<open>heap_defrag_free_list\<close>: the traversal \<open>list_for_each_entry_safe\<close> with the locals \<open>b\<close> and \<open>t\<close>, its body on
  the memory and the local \<open>lb\<close>. The node is the first member of \<open>alloc_node_t\<close>.
\<close>

definition defrag_body :: "u32 \<Rightarrow> mem \<times> u32 \<Rightarrow> mem \<times> u32" where
  "defrag_body b = (\<lambda>(m, lb).
     if lb \<noteq> 0 \<and> node_block lb + node_size m lb = b then
       (let m1 = set_node_size m lb (node_size m lb + (SIZEOF_ALLOC_NODE + node_size m b))
        in (list_del m1 b, lb))
     else (m, b))"

definition defrag_loop :: "u32 \<Rightarrow> mem \<Rightarrow> u32 \<Rightarrow> u32 \<Rightarrow> u32 \<Rightarrow> mem option" where
  "defrag_loop fl m lb b t = map_option fst (list_for_each_entry_safe defrag_body fl 0 b t (m, lb))"

lemma defrag_loop_step:
  "defrag_loop fl m lb b t =
     (if b = fl then Some m
      else if lb \<noteq> 0 \<and> node_block lb + node_size m lb = b then
        (let m1 = set_node_size m lb (node_size m lb + (SIZEOF_ALLOC_NODE + node_size m b));
             m2 = list_del m1 b
         in defrag_loop fl m2 lb t (list_next m2 t))
      else defrag_loop fl m b t (list_next m t))"
  unfolding defrag_loop_def
  by (subst list_for_each_entry_safe.simps) (simp add: defrag_body_def container_of_def Let_def)

definition heap_defrag_free_list :: "u32 \<Rightarrow> mem \<Rightarrow> mem option" where
  "heap_defrag_free_list fl m =
     (let b = list_next m fl; t = list_next m b in defrag_loop fl m 0 b t)"

definition heap_add_block :: "u32 \<Rightarrow> u32 \<Rightarrow> u32 \<Rightarrow> mem \<Rightarrow> mem" where
  "heap_add_block fl addr bytes m =
     (let blk = align_up addr 4;
          m1 = set_node_size m blk (addr + bytes - blk - ALLOC_HEADER_SZ)
      in list_add m1 blk fl)"

definition heap_init :: "u32 \<Rightarrow> u32 \<Rightarrow> mem \<Rightarrow> mem" where
  "heap_init fl heap m = heap_add_block fl heap HEAP_SIZE m"

text \<open>The search of \<open>heap_malloc\<close>: the values of \<open>(ptr, blk)\<close> when the loop is left.\<close>

partial_function (option) find_fit :: "u32 \<Rightarrow> mem \<Rightarrow> u32 \<Rightarrow> u32 \<Rightarrow> (u32 \<times> u32) option" where
  "find_fit fl m bytes blk =
     (if blk = fl then Some (0, blk)
      else if bytes \<le> node_size m blk then Some (node_block blk, blk)
      else find_fit fl m bytes (list_next m blk))"

definition heap_malloc :: "u32 \<Rightarrow> u32 \<Rightarrow> mem \<Rightarrow> (u32 \<times> mem) option" where
  "heap_malloc fl bytes m =
     (if 0 < bytes then
        (let sz = align_up bytes 4 in
         case find_fit fl m sz (list_next m fl) of
           None \<Rightarrow> None
         | Some (ptr, blk) \<Rightarrow>
             if ptr \<noteq> 0 then
               (let m1 = (if MIN_ALLOC_SZ \<le> node_size m blk - sz then
                            (let new_blk = node_block blk + sz;
                                 ma = set_node_size m new_blk (node_size m blk - sz - ALLOC_HEADER_SZ);
                                 mb = set_node_size ma blk sz
                             in list_insert mb new_blk blk (list_next mb blk))
                          else m)
                in Some (ptr, list_del m1 blk))
             else Some (ptr, m))
      else Some (0, m))"

text \<open>The search of \<open>heap_free\<close>: the free block to insert before, if there is one.\<close>

partial_function (option) find_place :: "u32 \<Rightarrow> mem \<Rightarrow> u32 \<Rightarrow> u32 \<Rightarrow> u32 option option" where
  "find_place fl m blk free_blk =
     (if free_blk = fl then Some None
      else if blk < free_blk then Some (Some free_blk)
      else find_place fl m blk (list_next m free_blk))"

definition heap_free :: "u32 \<Rightarrow> u32 \<Rightarrow> mem \<Rightarrow> mem option" where
  "heap_free fl ptr m =
     (if ptr \<noteq> 0 then
        (let blk = container_of ptr ALLOC_HEADER_SZ in
         case find_place fl m blk (list_next m fl) of
           None \<Rightarrow> None
         | Some (Some free_blk) \<Rightarrow>
             heap_defrag_free_list fl (list_insert m blk (list_prev m free_blk) free_blk)
         | Some None \<Rightarrow> heap_defrag_free_list fl (list_add_tail m blk fl))
      else Some m)"

text \<open>\<open>static LIST_INIT(free_list)\<close>: the ring is empty before the kernel starts.\<close>

definition free_list_static :: "u32 \<Rightarrow> mem \<Rightarrow> mem" where
  "free_list_static fl m = LIST_INIT fl m"

lemmas heap_consts = HEAP_SIZE_def ALLOC_HEADER_SZ_def SIZEOF_ALLOC_NODE_def MIN_ALLOC_SZ_def
  node_block_def container_of_def

section \<open>Alignment\<close>

lemma align_up_4: "align_up x 4 = push_bit 2 (drop_bit 2 (x + 3))"
proof -
  have m: "(4 - 1 :: u32) = mask 2" "(3 :: u32) = mask 2" by (simp_all add: mask_eq_exp_minus_1)
  show ?thesis
    unfolding align_up_def m
  proof (rule bit_word_eqI)
    fix n :: nat
    have "2 \<le> n \<Longrightarrow> 2 + (n - 2) = n" by simp
    then show "bit ((x + mask 2) AND NOT (mask 2)) n = bit (push_bit 2 (drop_bit 2 (x + mask 2))) n"
      if "n < LENGTH(32)"
      using that by (auto simp: bit_simps simp del: add_2_eq_Suc add_2_eq_Suc')
  qed
qed

lemma unat_align_up: "unat (align_up x 4) = (unat x + 3) mod 4294967296 div 4 * 4"
proof -
  have "unat (align_up x 4) = take_bit 32 (push_bit 2 (drop_bit 2 (unat (x + 3))))"
    unfolding align_up_4 unsigned_push_bit_eq unat_drop_bit_eq by simp
  also have "\<dots> = unat (x + 3) div 4 * 4 mod 4294967296"
    by (simp add: take_bit_eq_mod push_bit_eq_mult drop_bit_eq_div)
  also have "\<dots> = unat (x + 3) div 4 * 4"
    by (rule mod_less [OF le_less_trans [OF div_times_less_eq_dividend unat_u32_less]])
  finally show ?thesis by (simp add: unat_word_ariths)
qed

lemma align_up_aligned: "aligned4 (align_up x 4)" "4 dvd unat (align_up x 4)"
  by (simp_all add: aligned4_def unat_align_up)

lemma round_up_4: "n \<le> (n + 3) div 4 * 4" "(n + 3) div 4 * 4 < n + (4 :: nat)"
  by presburger+

lemma align_up_bounds:
  assumes "unat x \<le> 4294967292"
  shows "unat x \<le> unat (align_up x 4)" "unat (align_up x 4) < unat x + 4"
proof -
  have "(unat x + 3) mod 4294967296 = unat x + 3" using assms by simp
  then show "unat x \<le> unat (align_up x 4)" "unat (align_up x 4) < unat x + 4"
    unfolding unat_align_up using round_up_4 [of "unat x"] by simp_all
qed

lemma align_up_wraps:
  assumes "4294967292 < unat x"
  shows "align_up x 4 = 0"
proof -
  have "(unat x + 3) mod 4294967296 = (unat x + 3 - 4294967296) mod 4294967296"
    using assms by (intro le_mod_geq) simp
  also have "\<dots> \<le> unat x + 3 - 4294967296" by (rule mod_less_eq_dividend)
  also have "\<dots> < 4" using unat_u32_less [of x] by linarith
  finally have "(unat x + 3) mod 4294967296 < 4" .
  then have "unat (align_up x 4) = 0"
    unfolding unat_align_up by (simp add: div_less)
  then show ?thesis by (simp only: unsigned_eq_0_iff)
qed

end
