(* ===== verification/Heap_Refine.thy ===== *)
theory Heap_Refine
  imports Heap_Code
begin

text \<open>
  The code of \<open>heap.c\<close> refines the functions of \<open>Heap_Spec\<close>. \<open>heap_rep\<close> relates a memory to a
  free list: the ring of nodes, the size fields, and a list \<open>hs\<close> of all header addresses in
  play (free and allocated) whose 12 byte headers do not overlap. Each primitive store of the
  code has one lemma about \<open>heap_rep\<close>; the loops and the operations follow from these.
\<close>

section \<open>Headers\<close>

definition hdrs_ok :: "u32 \<Rightarrow> u32 list \<Rightarrow> bool" where
  "hdrs_ok fl hs \<longleftrightarrow> nodes_ok (fl # hs)
     \<and> (\<forall>a \<in> set hs. 0 < unat a \<and> unat a + 12 < 4294967296 \<and> apart fl 8 a 12)
     \<and> (\<forall>a \<in> set hs. \<forall>b \<in> set hs. a \<noteq> b \<longrightarrow> apart a 12 b 12)"

definition hdr_span :: "u32 \<Rightarrow> u32 list \<Rightarrow> u32 set" where
  "hdr_span fl hs = span fl 8 \<union> (\<Union>a \<in> set hs. span a 12)"

definition agree_outside :: "u32 set \<Rightarrow> mem \<Rightarrow> mem \<Rightarrow> bool" where
  "agree_outside S m m' \<longleftrightarrow> (\<forall>x. x \<notin> S \<longrightarrow> m' x = m x)"

definition heap_rep :: "u32 \<Rightarrow> mem \<Rightarrow> u32 list \<Rightarrow> block list \<Rightarrow> bool" where
  "heap_rep fl m hs bs \<longleftrightarrow> hdrs_ok fl hs \<and> set (map fst bs) \<subseteq> set hs
     \<and> dll m fl (map fst bs) \<and> (\<forall>b \<in> set bs. node_size m (fst b) = snd b)"

definition same_sizes :: "u32 list \<Rightarrow> mem \<Rightarrow> mem \<Rightarrow> bool" where
  "same_sizes hs m m' \<longleftrightarrow> (\<forall>y \<in> set hs. node_size m' y = node_size m y)"

lemma agree_outside_refl [simp]: "agree_outside S m m"
  by (simp add: agree_outside_def)

lemma agree_outside_trans: "agree_outside S m m' \<Longrightarrow> agree_outside S m' m'' \<Longrightarrow> agree_outside S m m''"
  by (simp add: agree_outside_def)

lemma agree_outside_mono: "agree_outside S m m' \<Longrightarrow> S \<subseteq> T \<Longrightarrow> agree_outside T m m'"
  by (auto simp: agree_outside_def)

lemma same_sizes_refl [simp]: "same_sizes hs m m"
  by (simp add: same_sizes_def)

lemma same_sizes_trans: "same_sizes hs m m' \<Longrightarrow> same_sizes hs m' m'' \<Longrightarrow> same_sizes hs m m''"
  by (simp add: same_sizes_def)

lemma hdrs_ok_nodes: "hdrs_ok fl hs \<Longrightarrow> nodes_ok (fl # hs)"
  by (simp add: hdrs_ok_def)

lemma hdr_offset8:
  assumes "hdrs_ok fl hs" "a \<in> set hs"
  shows "unat (a + 8) = unat a + 8" "aligned4 (a + 8)" "unat (a + 12) = unat a + 12"
    "a \<noteq> 0" "a + 12 \<noteq> 0" "a \<noteq> fl"
proof -
  have b: "0 < unat a" "unat a + 12 < 4294967296" "aligned4 a" "a \<noteq> fl"
    using assms by (auto simp: hdrs_ok_def nodes_ok_def node_ok_def)
  then show u: "unat (a + 8) = unat a + 8" "unat (a + 12) = unat a + 12" by (simp_all add: addr_simps)
  show "aligned4 (a + 8)" using b(3) u unfolding aligned4_def by presburger
  show "a \<noteq> 0" using b(1) by auto
  have "unat (a + 12) \<noteq> 0" using u by simp
  then show "a + 12 \<noteq> 0" by (metis unsigned_0)
  show "a \<noteq> fl" by (fact b)
qed

lemma size_span_nodes:
  assumes "hdrs_ok fl hs" "y \<in> set hs" "x \<in> span (y + 8) 4"
  shows "x \<notin> nodes_span (fl # hs)"
proof -
  have "unat y + 8 \<le> unat x" "unat x < unat y + 12"
    using assms(3) hdr_offset8 [OF assms(1,2)] by (simp_all add: span_def)
  moreover have "apart fl 8 y 12" "\<And>z. z \<in> set hs \<Longrightarrow> z \<noteq> y \<Longrightarrow> apart z 12 y 12"
    using assms(1,2) by (auto simp: hdrs_ok_def)
  ultimately show ?thesis by (auto simp: nodes_span_def span_def apart_def) fastforce+
qed

lemma nodes_span_mono: "set xs \<subseteq> set ys \<Longrightarrow> nodes_span xs \<subseteq> nodes_span ys"
  by (auto simp: nodes_span_def)

lemma nodes_span_hdr_span: "nodes_span (fl # hs) \<subseteq> hdr_span fl hs"
  by (auto simp: nodes_span_def hdr_span_def span_def)

lemma node_size_cong:
  "hdrs_ok fl hs \<Longrightarrow> y \<in> set hs \<Longrightarrow> agree_outside (nodes_span (fl # hs)) m m' \<Longrightarrow> node_size m' y = node_size m y"
  unfolding node_size_def
  by (intro load32_cong) (auto simp: hdr_offset8 agree_outside_def dest: size_span_nodes)

lemma same_sizes_nodes:
  "hdrs_ok fl hs \<Longrightarrow> agree_outside (nodes_span (fl # hs)) m m' \<Longrightarrow> same_sizes hs m m'"
  by (simp add: same_sizes_def node_size_cong)

lemma sizes_transfer:
  assumes "same_sizes hs m m'" "set (map fst bs) \<subseteq> set hs" "\<forall>b \<in> set bs. node_size m (fst b) = snd b"
  shows "\<forall>b \<in> set bs. node_size m' (fst b) = snd b"
  using assms unfolding same_sizes_def by force

section \<open>One lemma per primitive\<close>

lemma rep_insert:
  assumes "heap_rep fl m hs (xs @ ys)" "a \<in> set hs" "a \<notin> fst ` set (xs @ ys)" "node_size m a = s"
    and "p = last (fl # map fst xs)" "q = hd (map fst ys @ [fl])"
    and m': "m' = list_insert m a p q"
  shows "heap_rep fl m' hs (xs @ (a, s) # ys)" "same_sizes hs m m'"
    "agree_outside (hdr_span fl hs) m m'"
proof -
  have ok: "hdrs_ok fl hs" and sub: "set (map fst (xs @ ys)) \<subseteq> set hs"
    and dl: "dll m fl (map fst xs @ map fst ys)"
    using assms(1) by (simp_all add: heap_rep_def)
  let ?ns = "fl # map fst xs @ a # map fst ys"
  have afl: "a \<noteq> fl" using hdr_offset8 [OF ok assms(2)] by simp
  have dist: "distinct ?ns"
    using dl assms(3) afl by (auto simp: dll_def nodes_ok_def)
  have n_ok: "nodes_ok ?ns"
    by (rule nodes_ok_subset [OF hdrs_ok_nodes [OF ok] _ dist]) (use sub assms(2) in auto)
  have "p \<in> set (fl # map fst xs)" "q \<in> set (fl # map fst ys)"
    unfolding assms(5,6) by (rule last_in_ring hd_in_ring)+
  then have "p \<in> set ?ns" "q \<in> set ?ns" by auto
  then have "agree_outside (nodes_span ?ns) m m'"
    unfolding agree_outside_def m' using n_ok by (intro allI impI list_insert_outside) auto
  then have ag: "agree_outside (nodes_span (fl # hs)) m m'"
    by (rule agree_outside_mono) (rule nodes_span_mono, use sub assms(2) in auto)
  then show same: "same_sizes hs m m'" using ok by (intro same_sizes_nodes)
  show "agree_outside (hdr_span fl hs) m m'"
    using ag nodes_span_hdr_span by (rule agree_outside_mono)
  have "dll m' fl (map fst (xs @ (a, s) # ys))"
    using list_insert_dll [OF dl n_ok assms(5,6)] by (simp add: m')
  moreover have "\<forall>b \<in> set (xs @ (a, s) # ys). node_size m' (fst b) = snd b"
    by (rule sizes_transfer [OF same]) (use assms(1,2,4) in \<open>auto simp: heap_rep_def\<close>)
  ultimately show "heap_rep fl m' hs (xs @ (a, s) # ys)"
    using ok sub assms(2) by (simp add: heap_rep_def)
qed

lemma rep_del:
  assumes "heap_rep fl m hs (xs @ b # ys)" and m': "m' = list_del m (fst b)"
  shows "heap_rep fl m' hs (xs @ ys)" "same_sizes hs m m'" "agree_outside (hdr_span fl hs) m m'"
proof -
  have ok: "hdrs_ok fl hs" and sub: "set (map fst (xs @ b # ys)) \<subseteq> set hs"
    and dl: "dll m fl (map fst xs @ fst b # map fst ys)"
    using assms(1) by (simp_all add: heap_rep_def)
  have "agree_outside (nodes_span (fl # map fst xs @ fst b # map fst ys)) m m'"
    unfolding agree_outside_def m' using list_del_outside [OF dl] by blast
  then have ag: "agree_outside (nodes_span (fl # hs)) m m'"
    by (rule agree_outside_mono) (rule nodes_span_mono, use sub in auto)
  then show same: "same_sizes hs m m'" using ok by (intro same_sizes_nodes)
  show "agree_outside (hdr_span fl hs) m m'"
    using ag nodes_span_hdr_span by (rule agree_outside_mono)
  have "dll m' fl (map fst (xs @ ys))" using list_del_dll [OF dl] by (simp add: m')
  moreover have "\<forall>b \<in> set (xs @ ys). node_size m' (fst b) = snd b"
    by (rule sizes_transfer [OF same]) (use assms(1) in \<open>auto simp: heap_rep_def\<close>)
  ultimately show "heap_rep fl m' hs (xs @ ys)"
    using ok sub by (simp add: heap_rep_def)
qed

lemma set_size_effect:
  assumes "hdrs_ok fl hs" "a \<in> set hs" and m': "m' = set_node_size m a v"
  shows "\<And>y. y \<in> set hs \<Longrightarrow> node_size m' y = (if y = a then v else node_size m y)"
    "agree_outside (hdr_span fl hs) m m'"
    "\<And>ns. set ns \<subseteq> set hs \<Longrightarrow> dll m fl ns \<Longrightarrow> dll m' fl ns"
proof -
  note o = hdr_offset8 [OF assms(1)]
  have out: "x \<notin> span (a + 8) 4 \<Longrightarrow> m' x = m x" for x
    unfolding m' set_node_size_def using o [OF assms(2)] by (intro store32_outside)
  show "node_size m' y = (if y = a then v else node_size m y)" if "y \<in> set hs" for y
    unfolding m' set_node_size_def node_size_def using o [OF assms(2)] o [OF that]
    by (simp add: load32_store32)
  have "span (a + 8) 4 \<subseteq> hdr_span fl hs"
    using o [OF assms(2)] assms(2) by (auto simp: span_def hdr_span_def)
  then show "agree_outside (hdr_span fl hs) m m'" using out by (auto simp: agree_outside_def)
  show "dll m' fl ns" if "set ns \<subseteq> set hs" "dll m fl ns" for ns
  proof (rule dll_cong [OF _ that(2)])
    fix x assume "x \<in> nodes_span (fl # ns)"
    then have "x \<in> nodes_span (fl # hs)" using nodes_span_mono [of "fl # ns" "fl # hs"] that(1) by auto
    then show "m' x = m x" using size_span_nodes [OF assms(1,2)] out by blast
  qed
qed

lemma rep_set_size_other:
  assumes "heap_rep fl m hs bs" "a \<in> set hs" "a \<notin> fst ` set bs" and m': "m' = set_node_size m a v"
  shows "heap_rep fl m' hs bs"
  using assms set_size_effect [OF _ assms(2) m', of fl]
  by (auto simp: heap_rep_def image_subset_iff)

lemma rep_set_size_free:
  assumes "heap_rep fl m hs (xs @ (a, s) # ys)" and m': "m' = set_node_size m a v"
  shows "heap_rep fl m' hs (xs @ (a, v) # ys)"
proof -
  have ok: "hdrs_ok fl hs" "a \<in> set hs" "set (map fst (xs @ (a, v) # ys)) \<subseteq> set hs"
    and dl: "dll m fl (map fst (xs @ (a, v) # ys))"
    and d: "a \<notin> fst ` set (xs @ ys)" and sz: "\<forall>b \<in> set (xs @ ys). node_size m (fst b) = snd b"
    using assms(1) by (auto simp: heap_rep_def dll_def nodes_ok_def)
  note e = set_size_effect [OF ok(1,2) m']
  have "node_size m' (fst b) = snd b" if "b \<in> set (xs @ ys)" for b
  proof -
    have "fst b \<in> set hs" "fst b \<noteq> a" using that ok(3) d by auto
    with e(1) sz that show ?thesis by simp
  qed
  moreover have "dll m' fl (map fst (xs @ (a, v) # ys))" by (rule e(3) [OF ok(3) dl])
  ultimately show ?thesis
    using ok e(1) unfolding heap_rep_def by auto
qed

section \<open>The heap invariant\<close>

definition head_outside :: "u32 \<Rightarrow> nat \<Rightarrow> nat \<Rightarrow> bool" where
  "head_outside fl lo hi \<longleftrightarrow> node_ok fl \<and> (unat fl + 8 \<le> lo \<or> hi \<le> unat fl)"

definition heap_inv :: "u32 \<Rightarrow> nat \<Rightarrow> nat \<Rightarrow> mem \<Rightarrow> block list \<Rightarrow> block list \<Rightarrow> bool" where
  "heap_inv fl lo hi m bs al \<longleftrightarrow> heap_geom lo hi bs al \<and> head_outside fl lo hi
     \<and> dll m fl (map fst bs) \<and> (\<forall>b \<in> set (bs @ al). node_size m (fst b) = snd b)"

definition free_bytes :: "u32 \<Rightarrow> block list \<Rightarrow> u32 set" where
  "free_bytes fl bs = span fl 8 \<union> (\<Union>b \<in> set bs. extent b)"

lemma sorted_wrt_separate_pair:
  "sorted_wrt separate xs \<Longrightarrow> x \<in> set xs \<Longrightarrow> y \<in> set xs \<Longrightarrow> x \<noteq> y \<Longrightarrow> separate x y"
  by (erule sorted_wrt_pair) (auto simp: separate_sym)

lemma separate_apart:
  "separate x y \<Longrightarrow> fst x \<noteq> fst y \<and> apart (fst x) 12 (fst y) 12 \<and> apart (fst x) 8 (fst y) 8"
  by (auto simp: separate_def before_def block_end_def apart_def)

lemma sorted_wrt_separate_distinct: "sorted_wrt separate xs \<Longrightarrow> distinct (map fst xs)"
  by (induction xs) (auto dest: separate_apart)

lemma geom_block:
  assumes "heap_geom lo hi bs al" "b \<in> set (bs @ al)"
  shows "aligned4 (fst b)" "lo \<le> unat (fst b)" "unat (fst b) + 12 + unat (snd b) \<le> hi"
    "hi < 4294967296" "0 < lo"
  using assms by (auto simp: heap_geom_def block_ok_def block_end_def)

lemma geom_hdrs:
  assumes "heap_geom lo hi bs al" "head_outside fl lo hi"
  shows "hdrs_ok fl (map fst (bs @ al))"
proof -
  let ?bs = "bs @ al"
  have sep: "separate x y" if "x \<in> set ?bs" "y \<in> set ?bs" "fst x \<noteq> fst y" for x y
    using assms(1) that sorted_wrt_separate_pair [of ?bs x y] by (auto simp: heap_geom_def)
  have fl: "node_ok fl" "unat fl + 8 \<le> lo \<or> hi \<le> unat fl" using assms(2) by (simp_all add: head_outside_def)
  have blk: "node_ok (fst b) \<and> 0 < unat (fst b) \<and> unat (fst b) + 12 < 4294967296
     \<and> apart fl 8 (fst b) 12 \<and> apart fl 8 (fst b) 8 \<and> apart (fst b) 8 fl 8 \<and> fst b \<noteq> fl"
    if "b \<in> set ?bs" for b
    using geom_block [OF assms(1) that] fl by (auto simp: node_ok_def apart_def)
  have "distinct (map fst ?bs)"
    using assms(1) by (intro sorted_wrt_separate_distinct) (simp add: heap_geom_def)
  moreover have "\<forall>x \<in> set ?bs. \<forall>y \<in> set ?bs. fst x \<noteq> fst y \<longrightarrow>
      apart (fst x) 12 (fst y) 12 \<and> apart (fst x) 8 (fst y) 8"
    using sep separate_apart by blast
  ultimately show ?thesis
    unfolding hdrs_ok_def nodes_ok_def using blk fl(1)
    by (auto simp del: set_append map_append)
qed

lemma hdrs_ok_subset:
  assumes "hdrs_ok fl hs" "set ks \<subseteq> set hs" "distinct ks"
  shows "hdrs_ok fl ks"
proof -
  have "nodes_ok (fl # ks)"
    by (rule nodes_ok_subset [OF hdrs_ok_nodes [OF assms(1)]])
      (use assms in \<open>auto simp: hdrs_ok_def nodes_ok_def\<close>)
  with assms show ?thesis unfolding hdrs_ok_def by blast
qed

lemma heap_inv_rep:
  assumes "heap_inv fl lo hi m bs al"
  shows "heap_rep fl m (map fst (bs @ al)) bs" "heap_rep fl m (map fst bs) bs"
proof -
  have h: "hdrs_ok fl (map fst (bs @ al))"
    using assms by (intro geom_hdrs) (auto simp: heap_inv_def)
  then show "heap_rep fl m (map fst (bs @ al)) bs"
    using assms by (auto simp: heap_inv_def heap_rep_def)
  have "hdrs_ok fl (map fst bs)"
    by (rule hdrs_ok_subset [OF h]) (use h in \<open>auto simp: hdrs_ok_def nodes_ok_def\<close>)
  then show "heap_rep fl m (map fst bs) bs"
    using assms by (auto simp: heap_inv_def heap_rep_def)
qed

lemma heap_rep_mono:
  "heap_rep fl m ks bs \<Longrightarrow> hdrs_ok fl hs \<Longrightarrow> set (map fst bs) \<subseteq> set hs \<Longrightarrow> heap_rep fl m hs bs"
  by (simp add: heap_rep_def)

text \<open>
  The allocated blocks are not touched by changes to the free memory, and the heap is not
  touched by changes to the contents of allocated blocks.
\<close>

lemma free_bytes_apart:
  assumes "heap_geom lo hi bs al" "head_outside fl lo hi" "c \<in> set al"
  shows "extent c \<inter> free_bytes fl bs = {}"
proof -
  have "separate b c" if "b \<in> set bs" for b
    using assms(1,3) that by (auto simp: heap_geom_def sorted_wrt_append)
  moreover have "extent c \<inter> span fl 8 = {}"
    using geom_block [OF assms(1), of c] assms(2,3)
    by (auto simp: head_outside_def extent_def span_def)
  ultimately show ?thesis using separate_extents [of _ c] unfolding free_bytes_def by blast
qed

lemma size_in_extent:
  assumes "aligned4 (fst b)" "unat (fst b) + 12 + unat (snd b) \<le> hi" "hi < 4294967296"
    "\<And>x. x \<in> extent b \<Longrightarrow> m' x = m x"
  shows "node_size m' (fst b) = node_size m (fst b)"
proof -
  have u: "unat (fst b + 8) = unat (fst b) + 8" using assms(2,3) by (simp add: addr_simps)
  then have "aligned4 (fst b + 8)" using assms(1) unfolding aligned4_def by presburger
  moreover have "span (fst b + 8) 4 \<subseteq> extent b" using u by (auto simp: span_def extent_def)
  ultimately show ?thesis unfolding node_size_def using assms(4) by (intro load32_cong) auto
qed

lemma alloc_sizes_kept:
  assumes "heap_geom lo hi bs al" "head_outside fl lo hi" "agree_outside (free_bytes fl bs) m m'"
    "c \<in> set al"
  shows "node_size m' (fst c) = node_size m (fst c)"
proof (rule size_in_extent)
  show "aligned4 (fst c)" "unat (fst c) + 12 + unat (snd c) \<le> hi" "hi < 4294967296"
    using geom_block [OF assms(1), of c] assms(4) by auto
  fix x assume "x \<in> extent c"
  then have "x \<notin> free_bytes fl bs" using free_bytes_apart [OF assms(1,2,4)] by blast
  then show "m' x = m x" using assms(3) by (simp add: agree_outside_def)
qed

section \<open>Allocation\<close>

lemma linked_next:
  "linked m (a # xs @ [h]) \<Longrightarrow> list_next m a = hd (xs @ [h]) \<and> linked m (xs @ [h])"
  by (cases xs) auto

lemma find_fit_suffix:
  assumes "linked m (map fst bs @ [fl])" "fl \<notin> fst ` set bs" "\<forall>b \<in> set bs. node_size m (fst b) = snd b"
  shows "find_fit fl m sz (hd (map fst bs @ [fl])) =
     Some (case find (\<lambda>b. sz \<le> snd b) bs of None \<Rightarrow> (0, fl) | Some b \<Rightarrow> (node_block (fst b), fst b))"
  using assms
proof (induction bs)
  case Nil
  then show ?case by (simp add: find_fit.simps)
next
  case (Cons b bs)
  then have "linked m (fst b # map fst bs @ [fl])" by simp
  moreover have "fst b \<noteq> fl" using Cons.prems(2) by auto
  ultimately show ?case using linked_next [of m "fst b" "map fst bs" fl] Cons
    by (simp add: find_fit.simps [of fl m sz "fst b"])
qed

lemma heap_rep_start:
  assumes "heap_rep fl m hs bs"
  shows "list_next m fl = hd (map fst bs @ [fl])" "linked m (map fst bs @ [fl])"
    "fl \<notin> fst ` set bs" "\<forall>b \<in> set bs. node_size m (fst b) = snd b" "distinct (map fst bs)"
proof -
  have "linked m (fl # map fst bs @ [fl])" using assms by (simp add: heap_rep_def dll_def)
  from linked_next [OF this] show "list_next m fl = hd (map fst bs @ [fl])" "linked m (map fst bs @ [fl])"
    by simp_all
  show "fl \<notin> fst ` set bs" "\<forall>b \<in> set bs. node_size m (fst b) = snd b" "distinct (map fst bs)"
    using assms by (auto simp: heap_rep_def dll_def nodes_ok_def)
qed

lemma find_fit_rep:
  "heap_rep fl m hs bs \<Longrightarrow> find_fit fl m sz (list_next m fl) =
     Some (case find (\<lambda>b. sz \<le> snd b) bs of None \<Rightarrow> (0, fl) | Some b \<Rightarrow> (node_block (fst b), fst b))"
  using heap_rep_start [of fl m hs bs] by (simp add: find_fit_suffix)

lemma malloc_found:
  assumes "heap_rep fl m hs (xs @ (a, s) # ys)" "find (\<lambda>b. sz \<le> snd b) (xs @ (a, s) # ys) = Some (a, s)"
    "0 < bytes" "sz = align_up bytes 4"
  shows "heap_malloc fl bytes m = Some (a + 12,
     list_del (if 44 \<le> s - sz then
        let new = a + 12 + sz; ma = set_node_size m new (s - sz - 12); mb = set_node_size ma a sz
        in list_insert mb new a (list_next mb a) else m) a)"
proof -
  have "a \<in> set hs" "hdrs_ok fl hs" "node_size m a = s" using assms(1) by (auto simp: heap_rep_def)
  then show ?thesis
    using hdr_offset8 [of fl hs a] find_fit_rep [OF assms(1), of sz] assms(2-4)
    by (simp add: heap_malloc_def heap_consts Let_def)
qed

lemma malloc_split_rep:
  assumes rep: "heap_rep fl m hs (xs @ (a, s) # ys)" and new: "new \<in> set hs"
    "new \<notin> fst ` set (xs @ (a, s) # ys)"
    and m': "m' = (let ma = set_node_size m new n; mb = set_node_size ma a sz
                   in list_insert mb new a (list_next mb a))"
  shows "heap_rep fl (list_del m' a) hs (xs @ (new, n) # ys)"
    "node_size (list_del m' a) a = sz"
    "agree_outside (hdr_span fl hs) m (list_del m' a)"
proof -
  define ma mb where "ma = set_node_size m new n" and "mb = set_node_size ma a sz"
  have ok: "hdrs_ok fl hs" "a \<in> set hs" using rep by (auto simp: heap_rep_def)
  have na: "new \<noteq> a" using new(2) by auto
  have a: "heap_rep fl ma hs (xs @ (a, s) # ys)" unfolding ma_def
    by (rule rep_set_size_other [OF rep new refl])
  have b: "heap_rep fl mb hs ((xs @ [(a, sz)]) @ ys)"
    using rep_set_size_free [OF a mb_def] by simp
  note ea = set_size_effect [OF ok(1) new(1) ma_def] and eb = set_size_effect [OF ok mb_def]
  have szs: "node_size mb new = n" "node_size mb a = sz"
    using eb(1) ea(1) new(1) ok(2) na by simp_all
  have "dll mb fl (map fst xs @ a # map fst ys)" using b by (simp add: heap_rep_def)
  then have nx: "list_next mb a = hd (map fst ys @ [fl])" by (rule dll_neighbours)
  have m'': "m' = list_insert mb new a (list_next mb a)"
    by (simp add: m' ma_def mb_def Let_def)
  have c: "heap_rep fl m' hs ((xs @ [(a, sz)]) @ (new, n) # ys)" "same_sizes hs mb m'"
    "agree_outside (hdr_span fl hs) mb m'"
    using rep_insert [OF b new(1) _ szs(1) _ nx m''] new(2) by auto
  have d: "heap_rep fl (list_del m' a) hs (xs @ (new, n) # ys)" "same_sizes hs m' (list_del m' a)"
    "agree_outside (hdr_span fl hs) m' (list_del m' a)"
    using rep_del [of fl m' hs xs "(a, sz)" "(new, n) # ys"] c(1) by simp_all
  show "heap_rep fl (list_del m' a) hs (xs @ (new, n) # ys)" by (rule d(1))
  show "node_size (list_del m' a) a = sz"
    using same_sizes_trans [OF c(2) d(2)] ok(2) szs(2) by (simp add: same_sizes_def)
  show "agree_outside (hdr_span fl hs) m (list_del m' a)"
    using ea(2) eb(2) c(3) d(3) by (blast intro: agree_outside_trans)
qed

lemma hdr_span_free_bytes:
  assumes "\<And>h. h \<in> set hs \<Longrightarrow> \<exists>b \<in> set bs. unat (fst b) \<le> unat h \<and> unat h + 12 \<le> block_end b"
  shows "hdr_span fl hs \<subseteq> free_bytes fl bs"
proof
  fix x assume "x \<in> hdr_span fl hs"
  then consider "x \<in> span fl 8" | h where "h \<in> set hs" "x \<in> span h 12" by (auto simp: hdr_span_def)
  then show "x \<in> free_bytes fl bs"
  proof cases
    case 2
    with assms obtain b where "b \<in> set bs" "unat (fst b) \<le> unat h" "unat h + 12 \<le> block_end b" by blast
    with 2 have "x \<in> extent b" "b \<in> set bs" by (auto simp: extent_def span_def block_end_def)
    then show ?thesis by (auto simp: free_bytes_def)
  qed (simp add: free_bytes_def)
qed

lemma heap_inv_intro:
  assumes "heap_geom lo hi bs al" "head_outside fl lo hi" "agree_outside (free_bytes fl bs) m m'"
    "heap_inv fl lo hi m bs al"
    "heap_geom lo hi bs' (b # al)" "heap_rep fl m' hs bs'" "node_size m' (fst b) = snd b"
  shows "heap_inv fl lo hi m' bs' (b # al)"
proof -
  have "node_size m' (fst c) = snd c" if "c \<in> set al" for c
    using alloc_sizes_kept [OF assms(1-3) that] assms(4) that by (simp add: heap_inv_def)
  with assms show ?thesis by (auto simp: heap_inv_def heap_rep_def)
qed

lemma hdrs_ok_front:
  assumes "hdrs_ok fl (map fst (bs @ b # al))"
  shows "hdrs_ok fl (map fst (bs @ [b]))"
  by (rule hdrs_ok_subset [OF assms]) (use assms in \<open>auto simp: hdrs_ok_def nodes_ok_def\<close>)

lemma malloc_whole_post:
  assumes rep: "heap_rep fl m ks (xs @ (a, s) # ys)" and h: "hdrs_ok fl (map fst ((xs @ ys) @ [(a, s)]))"
  shows "heap_rep fl (list_del m a) (map fst ((xs @ ys) @ [(a, s)])) (xs @ ys)"
    "node_size (list_del m a) a = s"
    "agree_outside (free_bytes fl (xs @ (a, s) # ys)) m (list_del m a)"
proof -
  have rep': "heap_rep fl m (map fst ((xs @ ys) @ [(a, s)])) (xs @ (a, s) # ys)"
    by (rule heap_rep_mono [OF rep h]) auto
  note d = rep_del [OF rep' refl]
  from d(1) show "heap_rep fl (list_del m a) (map fst ((xs @ ys) @ [(a, s)])) (xs @ ys)" by simp
  show "node_size (list_del m a) a = s" using d(2) rep by (simp add: same_sizes_def heap_rep_def)
  have "hdr_span fl (map fst ((xs @ ys) @ [(a, s)])) \<subseteq> free_bytes fl (xs @ (a, s) # ys)"
    by (rule hdr_span_free_bytes) (auto simp: block_end_def)
  with d(3) show "agree_outside (free_bytes fl (xs @ (a, s) # ys)) m (list_del m a)"
    by (auto intro: agree_outside_mono)
qed

lemma malloc_split_post:
  assumes rep: "heap_rep fl m ks (xs @ (a, s) # ys)" and new: "new = a + 12 + sz"
    and hs: "hs = map fst ((xs @ (new, n) # ys) @ [(a, sz)])" and h: "hdrs_ok fl hs"
    and sp: "unat new = unat a + 12 + unat sz" "unat sz + 44 \<le> unat s"
    and m': "m' = (let ma = set_node_size m new n; mb = set_node_size ma a sz
                   in list_insert mb new a (list_next mb a))"
  shows "heap_rep fl (list_del m' a) hs (xs @ (new, n) # ys)"
    "node_size (list_del m' a) a = sz"
    "agree_outside (free_bytes fl (xs @ (a, s) # ys)) m (list_del m' a)"
proof -
  have rep': "heap_rep fl m hs (xs @ (a, s) # ys)" by (rule heap_rep_mono [OF rep h]) (auto simp: hs)
  have nw: "new \<in> set hs" "new \<notin> fst ` set (xs @ (a, s) # ys)"
    using h by (auto simp: hs hdrs_ok_def nodes_ok_def)
  note d = malloc_split_rep [OF rep' nw m']
  show "heap_rep fl (list_del m' a) hs (xs @ (new, n) # ys)" "node_size (list_del m' a) a = sz"
    by (fact d)+
  have "hdr_span fl hs \<subseteq> free_bytes fl (xs @ (a, s) # ys)"
  proof (rule hdr_span_free_bytes)
    fix x assume "x \<in> set hs"
    then consider "x = new \<or> x = a" | c where "c \<in> set (xs @ ys)" "x = fst c" by (auto simp: hs)
    then show "\<exists>b \<in> set (xs @ (a, s) # ys). unat (fst b) \<le> unat x \<and> unat x + 12 \<le> block_end b"
    proof cases
      case 1
      with sp show ?thesis by (intro bexI [of _ "(a, s)"]) (auto simp: block_end_def)
    next
      case 2
      then show ?thesis by (intro bexI [of _ c]) (auto simp: block_end_def)
    qed
  qed
  with d(3) show "agree_outside (free_bytes fl (xs @ (a, s) # ys)) m (list_del m' a)"
    by (rule agree_outside_mono)
qed

text \<open>
  The code of \<open>heap_malloc\<close> ends, and refines \<open>spec_malloc\<close>: with no block large enough it
  returns a null pointer and leaves the memory as it was; otherwise it returns the \<open>block\<close>
  member of the first block that fits, keeps the heap invariant and writes only to the head
  of the free list and to free memory.
\<close>

lemma heap_malloc_none:
  assumes "heap_inv fl lo hi m bs al" "0 < bytes" "spec_malloc (align_up bytes 4) bs = None"
  shows "heap_malloc fl bytes m = Some (0, m)"
proof -
  have "find (\<lambda>b. align_up bytes 4 \<le> snd b) bs = None"
    using assms(3) by (auto simp: spec_malloc_None find_None_iff)
  then show ?thesis
    using find_fit_rep [OF heap_inv_rep(2) [OF assms(1)]] assms(2) by (simp add: heap_malloc_def)
qed

lemma heap_malloc_some:
  assumes inv: "heap_inv fl lo hi m bs al" and pos: "0 < bytes"
    and r: "spec_malloc (align_up bytes 4) bs = Some (b, bs')"
  shows "\<exists>m'. heap_malloc fl bytes m = Some (fst b + 12, m')
       \<and> heap_inv fl lo hi m' bs' (b # al) \<and> agree_outside (free_bytes fl bs) m m'"
proof -
  define sz where "sz = align_up bytes 4"
  obtain xs a s ys where bs: "bs = xs @ (a, s) # ys" and le: "sz \<le> s"
    and fnd: "find (\<lambda>x. sz \<le> snd x) bs = Some (a, s)"
    and res: "(b, bs') = (if 44 \<le> s - sz then ((a, sz), xs @ (a + 12 + sz, s - sz - 12) # ys)
                          else ((a, s), xs @ ys))"
    by (rule spec_malloc_split [OF r [folded sz_def]])
  have geom: "heap_geom lo hi bs al" and ho: "head_outside fl lo hi" using inv by (simp_all add: heap_inv_def)
  have geom': "heap_geom lo hi bs' (b # al)"
    by (rule spec_malloc_geom [OF geom r]) (simp add: align_up_aligned)
  note rep = heap_inv_rep(2) [OF inv, unfolded bs]
  note code = malloc_found [OF rep fnd [unfolded bs] pos sz_def]
  note h = hdrs_ok_front [OF geom_hdrs [OF geom' ho]]
  have as: "unat a + 12 + unat s < 4294967296" using geom_block [OF geom, of "(a, s)"] bs by auto
  obtain m' where "heap_malloc fl bytes m = Some (fst b + 12, m')"
      "heap_rep fl m' (map fst (bs' @ [b])) bs'" "node_size m' (fst b) = snd b"
      "agree_outside (free_bytes fl bs) m m'"
  proof (cases "44 \<le> s - sz")
    case False
    then have eq: "b = (a, s)" "bs' = xs @ ys" using res by auto
    from that [of "list_del m a"] malloc_whole_post [OF rep h [unfolded eq]] code False
    show ?thesis by (simp add: eq bs)
  next
    case True
    then have eq: "b = (a, sz)" "bs' = xs @ (a + 12 + sz, s - sz - 12) # ys" using res by auto
    note sp = split_block [OF le True as]
    define m' where "m' = (let ma = set_node_size m (a + 12 + sz) (s - sz - 12);
      mb = set_node_size ma a sz in list_insert mb (a + 12 + sz) a (list_next mb a))"
    have "heap_malloc fl bytes m = Some (a + 12, list_del m' a)"
      using code True by (simp add: m'_def Let_def)
    with malloc_split_post [OF rep refl refl h [unfolded eq] sp(1,3) m'_def] show ?thesis
      by (intro that [of "list_del m' a"]) (simp_all add: eq bs)
  qed
  with heap_inv_intro [OF geom ho _ inv geom'] show ?thesis by blast
qed

end
