(* ===== verification/Heap_Free.thy ===== *)
theory Heap_Free
  imports Heap_Refine
begin

text \<open>
  \<open>heap_free\<close>, \<open>heap_defrag_free_list\<close> and \<open>heap_init\<close> refine the functions of \<open>Heap_Spec\<close>; the
  interface \<open>allocator\<close> through which the rest of the kernel uses the heap.
\<close>

section \<open>Insertion into the free list\<close>

lemma find_place_suffix:
  assumes "linked m (map fst bs @ [fl])" "fl \<notin> fst ` set bs"
  shows "find_place fl m a (hd (map fst bs @ [fl])) =
     Some (map_option fst (find (\<lambda>b. a < fst b) bs))"
  using assms
proof (induction bs)
  case Nil
  then show ?case by (simp add: find_place.simps)
next
  case (Cons b bs)
  then have "linked m (fst b # map fst bs @ [fl])" by simp
  moreover have "fst b \<noteq> fl" using Cons.prems(2) by auto
  ultimately show ?case using linked_next [of m "fst b" "map fst bs" fl] Cons
    by (simp add: find_place.simps [of fl m a "fst b"])
qed

lemma find_split_append:
  "\<forall>x \<in> set xs. \<not> P x \<Longrightarrow> (ys \<noteq> [] \<longrightarrow> P (hd ys)) \<Longrightarrow>
     find P (xs @ ys) = (if ys = [] then None else Some (hd ys))"
proof (induction xs)
  case Nil
  then show ?case by (cases ys) auto
qed auto

text \<open>Both branches of the insertion of \<open>heap_free\<close> are the same \<open>list_insert\<close>.\<close>

lemma free_insert_code:
  assumes "heap_rep fl m hs bs" "a + 12 \<noteq> 0" "bs = xs @ ys"
    "\<forall>x \<in> set xs. \<not> a < fst x" "ys \<noteq> [] \<longrightarrow> a < fst (hd ys)"
  shows "heap_free fl (a + 12) m = heap_defrag_free_list fl
           (list_insert m a (last (fl # map fst xs)) (hd (map fst ys @ [fl])))"
proof -
  note st = heap_rep_start [OF assms(1)]
  have dl: "dll m fl (map fst xs @ map fst ys)" using assms(1,3) by (simp add: heap_rep_def)
  have fp: "find_place fl m a (list_next m fl) = Some (map_option fst (if ys = [] then None else Some (hd ys)))"
    using find_place_suffix [OF st(2,3), of a] find_split_append [of xs "\<lambda>b. a < fst b" ys] assms(3-5) st(1)
    by simp
  show ?thesis
  proof (cases ys)
    case Nil
    have "list_prev m fl = last (fl # map fst xs)" using dll_last [of m fl "map fst xs"] dl Nil by simp
    then show ?thesis
      using fp assms(2) Nil by (simp add: heap_free_def heap_consts list_add_tail_def)
  next
    case (Cons y zs)
    have "list_prev m (fst y) = last (fl # map fst xs)"
      using dll_neighbours(1) [of m fl "map fst xs" "fst y" "map fst zs"] dl Cons by simp
    then show ?thesis
      using fp assms(2) Cons by (simp add: heap_free_def heap_consts)
  qed
qed

section \<open>Coalescing\<close>

lemma defrag_loop_rep:
  assumes "heap_rep fl m hs (don @ lb # rest)" "b = hd (map fst rest @ [fl])" "t = list_next m b"
  shows "\<exists>m'. defrag_loop fl m (fst lb) b t = Some m' \<and> heap_rep fl m' hs (don @ defrag_from lb rest)
     \<and> agree_outside (hdr_span fl hs) m m'"
  using assms
proof (induction rest arbitrary: m don lb b t)
  case Nil
  then show ?case by (simp add: defrag_loop_step)
next
  case (Cons c rest)
  have ok: "hdrs_ok fl hs" "fst lb \<in> set hs" "fst c \<in> set hs" "node_size m (fst lb) = snd lb"
    "node_size m (fst c) = snd c" and dl: "dll m fl (map fst (don @ [lb]) @ fst c # map fst rest)"
    using Cons.prems(1) by (auto simp: heap_rep_def)
  have b: "b = fst c" "b \<noteq> fl" "fst lb \<noteq> 0" and t: "t = hd (map fst rest @ [fl])"
    using Cons.prems(2,3) hdr_offset8 [OF ok(1,2)] hdr_offset8 [OF ok(1,3)] dll_neighbours(2) [OF dl]
    by simp_all
  let ?lb = "(fst lb, snd lb + (16 + snd c))"
  let ?m1 = "set_node_size m (fst lb) (snd lb + (16 + snd c))"
  let ?m2 = "list_del ?m1 (fst c)"
  show ?case
  proof (cases "fst lb + 12 + snd lb = fst c")
    case True
    have "heap_rep fl m hs (don @ (fst lb, snd lb) # c # rest)" using Cons.prems(1) by simp
    from rep_set_size_free [OF this refl]
    have r1: "heap_rep fl ?m1 hs ((don @ [?lb]) @ c # rest)" by simp
    from rep_del(1) [OF r1 refl] have r2: "heap_rep fl ?m2 hs (don @ ?lb # rest)" by simp
    have "agree_outside (hdr_span fl hs) m ?m2"
      using set_size_effect(2) [OF ok(1,2) refl] rep_del(3) [OF r1 refl] by (blast intro: agree_outside_trans)
    moreover have "defrag_loop fl m (fst lb) b t = defrag_loop fl ?m2 (fst ?lb) t (list_next ?m2 t)"
      using b ok True by (subst defrag_loop_step) (simp add: heap_consts Let_def)
    ultimately show ?thesis
      using Cons.IH [OF r2 t refl] True by (auto intro: agree_outside_trans)
  next
    case False
    have "defrag_loop fl m (fst lb) b t = defrag_loop fl m (fst c) t (list_next m t)"
      using b ok False by (subst defrag_loop_step) (simp add: heap_consts)
    then show ?thesis using Cons.IH [of m "don @ [lb]" c, OF _ t refl] Cons.prems(1) False by auto
  qed
qed

lemma heap_defrag_rep:
  assumes "heap_rep fl m hs bs"
  shows "\<exists>m'. heap_defrag_free_list fl m = Some m' \<and> heap_rep fl m' hs (spec_defrag bs)
     \<and> agree_outside (hdr_span fl hs) m m'"
proof (cases bs)
  case Nil
  then show ?thesis using assms heap_rep_start(1) [OF assms]
    by (simp add: heap_defrag_free_list_def defrag_loop_step)
next
  case (Cons b rest)
  have dl: "dll m fl ([] @ fst b # map fst rest)" and bin: "fst b \<in> set hs" "hdrs_ok fl hs"
    using assms Cons by (auto simp: heap_rep_def)
  have nx: "list_next m (fst b) = hd (map fst rest @ [fl])" using dll_neighbours(2) [OF dl] .
  have "fst b \<noteq> fl" using hdr_offset8 [OF bin(2,1)] by simp
  then have "heap_defrag_free_list fl m
      = defrag_loop fl m (fst b) (list_next m (fst b)) (list_next m (list_next m (fst b)))"
    using heap_rep_start(1) [OF assms] Cons
    by (simp add: heap_defrag_free_list_def Let_def defrag_loop_step [of fl m 0])
  with defrag_loop_rep [of fl m hs "[]" b rest, OF _ nx refl] assms Cons show ?thesis by simp
qed

text \<open>
  \<open>heap_free\<close> of a block whose header is intact ends and refines \<open>spec_free\<close>; it writes only
  to the head of the list and to headers.
\<close>

lemma heap_free_rep:
  assumes rep: "heap_rep fl m (map fst (b # bs)) bs" and sz: "node_size m (fst b) = snd b"
  shows "\<exists>m'. heap_free fl (fst b + 12) m = Some m' \<and> heap_rep fl m' (map fst (b # bs)) (spec_free b bs)
     \<and> agree_outside (hdr_span fl (map fst (b # bs))) m m'"
proof -
  obtain xs ys where sp: "bs = xs @ ys" "spec_insert b bs = xs @ b # ys"
    "\<forall>x \<in> set xs. \<not> fst b < fst x" "ys \<noteq> [] \<longrightarrow> fst b < fst (hd ys)"
    by (rule spec_insert_split)
  let ?m1 = "list_insert m (fst b) (last (fl # map fst xs)) (hd (map fst ys @ [fl]))"
  have ok: "hdrs_ok fl (map fst (b # bs))" using rep by (simp add: heap_rep_def)
  then have b: "fst b \<notin> fst ` set (xs @ ys)" "fst b + 12 \<noteq> 0"
    using hdr_offset8 [OF ok, of "fst b"] sp(1) by (auto simp: hdrs_ok_def nodes_ok_def)
  note r = rep_insert [OF rep [unfolded sp(1)] _ b(1) sz refl refl refl]
  have "heap_rep fl ?m1 (map fst (b # bs)) (spec_insert b bs)"
    "agree_outside (hdr_span fl (map fst (b # bs))) m ?m1"
    using r(1,3) sp(1,2) by simp_all
  moreover from heap_defrag_rep [OF this(1)] obtain m' where
    "heap_defrag_free_list fl ?m1 = Some m'" "heap_rep fl m' (map fst (b # bs)) (spec_free b bs)"
    "agree_outside (hdr_span fl (map fst (b # bs))) ?m1 m'"
    by (auto simp: spec_free_def)
  ultimately show ?thesis
    using free_insert_code [OF rep b(2) sp(1,3,4)] by (auto intro: agree_outside_trans)
qed

section \<open>Freeing and the invariant\<close>

lemma heap_geom_perm: "heap_geom lo hi bs (xs @ b # ys) = heap_geom lo hi bs (b # xs @ ys)"
  by (auto simp: heap_geom_def sorted_wrt_append separate_sym)

lemma heap_inv_perm: "heap_inv fl lo hi m bs (xs @ b # ys) = heap_inv fl lo hi m bs (b # xs @ ys)"
  by (auto simp: heap_inv_def heap_geom_perm)

lemma heap_inv_alloc_rep:
  assumes "heap_inv fl lo hi m bs (b # al)"
  shows "heap_rep fl m (map fst (b # bs)) bs" "node_size m (fst b) = snd b"
    "hdr_span fl (map fst (b # bs)) \<subseteq> free_bytes fl (b # bs)"
proof -
  have h: "hdrs_ok fl (map fst (bs @ b # al))"
    using assms by (intro geom_hdrs) (auto simp: heap_inv_def)
  have "hdrs_ok fl (map fst (b # bs))"
    by (rule hdrs_ok_subset [OF h]) (use h in \<open>auto simp: hdrs_ok_def nodes_ok_def\<close>)
  then show "heap_rep fl m (map fst (b # bs)) bs" "node_size m (fst b) = snd b"
    using assms by (auto simp: heap_inv_def heap_rep_def)
  show "hdr_span fl (map fst (b # bs)) \<subseteq> free_bytes fl (b # bs)"
    by (rule hdr_span_free_bytes) (auto simp: block_end_def)
qed

lemma heap_free_general:
  assumes "heap_inv fl lo hi m bs (b # al)"
  shows "\<exists>m'. heap_free fl (fst b + 12) m = Some m' \<and> heap_rep fl m' (map fst (b # bs)) (spec_free b bs)
     \<and> agree_outside (free_bytes fl (b # bs)) m m'"
  using heap_inv_alloc_rep [OF assms] heap_free_rep by (blast intro: agree_outside_mono)

lemma heap_free_inv:
  assumes inv: "heap_inv fl lo hi m bs (b # al)"
    and na: "successively (\<lambda>x y. \<not> abuts x y) (spec_insert b bs)"
  shows "\<exists>m'. heap_free fl (fst b + 12) m = Some m' \<and> heap_inv fl lo hi m' (spec_insert b bs) al
     \<and> agree_outside (free_bytes fl (b # bs)) m m'"
proof -
  have geom: "heap_geom lo hi (spec_insert b bs) al" and ho: "head_outside fl lo hi"
    using inv heap_geom_give_back by (auto simp: heap_inv_def)
  have sp: "spec_free b bs = spec_insert b bs"
    using spec_defrag_no_abut [OF na] by (simp add: spec_free_def)
  obtain m' where m': "heap_free fl (fst b + 12) m = Some m'"
    "heap_rep fl m' (map fst (b # bs)) (spec_insert b bs)" "agree_outside (free_bytes fl (b # bs)) m m'"
    using heap_free_general [OF inv] sp by auto
  have "free_bytes fl (spec_insert b bs) = free_bytes fl (b # bs)" by (simp add: free_bytes_def)
  then have "node_size m' (fst c) = snd c" if "c \<in> set al" for c
    using alloc_sizes_kept [OF geom ho _ that] m'(3) inv that by (simp add: heap_inv_def)
  with m' geom ho have "heap_inv fl lo hi m' (spec_insert b bs) al"
    by (auto simp: heap_inv_def heap_rep_def)
  with m' show ?thesis by blast
qed

section \<open>Initialisation\<close>

lemma free_list_static_dll: "node_ok fl \<Longrightarrow> dll (free_list_static fl m) fl []"
  unfolding free_list_static_def by (rule list_init_dll)

lemma heap_init_inv:
  assumes "0 < unat heap" "unat heap + 4194304 < 4294967296"
    "head_outside fl (unat heap) (unat heap + 4194304)" "dll m fl []"
  shows "heap_inv fl (unat heap) (unat heap + 4194304) (heap_init fl heap m)
     [(align_up heap 4, heap + HEAP_SIZE - align_up heap 4 - 12)] []"
proof -
  define a where "a = align_up heap 4"
  define s where "s = heap + HEAP_SIZE - a - 12"
  have a: "unat heap \<le> unat a" "unat a < unat heap + 4" "aligned4 a"
    using align_up_bounds [of heap] align_up_aligned [of heap] assms(2) by (simp_all add: a_def)
  have h: "unat (heap + HEAP_SIZE) = unat heap + 4194304"
    using assms(2) by (simp add: heap_consts addr_simps)
  have d: "unat (heap + HEAP_SIZE - a) = unat heap + 4194304 - unat a"
    using a h by (simp add: unat_sub_u32)
  have s: "unat s = unat heap + 4194304 - unat a - 12"
    unfolding s_def using a d by (subst unat_sub_u32) simp_all
  have geom: "heap_geom (unat heap) (unat heap + 4194304) [(a, s)] []"
    using a s assms by (simp add: heap_geom_def block_ok_def block_end_def)
  have ok: "hdrs_ok fl [a]" using geom_hdrs [OF geom assms(3)] by simp
  let ?m1 = "set_node_size m a s"
  have r0: "heap_rep fl m [a] []" using ok assms(4) by (simp add: heap_rep_def)
  have r1: "heap_rep fl ?m1 [a] ([] @ [])"
    using rep_set_size_other [OF r0 _ _ refl] by simp
  have sz: "node_size ?m1 a = s" using set_size_effect(1) [OF ok _ refl] by simp
  have "list_next ?m1 fl = fl" using heap_rep_start(1) [OF r1] by simp
  then have "heap_init fl heap m = list_insert ?m1 a fl fl"
    by (simp add: heap_init_def heap_add_block_def Let_def list_add_def a_def s_def heap_consts)
  with rep_insert(1) [OF r1 _ _ sz refl refl, of "heap_init fl heap m"]
  have "heap_rep fl (heap_init fl heap m) [a] [(a, s)]" by simp
  with geom assms(3) show ?thesis
    unfolding a_def [symmetric] s_def [symmetric] by (simp add: heap_inv_def heap_rep_def)
qed

section \<open>The allocator as its clients see it\<close>

definition data_bytes :: "block \<Rightarrow> u32 set" where
  "data_bytes b = span (fst b + 12) (unat (snd b))"

text \<open>
  \<open>malloc\<close> of a positive size below the wrap-around returns null or the address of fresh
  memory; the invariant speaks of the list \<open>al\<close> of blocks handed out, keeps their data
  areas apart and inside the heap region, and survives any write into a data area.
\<close>

locale allocator =
  fixes malloc :: "u32 \<Rightarrow> mem \<Rightarrow> (u32 \<times> mem) option"
    and inv :: "mem \<Rightarrow> block list \<Rightarrow> bool"
    and region :: "u32 set"
  assumes malloc_law: "inv m al \<Longrightarrow> 0 < n \<Longrightarrow> unat n \<le> 4294967292 \<Longrightarrow>
      malloc n m = Some (0, m) \<or> (\<exists>b m'. malloc n m = Some (fst b + 12, m') \<and> inv m' (b # al)
        \<and> unat n \<le> unat (snd b) \<and> (\<forall>c \<in> set al. \<forall>x \<in> data_bytes c. m' x = m x)
        \<and> (\<forall>x. x \<notin> region \<longrightarrow> m' x = m x))"
    and inv_frame: "inv m al \<Longrightarrow> (\<And>x. x \<notin> (\<Union>b \<in> set al. data_bytes b) \<Longrightarrow> x \<in> region \<Longrightarrow> m' x = m x) \<Longrightarrow> inv m' al"
    and inv_apart: "inv m al \<Longrightarrow> sorted_wrt (\<lambda>b c. data_bytes b \<inter> data_bytes c = {}) al"
    and inv_data: "inv m al \<Longrightarrow> b \<in> set al \<Longrightarrow> data_bytes b \<subseteq> region \<and> fst b + 12 \<noteq> 0
        \<and> unat (fst b + 12) + unat (snd b) < 4294967296 \<and> aligned4 (fst b + 12)"
begin

text \<open>Two successive successful allocations are disjoint, and the first keeps its contents.\<close>

lemma malloc_twice:
  assumes "inv m al" "0 < n" "unat n \<le> 4294967292" "0 < k" "unat k \<le> 4294967292"
    "malloc n m = Some (p, m1)" "p \<noteq> 0" "malloc k m1 = Some (q, m2)" "q \<noteq> 0"
  obtains b c where "p = fst b + 12" "q = fst c + 12" "inv m2 (c # b # al)"
    "unat n \<le> unat (snd b)" "unat k \<le> unat (snd c)"
    "data_bytes b \<inter> data_bytes c = {}"
    "\<And>d x. d \<in> set al \<Longrightarrow> x \<in> data_bytes d \<Longrightarrow> m2 x = m x" "\<And>x. x \<notin> region \<Longrightarrow> m2 x = m x"
proof -
  from malloc_law [OF assms(1-3)] assms(6,7) obtain b where b: "p = fst b + 12" "inv m1 (b # al)"
    "unat n \<le> unat (snd b)" "\<forall>c \<in> set al. \<forall>x \<in> data_bytes c. m1 x = m x" "\<forall>x. x \<notin> region \<longrightarrow> m1 x = m x"
    by auto
  from malloc_law [OF b(2) assms(4,5)] assms(8,9) obtain c where c: "q = fst c + 12"
    "inv m2 (c # b # al)" "unat k \<le> unat (snd c)"
    "\<forall>d \<in> set (b # al). \<forall>x \<in> data_bytes d. m2 x = m1 x" "\<forall>x. x \<notin> region \<longrightarrow> m2 x = m1 x"
    by auto
  have "data_bytes b \<inter> data_bytes c = {}" using inv_apart [OF c(2)] by auto
  with b c that show thesis by auto
qed

lemma inv_store:
  assumes "inv m al" "b \<in> set al" "\<And>x. x \<notin> data_bytes b \<Longrightarrow> m' x = m x"
  shows "inv m' al"
  by (rule inv_frame [OF assms(1)]) (use assms in auto)

end

text \<open>The heap of \<open>heap.c\<close> provides this interface.\<close>

definition heap_has :: "u32 \<Rightarrow> nat \<Rightarrow> nat \<Rightarrow> mem \<Rightarrow> block list \<Rightarrow> bool" where
  "heap_has fl lo hi m al \<longleftrightarrow> (\<exists>bs. heap_inv fl lo hi m bs al)"

definition heap_region :: "u32 \<Rightarrow> nat \<Rightarrow> nat \<Rightarrow> u32 set" where
  "heap_region fl lo hi = span fl 8 \<union> {x. lo \<le> unat x \<and> unat x < hi}"

lemma data_bytes_extent:
  assumes "heap_geom lo hi bs al" "b \<in> set (bs @ al)"
  shows "unat (fst b + 12) = unat (fst b) + 12" "data_bytes b \<subseteq> extent b"
    "data_bytes b \<inter> span (fst b) 12 = {}" "aligned4 (fst b + 12)"
    "extent b \<subseteq> {x. lo \<le> unat x \<and> unat x < hi}"
proof -
  note g = geom_block [OF assms]
  show u: "unat (fst b + 12) = unat (fst b) + 12" using g by (simp add: addr_simps)
  then show "data_bytes b \<subseteq> extent b" "data_bytes b \<inter> span (fst b) 12 = {}"
    by (auto simp: data_bytes_def extent_def span_def)
  show "aligned4 (fst b + 12)" using g(1) u unfolding aligned4_def by presburger
  show "extent b \<subseteq> {x. lo \<le> unat x \<and> unat x < hi}" using g by (auto simp: extent_def span_def)
qed

lemma heap_inv_frame:
  assumes inv: "heap_inv fl lo hi m bs al"
    and same: "\<And>x. x \<notin> (\<Union>b \<in> set al. data_bytes b) \<Longrightarrow> x \<in> heap_region fl lo hi \<Longrightarrow> m' x = m x"
  shows "heap_inv fl lo hi m' bs al"
proof -
  have geom: "heap_geom lo hi bs al" and ho: "head_outside fl lo hi"
    using inv by (simp_all add: heap_inv_def)
  have sep: "separate b c" if "b \<in> set (bs @ al)" "c \<in> set al" "b \<noteq> c" for b c
    using geom that by (intro sorted_wrt_separate_pair [of "bs @ al"]) (auto simp: heap_geom_def)
  have keep_hdr: "m' x = m x" if "b \<in> set (bs @ al)" "x \<in> span (fst b) 12" for b x
  proof (rule same)
    show "x \<notin> (\<Union>c \<in> set al. data_bytes c)"
    proof clarify
      fix c assume c: "c \<in> set al" "x \<in> data_bytes c"
      have "x \<in> extent b" using that(2) by (auto simp: span_def extent_def)
      with c sep [OF that(1) c(1)] separate_extents [of b c] data_bytes_extent [OF geom, of c] that
      show False by (cases "b = c") auto
    qed
    have "x \<in> extent b" using that(2) by (auto simp: span_def extent_def)
    then show "x \<in> heap_region fl lo hi"
      using data_bytes_extent(5) [OF geom that(1)] by (auto simp: heap_region_def)
  qed
  have keep_head: "m' x = m x" if "x \<in> span fl 8" for x
  proof (rule same)
    show "x \<notin> (\<Union>c \<in> set al. data_bytes c)"
      using that free_bytes_apart [OF geom ho] data_bytes_extent(2) [OF geom]
      by (fastforce simp: free_bytes_def)
  qed (use that in \<open>simp add: heap_region_def\<close>)
  have "dll m' fl (map fst bs)"
  proof (rule dll_cong)
    fix x assume "x \<in> nodes_span (fl # map fst bs)"
    then have "x \<in> hdr_span fl (map fst bs)" using nodes_span_hdr_span by blast
    then show "m' x = m x" using keep_head keep_hdr by (auto simp: hdr_span_def)
  qed (use inv in \<open>simp add: heap_inv_def\<close>)
  moreover have "node_size m' (fst b) = node_size m (fst b)" if "b \<in> set (bs @ al)" for b
  proof -
    have "unat (fst b + 8) = unat (fst b) + 8" "aligned4 (fst b + 8)"
      using hdr_offset8 [OF geom_hdrs [OF geom ho], of "fst b"] that by auto
    then show ?thesis unfolding node_size_def using keep_hdr [OF that]
      by (intro load32_cong) (auto simp: span_def)
  qed
  ultimately show ?thesis using inv by (auto simp: heap_inv_def)
qed

lemma free_bytes_region:
  assumes "heap_geom lo hi bs al"
  shows "free_bytes fl bs \<subseteq> heap_region fl lo hi"
  using data_bytes_extent(5) [OF assms] by (force simp: free_bytes_def heap_region_def)

lemma heap_malloc_law:
  assumes "heap_has fl lo hi m al" "0 < n" "unat n \<le> 4294967292"
  shows "heap_malloc fl n m = Some (0, m) \<or>
     (\<exists>b m'. heap_malloc fl n m = Some (fst b + 12, m') \<and> heap_has fl lo hi m' (b # al)
        \<and> unat n \<le> unat (snd b) \<and> (\<forall>c \<in> set al. \<forall>x \<in> data_bytes c. m' x = m x)
        \<and> (\<forall>x. x \<notin> heap_region fl lo hi \<longrightarrow> m' x = m x))"
proof -
  obtain bs where inv: "heap_inv fl lo hi m bs al" using assms(1) by (auto simp: heap_has_def)
  then have geom: "heap_geom lo hi bs al" "head_outside fl lo hi" by (simp_all add: heap_inv_def)
  show ?thesis
  proof (cases "spec_malloc (align_up n 4) bs")
    case None
    with heap_malloc_none [OF inv assms(2)] show ?thesis by simp
  next
    case (Some r)
    then obtain b bs' where r: "spec_malloc (align_up n 4) bs = Some (b, bs')" by (cases r) auto
    obtain m' where m': "heap_malloc fl n m = Some (fst b + 12, m')" "heap_inv fl lo hi m' bs' (b # al)"
      "agree_outside (free_bytes fl bs) m m'" using heap_malloc_some [OF inv assms(2) r] by blast
    have "m' x = m x" if "c \<in> set al" "x \<in> data_bytes c" for c x
      using free_bytes_apart [OF geom that(1)] data_bytes_extent(2) [OF geom(1), of c] that m'(3)
      by (auto simp: agree_outside_def)
    moreover have "m' x = m x" if "x \<notin> heap_region fl lo hi" for x
      using m'(3) free_bytes_region [OF geom(1)] that by (auto simp: agree_outside_def)
    moreover have "unat n \<le> unat (snd b)"
      using spec_malloc_size(1) [OF r] align_up_bounds(1) [OF assms(3)] by (simp add: word_le_nat_alt)
    ultimately show ?thesis using m' unfolding heap_has_def by blast
  qed
qed

lemma heap_has_apart:
  assumes "heap_has fl lo hi m al"
  shows "sorted_wrt (\<lambda>b c. data_bytes b \<inter> data_bytes c = {}) al"
proof -
  obtain bs where g: "heap_geom lo hi bs al" using assms by (auto simp: heap_has_def heap_inv_def)
  then have "sorted_wrt separate al" by (simp add: heap_geom_def sorted_wrt_append)
  then show ?thesis
  proof (rule sorted_wrt_mono_rel [rotated])
    fix b c assume "b \<in> set al" "c \<in> set al" "separate b c"
    then show "data_bytes b \<inter> data_bytes c = {}"
      using separate_extents data_bytes_extent(2) [OF g] by fastforce
  qed
qed

lemma heap_has_data:
  assumes "heap_has fl lo hi m al" "b \<in> set al"
  shows "data_bytes b \<subseteq> heap_region fl lo hi \<and> fst b + 12 \<noteq> 0
    \<and> unat (fst b + 12) + unat (snd b) < 4294967296 \<and> aligned4 (fst b + 12)"
proof -
  obtain bs where g: "heap_geom lo hi bs al" "head_outside fl lo hi"
    using assms by (auto simp: heap_has_def heap_inv_def)
  have b: "b \<in> set (bs @ al)" using assms(2) by simp
  note d = data_bytes_extent [OF g(1) b]
  have "fst b + 12 \<noteq> 0"
  proof
    assume z: "fst b + 12 = 0"
    from d(1) show False unfolding z by simp
  qed
  then show ?thesis using d geom_block(3,4) [OF g(1) b] by (auto simp: heap_region_def)
qed

interpretation kheap: allocator "heap_malloc fl" "heap_has fl lo hi" "heap_region fl lo hi"
  for fl lo hi
proof (unfold_locales, goal_cases)
  case (1 m al n)
  then show ?case by (rule heap_malloc_law)
next
  case (2 m al m')
  then show ?case using heap_inv_frame unfolding heap_has_def by blast
next
  case (3 m al)
  then show ?case by (rule heap_has_apart)
next
  case (4 m al b)
  then show ?case by (rule heap_has_data)
qed

end
