(* ===== verification/Thread_Context.thy ===== *)
theory Thread_Context
  imports Memory_Model
begin

text \<open>
  Context switching: the assembly of \<open>src/kernel/arch/i386/thread_asm.S\<close> as a sequence of
  instructions on the registers and the memory, and the frame \<open>thread_setup_stack\<close> of
  \<open>src/kernel/thread.c\<close> builds for a thread that has not run yet. The lemmas show that a
  fresh frame enters \<open>thread_main\<close> with its arguments in place, and that a thread switched
  away from resumes at its return address with its callee-saved registers.
\<close>

section \<open>Registers and the stack\<close>

record cpu =
  eax :: u32
  ecx :: u32
  edx :: u32
  ebx :: u32
  esp :: u32
  ebp :: u32
  esi :: u32
  edi :: u32
  eip :: u32
  ram :: mem

definition push32 :: "u32 \<Rightarrow> 'a cpu_scheme \<Rightarrow> 'a cpu_scheme" where
  "push32 v c = c\<lparr>esp := esp c - 4, ram := store32 (ram c) (esp c - 4) v\<rparr>"

definition top32 :: "'a cpu_scheme \<Rightarrow> u32" where
  "top32 c = load32 (ram c) (esp c)"

definition drop32 :: "'a cpu_scheme \<Rightarrow> 'a cpu_scheme" where
  "drop32 c = c\<lparr>esp := esp c + 4\<rparr>"

definition ret_near :: "'a cpu_scheme \<Rightarrow> 'a cpu_scheme" where
  "ret_near c = drop32 (c\<lparr>eip := top32 c\<rparr>)"

text \<open>A cdecl call: the arguments from right to left, then the return address.\<close>

definition cdecl_call :: "u32 \<Rightarrow> u32 list \<Rightarrow> 'a cpu_scheme \<Rightarrow> 'a cpu_scheme" where
  "cdecl_call retaddr args c = push32 retaddr (foldr push32 args c)"

section \<open>\<open>thread_asm.S\<close>\<close>

definition thread_restore :: "'a cpu_scheme \<Rightarrow> 'a cpu_scheme" where
  "thread_restore c =
     (let c1 = drop32 (c\<lparr>esi := top32 c\<rparr>);
          c2 = drop32 (c1\<lparr>edi := top32 c1\<rparr>);
          c3 = drop32 (c2\<lparr>ebx := top32 c2\<rparr>);
          c4 = drop32 (c3\<lparr>ebp := top32 c3\<rparr>)
      in ret_near c4)"

definition thread_load_first_asm :: "'a cpu_scheme \<Rightarrow> 'a cpu_scheme" where
  "thread_load_first_asm c = thread_restore (c\<lparr>esp := load32 (ram c) (esp c + 4)\<rparr>)"

definition thread_context_switch_asm :: "'a cpu_scheme \<Rightarrow> 'a cpu_scheme" where
  "thread_context_switch_asm c =
     (let c1 = c\<lparr>ecx := load32 (ram c) (esp c + 8)\<rparr>;
          c2 = c1\<lparr>eax := load32 (ram c1) (esp c1 + 4)\<rparr>;
          c3 = push32 (ebp c2) c2;
          c4 = push32 (ebx c3) c3;
          c5 = push32 (edi c4) c4;
          c6 = push32 (esi c5) c5;
          c7 = c6\<lparr>ram := store32 (ram c6) (eax c6) (esp c6)\<rparr>;
          c8 = c7\<lparr>esp := ecx c7\<rparr>
      in thread_restore c8)"

section \<open>\<open>thread_setup_stack\<close>\<close>

text \<open>
  \<open>stack_ptr\<close> is a \<open>uint32_t *\<close>, so index \<open>-k\<close> is the word \<open>4 * k\<close> bytes below it. The
  address of \<open>thread_main\<close> is the linker's. Returns the memory and the value for \<open>*stack_ptrp\<close>.
\<close>

definition thread_setup_stack ::
  "u32 \<Rightarrow> mem \<Rightarrow> u32 \<Rightarrow> u32 \<Rightarrow> u32 \<Rightarrow> u32 \<Rightarrow> mem \<times> u32" where
  "thread_setup_stack thread_main_addr m stack_base_addr stack_size fn arg =
     (let stack_ptr = stack_base_addr + stack_size;
          m = store32 m (stack_ptr - 4) arg;
          m = store32 m (stack_ptr - 8) fn;
          m = store32 m (stack_ptr - 12) 0;
          m = store32 m (stack_ptr - 16) thread_main_addr;
          m = store32 m (stack_ptr - 20) 0;
          m = store32 m (stack_ptr - 24) 0;
          m = store32 m (stack_ptr - 28) 0;
          m = store32 m (stack_ptr - 32) 0;
          stack_ptr = stack_ptr - 4 * 8
      in (m, stack_ptr))"

lemmas asm_defs = push32_def top32_def drop32_def ret_near_def cdecl_call_def
  thread_restore_def thread_load_first_asm_def thread_context_switch_asm_def Let_def

section \<open>Alignment of stack addresses\<close>

lemma aligned4_uint: "aligned4 a \<longleftrightarrow> uint a mod 4 = 0"
proof -
  have "int (unat a mod 4) = uint a mod 4" by (simp add: zmod_int)
  then show ?thesis unfolding aligned4_def by presburger
qed

lemma aligned4_plus: "aligned4 a \<Longrightarrow> aligned4 b \<Longrightarrow> aligned4 (a + b)"
  and aligned4_minus: "aligned4 a \<Longrightarrow> aligned4 b \<Longrightarrow> aligned4 (a - b)"
proof -
  have c: "n mod 2 ^ 32 mod 4 = n mod (4 :: int)" for n
    by (rule mod_mod_cancel) simp
  assume "aligned4 a" "aligned4 b"
  then have "uint a mod 4 = 0" "uint b mod 4 = 0" by (simp_all add: aligned4_uint)
  then have "(uint a + uint b) mod 4 = 0" "(uint a - uint b) mod 4 = 0" by presburger+
  then show "aligned4 (a + b)" "aligned4 (a - b)"
    using c by (simp_all add: aligned4_uint uint_word_ariths)
qed

lemma aligned4_numerals:
  "aligned4 4" "aligned4 8" "aligned4 12" "aligned4 16" "aligned4 20" "aligned4 24" "aligned4 28"
  "aligned4 32" "aligned4 0"
  by (simp_all add: aligned4_def)

lemma aligned4_stack [simp]:
  assumes "aligned4 a"
  shows "aligned4 (a - 4)" "aligned4 (a - 8)" "aligned4 (a - 12)" "aligned4 (a - 16)"
    "aligned4 (a - 20)" "aligned4 (a - 24)" "aligned4 (a - 28)" "aligned4 (a - 32)"
    "aligned4 (a + 4)" "aligned4 (a + 8)" "aligned4 (a + 12)" "aligned4 (a + 16)" "aligned4 (a + 20)"
  using assms by (simp_all add: aligned4_plus aligned4_minus aligned4_numerals)

section \<open>A fresh thread\<close>

lemma setup_stack_frame:
  assumes "aligned4 (base + sz)" "thread_setup_stack tm m base sz fn arg = (m', sp)"
  shows "sp = base + sz - 32" "load32 m' sp = 0" "load32 m' (sp + 4) = 0" "load32 m' (sp + 8) = 0"
    "load32 m' (sp + 12) = 0" "load32 m' (sp + 16) = tm" "load32 m' (sp + 20) = 0"
    "load32 m' (sp + 24) = fn" "load32 m' (sp + 28) = arg"
  using assms by (auto simp: thread_setup_stack_def Let_def)

lemma fresh_thread_enters_main:
  assumes "aligned4 (base + sz)" "thread_setup_stack tm m base sz fn arg = (m', sp)"
    "esp c = sp" "ram c = m'"
  shows "eip (thread_restore c) = tm" "esp (thread_restore c) = base + sz - 12"
    "load32 (ram (thread_restore c)) (esp (thread_restore c)) = 0"
    "load32 (ram (thread_restore c)) (esp (thread_restore c) + 4) = fn"
    "load32 (ram (thread_restore c)) (esp (thread_restore c) + 8) = arg"
    "ebp (thread_restore c) = 0" "ebx (thread_restore c) = 0"
    "esi (thread_restore c) = 0" "edi (thread_restore c) = 0"
  using setup_stack_frame [OF assms(1,2)] assms(3,4)
  by (auto simp: asm_defs algebra_simps)

section \<open>Switching away and back\<close>

definition save_slots :: "u32 \<Rightarrow> u32 set" where
  "save_slots sp = {sp - 4, sp - 8, sp - 12, sp - 16}"

text \<open>What the first half of the switch leaves in memory.\<close>

lemma switch_saves:
  assumes "aligned4 (esp c)" "aligned4 curp" "load32 (ram c) (esp c + 4) = curp"
    "curp \<notin> insert (esp c) (save_slots (esp c))"
  shows "load32 (ram (thread_context_switch_asm c)) curp = esp c - 16"
    "load32 (ram (thread_context_switch_asm c)) (esp c - 16) = esi c"
    "load32 (ram (thread_context_switch_asm c)) (esp c - 12) = edi c"
    "load32 (ram (thread_context_switch_asm c)) (esp c - 8) = ebx c"
    "load32 (ram (thread_context_switch_asm c)) (esp c - 4) = ebp c"
    "load32 (ram (thread_context_switch_asm c)) (esp c) = load32 (ram c) (esp c)"
  using assms by (auto simp: asm_defs save_slots_def)

lemma switch_other_words:
  assumes "aligned4 (esp c)" "aligned4 curp" "load32 (ram c) (esp c + 4) = curp" "aligned4 a"
    "a \<notin> insert curp (save_slots (esp c))"
  shows "load32 (ram (thread_context_switch_asm c)) a = load32 (ram c) a"
  using assms by (auto simp: asm_defs save_slots_def)

lemma switch_outside:
  assumes "aligned4 (esp c)" "aligned4 curp" "load32 (ram c) (esp c + 4) = curp"
    "\<And>a. a \<in> insert curp (save_slots (esp c)) \<Longrightarrow> x \<notin> span a 4"
  shows "ram (thread_context_switch_asm c) x = ram c x"
  using assms by (auto simp: asm_defs save_slots_def store32_outside)

text \<open>The second half: the registers come from the frame at the new stack pointer.\<close>

lemma switch_restores:
  assumes "c' = thread_context_switch_asm c" "load32 (ram c) (esp c + 8) = nxt"
  shows "esi c' = load32 (ram c') nxt" "edi c' = load32 (ram c') (nxt + 4)"
    "ebx c' = load32 (ram c') (nxt + 8)" "ebp c' = load32 (ram c') (nxt + 12)"
    "eip c' = load32 (ram c') (nxt + 16)" "esp c' = nxt + 20"
  using assms by (auto simp: asm_defs algebra_simps)

text \<open>
  A thread that is switched away from in state \<open>c\<close> and switched back to from state \<open>d\<close>, with
  its frame intact in between, continues as if \<open>thread_context_switch_asm\<close> had returned:
  callee-saved registers as they were, stack pointer just above the return address.
\<close>

lemma switch_roundtrip:
  assumes al: "aligned4 (esp c)" "aligned4 curp" "aligned4 (esp d)" "aligned4 curq"
    and c: "load32 (ram c) (esp c + 4) = curp" "curp \<notin> insert (esp c) (save_slots (esp c))"
    and d: "load32 (ram d) (esp d + 4) = curq"
      "load32 (ram d) (esp d + 8) = load32 (ram (thread_context_switch_asm c)) curp"
    and kept: "\<And>a. a \<in> insert (esp c) (save_slots (esp c)) \<Longrightarrow>
        load32 (ram d) a = load32 (ram (thread_context_switch_asm c)) a"
    and apart: "insert (esp c) (save_slots (esp c)) \<inter> insert curq (save_slots (esp d)) = {}"
    and e: "e = thread_context_switch_asm d"
  shows "ebp e = ebp c" "ebx e = ebx c" "edi e = edi c" "esi e = esi c"
    "eip e = load32 (ram c) (esp c)" "esp e = esp c + 4"
proof -
  note s = switch_saves [OF al(1,2) c]
  have f: "load32 (ram e) a = load32 (ram (thread_context_switch_asm c)) a"
    if "a \<in> insert (esp c) (save_slots (esp c))" "aligned4 a" for a
    using switch_other_words [OF al(3,4) d(1) that(2)] kept [OF that(1)] that(1) apart e by auto
  have w: "load32 (ram e) (esp c - 16) = esi c" "load32 (ram e) (esp c - 12) = edi c"
    "load32 (ram e) (esp c - 8) = ebx c" "load32 (ram e) (esp c - 4) = ebp c"
    "load32 (ram e) (esp c) = load32 (ram c) (esp c)"
    using al(1) s by (simp_all add: f save_slots_def)
  note r = switch_restores [OF e d(2) [unfolded s(1)]]
  have off: "esp c - 16 + 4 = esp c - 12" "esp c - 16 + 8 = esp c - 8" "esp c - 16 + 12 = esp c - 4"
    "esp c - 16 + 16 = esp c" "esp c - 16 + 20 = esp c + 4" by simp_all
  show "ebp e = ebp c" "ebx e = ebx c" "edi e = edi c" "esi e = esi c"
    "eip e = load32 (ram c) (esp c)" "esp e = esp c + 4"
    unfolding r off by (rule w refl)+
qed

end
