(* ===== verification/Thread_Code.thy ===== *)
theory Thread_Code
  imports Heap_Free Thread_Context
begin

text \<open>
  The thread module \<open>src/kernel/thread.c\<close>. A \<open>struct thread\<close> is 28 bytes in memory: \<open>id\<close> at
  offset 0, \<open>name\<close> at 4, \<open>stack_ptr\<close> at 8, \<open>stack_size\<close> at 12, the byte \<open>ready\<close> at 16 and the
  list node at 20. The static variables of the module are fields of \<open>kstate\<close>, which extends
  the processor state; the list head inside the static \<open>thread_run_queue\<close> lives in memory at
  the address \<open>thread_list\<close>. Out-parameters are returned.
\<close>

section \<open>Data\<close>

definition THREAD_DEFAULT_STACK_SIZE :: u32 where
  "THREAD_DEFAULT_STACK_SIZE = 4096"

definition SIZEOF_THREAD :: u32 where
  "SIZEOF_THREAD = 28"

record thread_run_queue =
  thread_list :: u32
  no_threads :: u32

record kstate = cpu +
  run_queue :: thread_run_queue
  idle_thread :: u32
  current_thread :: u32
  global_id_counter :: u32

text \<open>Addresses the compiler and the linker choose.\<close>

record symbols =
  sym_free_list :: u32
  sym_thread_main :: u32
  sym_idle_thread_fn :: u32
  sym_idle_name :: u32
  ret_context_switch :: u32
  ret_load_first :: u32

definition thread_id :: "mem \<Rightarrow> u32 \<Rightarrow> u32" where
  "thread_id m t = load32 m t"

definition thread_name :: "mem \<Rightarrow> u32 \<Rightarrow> u32" where
  "thread_name m t = load32 m (t + 4)"

definition thread_stack_ptr :: "mem \<Rightarrow> u32 \<Rightarrow> u32" where
  "thread_stack_ptr m t = load32 m (t + 8)"

definition thread_stack_size :: "mem \<Rightarrow> u32 \<Rightarrow> u32" where
  "thread_stack_size m t = load32 m (t + 12)"

definition thread_ready :: "mem \<Rightarrow> u32 \<Rightarrow> bool" where
  "thread_ready m t \<longleftrightarrow> load8 m (t + 16) \<noteq> 0"

definition thread_node :: "u32 \<Rightarrow> u32" where
  "thread_node t = t + 20"

definition set_thread_ready :: "mem \<Rightarrow> u32 \<Rightarrow> bool \<Rightarrow> mem" where
  "set_thread_ready m t b = store8 m (t + 16) (if b then 1 else 0)"

section \<open>The run queue\<close>

definition thread_run_queue_init :: "thread_run_queue \<Rightarrow> mem \<Rightarrow> thread_run_queue \<times> mem" where
  "thread_run_queue_init rq m = (rq\<lparr>no_threads := 0\<rparr>, list_init m (thread_list rq))"

definition thread_run_queue_empty :: "thread_run_queue \<Rightarrow> bool" where
  "thread_run_queue_empty rq \<longleftrightarrow> no_threads rq = 0"

definition thread_run_queue_add :: "u32 \<Rightarrow> thread_run_queue \<times> mem \<Rightarrow> thread_run_queue \<times> mem" where
  "thread_run_queue_add t = (\<lambda>(rq, m).
     (rq\<lparr>no_threads := no_threads rq + 1\<rparr>, list_add_tail m (thread_node t) (thread_list rq)))"

definition thread_runqueue_remove :: "u32 \<Rightarrow> thread_run_queue \<times> mem \<Rightarrow> thread_run_queue \<times> mem" where
  "thread_runqueue_remove t = (\<lambda>(rq, m).
     (rq\<lparr>no_threads := no_threads rq - 1\<rparr>, list_del m (thread_node t)))"

definition thread_run_queue_pop ::
  "thread_run_queue \<times> mem \<Rightarrow> (u32 \<times> thread_run_queue \<times> mem) res" where
  "thread_run_queue_pop = (\<lambda>(rq, m).
     bind_res (kassert (\<not> thread_run_queue_empty rq) ''!thread_run_queue_empty(run_queue)'') (\<lambda>_.
       let t = list_first_entry m (thread_list rq) 20
       in Inr (t, thread_runqueue_remove t (rq, m))))"

section \<open>Scheduling\<close>

definition thread_load_first :: "symbols \<Rightarrow> u32 \<Rightarrow> kstate \<Rightarrow> kstate" where
  "thread_load_first sy t s =
     thread_load_first_asm (cdecl_call (ret_load_first sy) [thread_stack_ptr (ram s) t] s)"

definition thread_context_switch :: "symbols \<Rightarrow> u32 \<Rightarrow> u32 \<Rightarrow> kstate \<Rightarrow> kstate" where
  "thread_context_switch sy current nxt s =
     thread_context_switch_asm
       (cdecl_call (ret_context_switch sy) [current + 8, thread_stack_ptr (ram s) nxt] s)"

abbreviation (input) thread_get_current :: "kstate \<Rightarrow> u32" where
  "thread_get_current s \<equiv> current_thread s"

abbreviation (input) thread_set_current :: "u32 \<Rightarrow> kstate \<Rightarrow> kstate" where
  "thread_set_current t s \<equiv> s\<lparr>current_thread := t\<rparr>"

definition thread_is_idle :: "kstate \<Rightarrow> u32 \<Rightarrow> bool" where
  "thread_is_idle s t \<longleftrightarrow> t = idle_thread s"

definition thread_get_next :: "kstate \<Rightarrow> (u32 \<times> kstate) res" where
  "thread_get_next s =
     (if thread_run_queue_empty (run_queue s) then Inr (idle_thread s, s)
      else bind_res (thread_run_queue_pop (run_queue s, ram s)) (\<lambda>(t, rq, m).
        Inr (t, s\<lparr>run_queue := rq, ram := m\<rparr>)))"

definition thread_reschedule :: "symbols \<Rightarrow> kstate \<Rightarrow> kstate res" where
  "thread_reschedule sy s =
     (let current = thread_get_current s in
      bind_res (thread_get_next s) (\<lambda>(nxt, s1).
        let s2 = thread_set_current nxt s1;
            s3 = (if \<not> thread_is_idle s2 current \<and> thread_ready (ram s2) current
                  then (let (rq, m) = thread_run_queue_add current (run_queue s2, ram s2)
                        in s2\<lparr>run_queue := rq, ram := m\<rparr>)
                  else s2)
        in Inr (thread_context_switch sy current nxt s3)))"

text \<open>The part of \<open>thread_main\<close> after \<open>fn(arg)\<close>, and \<open>thread_main\<close> for a given body.\<close>

definition thread_main_exit :: "symbols \<Rightarrow> u32 \<Rightarrow> kstate \<Rightarrow> kstate res" where
  "thread_main_exit sy current s =
     thread_reschedule sy (s\<lparr>ram := set_thread_ready (ram s) current False\<rparr>)"

definition thread_main :: "symbols \<Rightarrow> (kstate \<Rightarrow> kstate res) \<Rightarrow> kstate \<Rightarrow> kstate res" where
  "thread_main sy fn s =
     (let current = thread_get_current s in bind_res (fn s) (thread_main_exit sy current))"

definition thread_start_scheduler :: "symbols \<Rightarrow> kstate \<Rightarrow> kstate res" where
  "thread_start_scheduler sy s =
     bind_res (thread_get_next s) (\<lambda>(first, s1).
       Inr (thread_load_first sy first (thread_set_current first s1)))"

section \<open>Creation\<close>

definition thread_struct_init ::
  "symbols \<Rightarrow> u32 \<Rightarrow> u32 \<Rightarrow> u32 \<Rightarrow> u32 \<Rightarrow> u32 \<Rightarrow> u32 \<Rightarrow> kstate \<Rightarrow> kstate" where
  "thread_struct_init sy t name stack_base_addr stack_size fn arg s =
     (let m = store32 (ram s) t (global_id_counter s);
          m = store32 m (t + 4) name;
          m = set_thread_ready m t True;
          m = list_node_init m (thread_node t);
          m = store32 m (t + 12) stack_size;
          (m, sp) = thread_setup_stack (sym_thread_main sy) m stack_base_addr stack_size fn arg
      in s\<lparr>ram := store32 m (t + 8) sp, global_id_counter := global_id_counter s + 1\<rparr>)"

text \<open>The label \<open>out\<close> of the two creation functions: both pointers are freed, error 1.\<close>

definition create_failed :: "symbols \<Rightarrow> u32 \<Rightarrow> u32 \<Rightarrow> kstate \<Rightarrow> (int \<times> u32 option \<times> kstate) res" where
  "create_failed sy t stack s =
     bind_res (of_loop (heap_free (sym_free_list sy) t (ram s))) (\<lambda>m1.
     bind_res (of_loop (heap_free (sym_free_list sy) stack m1)) (\<lambda>m2.
       Inr (1, None, s\<lparr>ram := m2\<rparr>)))"

definition idle_thread_create :: "symbols \<Rightarrow> kstate \<Rightarrow> (int \<times> u32 option \<times> kstate) res" where
  "idle_thread_create sy s =
     bind_res (of_loop (heap_malloc (sym_free_list sy) SIZEOF_THREAD (ram s))) (\<lambda>(t, m1).
       if t = 0 then create_failed sy 0 0 (s\<lparr>ram := m1\<rparr>) else
     bind_res (of_loop (heap_malloc (sym_free_list sy) THREAD_DEFAULT_STACK_SIZE m1)) (\<lambda>(stack, m2).
       if stack = 0 then create_failed sy t 0 (s\<lparr>ram := m2\<rparr>) else
       Inr (0, Some t, thread_struct_init sy t (sym_idle_name sy) stack THREAD_DEFAULT_STACK_SIZE
              (sym_idle_thread_fn sy) 0 (s\<lparr>ram := m2\<rparr>))))"

definition thread_init :: "symbols \<Rightarrow> kstate \<Rightarrow> (int \<times> kstate) res" where
  "thread_init sy s =
     bind_res (idle_thread_create sy s) (\<lambda>(error, threadp, s1).
       let s2 = (case threadp of None \<Rightarrow> s1 | Some t \<Rightarrow> s1\<lparr>idle_thread := t\<rparr>) in
       if error \<noteq> 0 then Inr (error, s2)
       else (let (rq, m) = thread_run_queue_init (run_queue s2) (ram s2)
             in Inr (0, s2\<lparr>run_queue := rq, ram := m\<rparr>)))"

definition thread_create ::
  "symbols \<Rightarrow> u32 \<Rightarrow> u32 \<Rightarrow> u32 \<Rightarrow> kstate \<Rightarrow> (int \<times> u32 option \<times> kstate) res" where
  "thread_create sy name fn arg s =
     bind_res (of_loop (heap_malloc (sym_free_list sy) SIZEOF_THREAD (ram s))) (\<lambda>(t, m1).
       if t = 0 then create_failed sy 0 0 (s\<lparr>ram := m1\<rparr>) else
     bind_res (of_loop (heap_malloc (sym_free_list sy) THREAD_DEFAULT_STACK_SIZE m1)) (\<lambda>(stack, m2).
       if stack = 0 then create_failed sy t 0 (s\<lparr>ram := m2\<rparr>) else
       let s1 = thread_struct_init sy t name stack THREAD_DEFAULT_STACK_SIZE fn arg (s\<lparr>ram := m2\<rparr>);
           (rq, m) = thread_run_queue_add t (run_queue s1, ram s1)
       in Inr (0, Some t, s1\<lparr>run_queue := rq, ram := m\<rparr>)))"

end
