(* ===== verification/Run_Queue.thy ===== *)
theory Run_Queue
  imports Thread_Code
begin

text \<open>
  The run queue of \<open>thread.c\<close> is a first-in first-out queue of threads: the interface
  \<open>fifo_queue\<close>, its client lemma (a queue gives back what was put in, in order), and the proof
  that the intrusive list with its counter provides it.
\<close>

section \<open>The interface\<close>

locale fifo_queue =
  fixes add :: "'t \<Rightarrow> 'q \<Rightarrow> 'q"
    and pop :: "'q \<Rightarrow> ('t \<times> 'q) res"
    and is_empty :: "'q \<Rightarrow> bool"
    and rep :: "'q \<Rightarrow> 't list \<Rightarrow> bool"
    and room :: "'t list \<Rightarrow> bool"
  assumes add_law: "rep q ts \<Longrightarrow> room (ts @ [t]) \<Longrightarrow> rep (add t q) (ts @ [t])"
    and pop_law: "rep q (t # ts) \<Longrightarrow> \<exists>q'. pop q = Inr (t, q') \<and> rep q' ts"
    and empty_law: "rep q ts \<Longrightarrow> is_empty q \<longleftrightarrow> ts = []"
    and pop_empty: "rep q [] \<Longrightarrow> \<exists>msg. pop q = Inl (Panic msg)"
    and room_prefix: "room (ts @ us) \<Longrightarrow> room ts"
begin

fun drain :: "nat \<Rightarrow> 'q \<Rightarrow> 't list res" where
  "drain 0 q = Inr []"
| "drain (Suc n) q = bind_res (pop q) (\<lambda>(t, q'). bind_res (drain n q') (\<lambda>ts. Inr (t # ts)))"

lemma add_all:
  "rep q ts \<Longrightarrow> room (ts @ us) \<Longrightarrow> rep (fold add us q) (ts @ us)"
proof (induction us arbitrary: q ts)
  case (Cons u us)
  have "room (ts @ [u])" using room_prefix [of "ts @ [u]" us] Cons.prems(2) by simp
  from Cons.IH [OF add_law [OF Cons.prems(1) this]] Cons.prems(2) show ?case by simp
qed simp

lemma drain_rep: "rep q ts \<Longrightarrow> drain (length ts) q = Inr ts"
proof (induction ts arbitrary: q)
  case (Cons t ts)
  then obtain q' where "pop q = Inr (t, q')" "rep q' ts" using pop_law by blast
  with Cons.IH show ?case by simp
qed simp

lemma first_in_first_out:
  "rep q [] \<Longrightarrow> room ts \<Longrightarrow> drain (length ts) (fold add ts q) = Inr ts"
  using add_all [of q "[]" ts] by (simp add: drain_rep)

end

section \<open>The run queue provides it\<close>

definition rq_rep :: "thread_run_queue \<times> mem \<Rightarrow> u32 list \<Rightarrow> bool" where
  "rq_rep qm ts \<longleftrightarrow> dll (snd qm) (thread_list (fst qm)) (map thread_node ts)
     \<and> unat (no_threads (fst qm)) = length ts"

definition rq_room :: "u32 \<Rightarrow> u32 list \<Rightarrow> bool" where
  "rq_room h ts \<longleftrightarrow> nodes_ok (h # map thread_node ts)"

lemma card_u32_list:
  assumes "distinct (xs :: u32 list)" "z \<notin> set xs"
  shows "length xs < 4294967296"
proof -
  have "set xs \<subset> UNIV" using assms(2) by blast
  then have "card (set xs) < CARD(u32)" by (intro psubset_card_mono) simp_all
  then show ?thesis using assms(1) by (simp add: distinct_card card_word)
qed

lemma rq_room_prefix:
  assumes "rq_room h (ts @ us)"
  shows "rq_room h ts"
  unfolding rq_room_def
  by (rule nodes_ok_subset [OF assms [unfolded rq_room_def]])
    (use assms in \<open>auto simp: rq_room_def nodes_ok_def\<close>)

lemma rq_add:
  assumes "rq_rep (rq, m) ts" "rq_room (thread_list rq) (ts @ [t])"
  shows "rq_rep (thread_run_queue_add t (rq, m)) (ts @ [t])"
proof -
  have "distinct (map thread_node (ts @ [t]))" "thread_list rq \<notin> set (map thread_node (ts @ [t]))"
    using assms(2) unfolding rq_room_def nodes_ok_def by auto
  from card_u32_list [OF this] have "Suc (length ts) < 4294967296" by simp
  with assms have "unat (no_threads rq + 1) = Suc (length ts)"
    by (simp add: rq_rep_def addr_simps)
  with assms list_add_tail_dll [of m "thread_list rq" "map thread_node ts" "thread_node t"]
  show ?thesis by (simp add: rq_rep_def rq_room_def thread_run_queue_add_def)
qed

lemma rq_remove_first:
  assumes "rq_rep (rq, m) (t # ts)"
  shows "rq_rep (thread_runqueue_remove t (rq, m)) ts"
proof -
  have n: "unat (no_threads rq) = Suc (length ts)" using assms by (simp add: rq_rep_def)
  then have "unat (no_threads rq - 1) = length ts"
    using unat_sub_u32 [of 1 "no_threads rq"] by simp
  with assms list_del_dll [of m "thread_list rq" "[]" "thread_node t" "map thread_node ts"]
  show ?thesis by (simp add: rq_rep_def thread_runqueue_remove_def)
qed

lemma rq_empty:
  assumes "rq_rep (rq, m) ts"
  shows "thread_run_queue_empty rq \<longleftrightarrow> ts = []"
proof -
  have "no_threads rq = 0 \<longleftrightarrow> unat (no_threads rq) = 0" by (simp only: unsigned_eq_0_iff)
  then show ?thesis using assms by (simp add: rq_rep_def thread_run_queue_empty_def)
qed

lemma rq_pop:
  assumes "rq_rep (rq, m) (t # ts)"
  shows "thread_run_queue_pop (rq, m) = Inr (t, thread_runqueue_remove t (rq, m))"
proof -
  have "dll m (thread_list rq) (thread_node t # map thread_node ts)" using assms by (simp add: rq_rep_def)
  from dll_first [OF this] have "list_first_entry m (thread_list rq) 20 = t"
    by (simp add: list_first_entry_def container_of_def thread_node_def)
  then show ?thesis using rq_empty [OF assms] by (simp add: thread_run_queue_pop_def Let_def)
qed

lemma rq_pop_empty:
  "rq_rep (rq, m) [] \<Longrightarrow> thread_run_queue_pop (rq, m)
     = Inl (Panic ''Assertion failed: !thread_run_queue_empty(run_queue)'')"
  using rq_empty [of rq m "[]"] by (simp add: thread_run_queue_pop_def)

lemma thread_list_ops [simp]:
  "thread_list (fst (thread_run_queue_add t qm)) = thread_list (fst qm)"
  "thread_list (fst (thread_runqueue_remove t qm)) = thread_list (fst qm)"
  by (cases qm; simp add: thread_run_queue_add_def thread_runqueue_remove_def)+

text \<open>One instance per address of the list head.\<close>

interpretation rq: fifo_queue thread_run_queue_add thread_run_queue_pop
  "\<lambda>qm. thread_run_queue_empty (fst qm)" "\<lambda>qm ts. rq_rep qm ts \<and> thread_list (fst qm) = h" "rq_room h"
  for h
proof (unfold_locales, goal_cases)
  case (1 q ts t)
  then show ?case by (cases q) (auto simp: rq_add)
next
  case (2 q t ts)
  then have "rq_rep (thread_runqueue_remove t q) ts" "thread_list (fst (thread_runqueue_remove t q)) = h"
    by (cases q; simp add: rq_remove_first)+
  moreover have "thread_run_queue_pop q = Inr (t, thread_runqueue_remove t q)"
    using 2 by (cases q) (auto simp: rq_pop)
  ultimately show ?case by blast
next
  case (3 q ts)
  then show ?case by (cases q) (auto simp: rq_empty)
next
  case (4 q)
  then show ?case by (cases q) (auto simp: rq_pop_empty)
next
  case (5 ts us)
  then show ?case by (rule rq_room_prefix)
qed

section \<open>Frame\<close>

lemma rq_add_outside:
  assumes "rq_rep (rq, m) ts" "rq_room (thread_list rq) (ts @ [t])"
    "x \<notin> nodes_span (thread_list rq # map thread_node (ts @ [t]))"
  shows "snd (thread_run_queue_add t (rq, m)) x = m x"
proof -
  have d: "dll m (thread_list rq) (map thread_node ts)" using assms(1) by (simp add: rq_rep_def)
  have "list_prev m (thread_list rq) \<in> set (thread_list rq # map thread_node ts)"
    using dll_last [OF d] last_in_ring by metis
  then show ?thesis
    using list_insert_outside [OF assms(2) [unfolded rq_room_def] _ assms(3)]
    by (auto simp: thread_run_queue_add_def list_add_tail_def)
qed

lemma rq_remove_outside:
  assumes "rq_rep (rq, m) (t # ts)" "x \<notin> nodes_span (thread_list rq # map thread_node (t # ts))"
  shows "snd (thread_runqueue_remove t (rq, m)) x = m x"
  using assms list_del_outside [of m "thread_list rq" "[]" "thread_node t" "map thread_node ts" x]
  by (simp add: rq_rep_def thread_runqueue_remove_def)

lemma rq_rep_cong:
  assumes "rq_rep (rq, m) ts" "\<And>x. x \<in> nodes_span (thread_list rq # map thread_node ts) \<Longrightarrow> m' x = m x"
  shows "rq_rep (rq, m') ts"
  using assms(1) dll_cong [OF assms(2)] by (simp add: rq_rep_def)

end
