(* ===== verification/Thread_Sched.thy ===== *)
theory Thread_Sched
  imports Run_Queue
begin

text \<open>
  The invariant of the thread module and its preservation. A thread known to the scheduler is
  a \<open>tinfo\<close>: the heap blocks that hold its \<open>struct thread\<close> and its stack, and the function and
  argument it was created with. \<open>sched_inv\<close> says that the heap is intact, the run queue holds
  the threads \<open>q\<close>, their blocks are distinct live heap blocks, and every thread that waits
  (the queue and the idle thread) has the stack frame of a thread that never ran.
\<close>

section \<open>Threads and the memory they own\<close>

record tinfo =
  tblk :: block
  sblk :: block
  tfn :: u32
  targ :: u32

definition taddr :: "tinfo \<Rightarrow> u32" where
  "taddr ti = fst (tblk ti) + 12"

definition stack_top :: "tinfo \<Rightarrow> u32" where
  "stack_top ti = fst (sblk ti) + 12 + THREAD_DEFAULT_STACK_SIZE"

definition tinfo_ok :: "tinfo \<Rightarrow> bool" where
  "tinfo_ok ti \<longleftrightarrow> 28 \<le> unat (snd (tblk ti)) \<and> 4096 \<le> unat (snd (sblk ti))"

definition blocks_of :: "tinfo list \<Rightarrow> block list" where
  "blocks_of tis = concat (map (\<lambda>ti. [tblk ti, sblk ti]) tis)"

definition thread_fresh :: "symbols \<Rightarrow> mem \<Rightarrow> tinfo \<Rightarrow> bool" where
  "thread_fresh sy m ti \<longleftrightarrow> thread_ready m (taddr ti)
     \<and> thread_stack_ptr m (taddr ti) = stack_top ti - 32
     \<and> load32 m (stack_top ti - 32) = 0 \<and> load32 m (stack_top ti - 28) = 0
     \<and> load32 m (stack_top ti - 24) = 0 \<and> load32 m (stack_top ti - 20) = 0
     \<and> load32 m (stack_top ti - 16) = sym_thread_main sy \<and> load32 m (stack_top ti - 12) = 0
     \<and> load32 m (stack_top ti - 8) = tfn ti \<and> load32 m (stack_top ti - 4) = targ ti"

definition owns :: "block list \<Rightarrow> tinfo list \<Rightarrow> bool" where
  "owns al tis \<longleftrightarrow> distinct (blocks_of tis) \<and> set (blocks_of tis) \<subseteq> set al \<and> (\<forall>ti \<in> set tis. tinfo_ok ti)"

definition user_bytes :: "block list \<Rightarrow> tinfo list \<Rightarrow> u32 set" where
  "user_bytes al tis = (\<Union>b \<in> set al - set (blocks_of tis). data_bytes b)"

definition sched_inv :: "symbols \<Rightarrow> nat \<Rightarrow> nat \<Rightarrow> kstate \<Rightarrow> block list \<Rightarrow> tinfo \<Rightarrow> tinfo list
    \<Rightarrow> tinfo list \<Rightarrow> bool" where
  "sched_inv sy lo hi s al idl q run \<longleftrightarrow>
     heap_has (sym_free_list sy) lo hi (ram s) al
     \<and> node_ok (thread_list (run_queue s))
     \<and> span (thread_list (run_queue s)) 8 \<inter> heap_region (sym_free_list sy) lo hi = {}
     \<and> rq_rep (run_queue s, ram s) (map taddr q)
     \<and> idle_thread s = taddr idl \<and> owns al (run @ idl # q)
     \<and> (\<forall>ti \<in> set (idl # q). thread_fresh sy (ram s) ti)"

lemma blocks_of_simps [simp]:
  "blocks_of [] = []" "blocks_of (ti # tis) = tblk ti # sblk ti # blocks_of tis"
  "blocks_of (xs @ ys) = blocks_of xs @ blocks_of ys"
  by (simp_all add: blocks_of_def)

lemma set_blocks_of: "ti \<in> set tis \<Longrightarrow> tblk ti \<in> set (blocks_of tis) \<and> sblk ti \<in> set (blocks_of tis)"
  by (auto simp: blocks_of_def)

lemma distinct_blocks_of:
  assumes "distinct (blocks_of tis)" "ti \<in> set tis"
  shows "tblk ti \<noteq> sblk ti" "\<And>tj. tj \<in> set tis \<Longrightarrow> tj \<noteq> ti \<Longrightarrow>
     tblk ti \<noteq> tblk tj \<and> tblk ti \<noteq> sblk tj \<and> sblk ti \<noteq> tblk tj \<and> sblk ti \<noteq> sblk tj"
  using assms by (induction tis) (auto dest: set_blocks_of)

lemma span_self: "x \<in> span x (Suc n)"
  by (simp add: span_def)

lemma spans_disjoint_apart:
  assumes "span x 8 \<inter> span y 8 = {}"
  shows "apart x 8 y 8"
proof (rule ccontr)
  assume "\<not> apart x 8 y 8"
  then have "y \<in> span x 8 \<inter> span y 8 \<or> x \<in> span x 8 \<inter> span y 8"
    by (auto simp: apart_def span_def)
  with assms show False by blast
qed

lemma nodes_ok_spans:
  assumes "\<forall>x \<in> set xs. node_ok x" "sorted_wrt (\<lambda>x y. span x 8 \<inter> span y 8 = {}) xs"
  shows "nodes_ok xs"
proof -
  have "x \<in> span x 8" for x by (simp add: span_def)
  then have "distinct xs" using assms(2) by (induction xs) auto
  moreover have "apart x 8 y 8" if "x \<in> set xs" "y \<in> set xs" "x \<noteq> y" for x y
    by (rule spans_disjoint_apart, rule sorted_wrt_pair [OF assms(2)]) (use that in auto)
  ultimately show ?thesis using assms(1) by (simp add: nodes_ok_def)
qed

text \<open>Live heap blocks.\<close>

lemma data_disjoint:
  assumes "heap_has fl lo hi m al" "b \<in> set al" "c \<in> set al" "b \<noteq> c"
  shows "data_bytes b \<inter> data_bytes c = {}"
  by (rule sorted_wrt_pair [OF kheap.inv_apart [OF assms(1)]]) (use assms in auto)

lemma thread_addr:
  assumes "heap_has fl lo hi m al" "tblk ti \<in> set al" "tinfo_ok ti"
  shows "aligned4 (taddr ti)" "taddr ti \<noteq> 0" "unat (taddr ti) + 28 < 4294967296"
    "span (taddr ti) 28 \<subseteq> data_bytes (tblk ti)" "node_ok (thread_node (taddr ti))"
    "unat (thread_node (taddr ti)) = unat (taddr ti) + 20"
proof -
  note d = kheap.inv_data [OF assms(1,2)]
  from d assms(3) show a: "aligned4 (taddr ti)" "taddr ti \<noteq> 0" "unat (taddr ti) + 28 < 4294967296"
    "span (taddr ti) 28 \<subseteq> data_bytes (tblk ti)"
    by (auto simp: taddr_def tinfo_ok_def data_bytes_def span_def)
  show n: "unat (thread_node (taddr ti)) = unat (taddr ti) + 20"
    using a(3) by (simp add: thread_node_def addr_simps)
  show "node_ok (thread_node (taddr ti))"
    using a n by (simp add: node_ok_def thread_node_def)
qed

lemma stack_addr:
  assumes "heap_has fl lo hi m al" "sblk ti \<in> set al" "tinfo_ok ti"
  shows "aligned4 (stack_top ti)" "unat (stack_top ti) = unat (fst (sblk ti) + 12) + 4096"
    "span (fst (sblk ti) + 12) 4096 \<subseteq> data_bytes (sblk ti)"
proof -
  note d = kheap.inv_data [OF assms(1,2)]
  show u: "unat (stack_top ti) = unat (fst (sblk ti) + 12) + 4096"
    using d assms(3) unfolding stack_top_def THREAD_DEFAULT_STACK_SIZE_def tinfo_ok_def
    by (intro unat_plus_numeral) linarith
  have "aligned4 (fst (sblk ti) + 12)" using d by simp
  then show "aligned4 (stack_top ti)" using u unfolding aligned4_def by presburger
  show "span (fst (sblk ti) + 12) 4096 \<subseteq> data_bytes (sblk ti)"
    using assms(3) by (auto simp: tinfo_ok_def data_bytes_def span_def)
qed

text \<open>The bytes on which the freshness of a thread depends: its fields and its first frame.\<close>

definition fresh_bytes :: "tinfo \<Rightarrow> u32 set" where
  "fresh_bytes ti = span (taddr ti) 20 \<union> span (fst (sblk ti) + 12) 4096"

lemma load32_same:
  assumes "aligned4 a" "span a 4 \<subseteq> S" "\<And>x. x \<in> S \<Longrightarrow> m' x = m x"
  shows "load32 m' a = load32 m a"
  using assms by (intro load32_cong) auto

lemma fresh_cong:
  assumes hh: "heap_has fl lo hi m0 al" and blk: "tblk ti \<in> set al" "sblk ti \<in> set al" and ok: "tinfo_ok ti"
    and same: "\<And>x. x \<in> fresh_bytes ti \<Longrightarrow> m' x = m x"
  shows "thread_fresh sy m' ti = thread_fresh sy m ti"
proof -
  note t = thread_addr [OF hh blk(1) ok] and s = stack_addr [OF hh blk(2) ok]
  have "unat (taddr ti + 16) = unat (taddr ti) + 16" "unat (taddr ti + 8) = unat (taddr ti) + 8"
    using t(3) by (simp_all add: addr_simps)
  then have "taddr ti + 16 \<in> fresh_bytes ti" "span (taddr ti + 8) 4 \<subseteq> fresh_bytes ti"
    by (auto simp: fresh_bytes_def span_def)
  then have r: "thread_ready m' (taddr ti) = thread_ready m (taddr ti)"
    "thread_stack_ptr m' (taddr ti) = thread_stack_ptr m (taddr ti)"
    using same t(1) load32_same [of "taddr ti + 8" "fresh_bytes ti" m' m]
    by (simp_all add: thread_ready_def load8_def thread_stack_ptr_def)
  have w: "load32 m' (stack_top ti - k) = load32 m (stack_top ti - k)"
    if "aligned4 k" "4 \<le> unat k" "unat k \<le> 32" for k
  proof (rule load32_same [of _ "fresh_bytes ti"])
    show "aligned4 (stack_top ti - k)" using s(1) that(1) by (rule aligned4_minus)
    have "unat (stack_top ti - k) = unat (stack_top ti) - unat k"
      by (rule unat_sub_u32) (use s(2) that in simp)
    then show "span (stack_top ti - k) 4 \<subseteq> fresh_bytes ti"
      using s(2) that by (auto simp: fresh_bytes_def span_def)
  qed (rule same)
  have "load32 m' (stack_top ti - k) = load32 m (stack_top ti - k)"
    if "k \<in> {4, 8, 12, 16, 20, 24, 28, 32}" for k
    by (rule w) (use that in \<open>auto simp: aligned4_numerals\<close>)
  then show ?thesis by (simp add: thread_fresh_def r)
qed

lemma owns_member:
  assumes "owns al tis" "ti \<in> set tis"
  shows "tblk ti \<in> set al" "sblk ti \<in> set al" "tinfo_ok ti" "tblk ti \<noteq> sblk ti"
  using assms set_blocks_of [OF assms(2)] distinct_blocks_of(1) [of tis ti] by (auto simp: owns_def)

lemma owns_subset: "owns al tis \<Longrightarrow> tis = xs @ ys \<Longrightarrow> owns al xs \<and> owns al ys"
  by (auto simp: owns_def)

lemma fresh_bytes_data:
  assumes "heap_has fl lo hi m al" "owns al tis" "ti \<in> set tis"
  shows "fresh_bytes ti \<subseteq> data_bytes (tblk ti) \<union> data_bytes (sblk ti)"
proof -
  note o = owns_member [OF assms(2,3)]
  have "span (taddr ti) 20 \<subseteq> span (taddr ti) 28" by (auto simp: span_def)
  with thread_addr(4) [OF assms(1) o(1,3)] stack_addr(3) [OF assms(1) o(2,3)] show ?thesis
    by (auto simp: fresh_bytes_def)
qed

lemma node_bytes_data:
  assumes "heap_has fl lo hi m al" "owns al tis" "ti \<in> set tis"
  shows "span (thread_node (taddr ti)) 8 \<subseteq> data_bytes (tblk ti)"
    "span (thread_node (taddr ti)) 8 \<inter> fresh_bytes ti = {}"
proof -
  note o = owns_member [OF assms(2,3)]
  note t = thread_addr [OF assms(1) o(1,3)]
  show "span (thread_node (taddr ti)) 8 \<subseteq> data_bytes (tblk ti)"
    using t(4,6) by (auto simp: span_def)
  then have "span (thread_node (taddr ti)) 8 \<inter> span (fst (sblk ti) + 12) 4096 = {}"
    using stack_addr(3) [OF assms(1) o(2,3)] data_disjoint [OF assms(1) o(1,2,4)] by blast
  then show "span (thread_node (taddr ti)) 8 \<inter> fresh_bytes ti = {}"
    using t(6) by (auto simp: fresh_bytes_def span_def)
qed

lemma tinfo_disjoint:
  assumes "heap_has fl lo hi m al" "owns al tis" "ti \<in> set tis" "tj \<in> set tis" "ti \<noteq> tj"
  shows "(data_bytes (tblk ti) \<union> data_bytes (sblk ti)) \<inter> (data_bytes (tblk tj) \<union> data_bytes (sblk tj)) = {}"
proof -
  have d: "distinct (blocks_of tis)" using assms(2) by (simp add: owns_def)
  note oi = owns_member [OF assms(2,3)] and oj = owns_member [OF assms(2,4)]
  note n = distinct_blocks_of(2) [OF d assms(3,4)] assms(5)
  show ?thesis
    using n data_disjoint [OF assms(1) oi(1) oj(1)] data_disjoint [OF assms(1) oi(1) oj(2)]
      data_disjoint [OF assms(1) oi(2) oj(1)] data_disjoint [OF assms(1) oi(2) oj(2)] by blast
qed

lemma nodes_avoid_fresh:
  assumes "heap_has fl lo hi m al" "owns al tis" "ti \<in> set tis" "set q \<subseteq> set tis"
    "span h 8 \<inter> heap_region fl lo hi = {}" "x \<in> fresh_bytes ti"
  shows "x \<notin> nodes_span (h # map thread_node (map taddr q))"
proof -
  have x: "x \<in> data_bytes (tblk ti) \<union> data_bytes (sblk ti)"
    using fresh_bytes_data [OF assms(1-3)] assms(6) by blast
  note o = owns_member [OF assms(2,3)]
  have "x \<notin> span h 8"
    using x kheap.inv_data [OF assms(1) o(1)] kheap.inv_data [OF assms(1) o(2)] assms(5) by blast
  moreover have "x \<notin> span (thread_node (taddr tj)) 8" if "tj \<in> set q" for tj
  proof (cases "tj = ti")
    case True
    then show ?thesis using node_bytes_data(2) [OF assms(1-3)] assms(6) by blast
  next
    case False
    have "tj \<in> set tis" using that assms(4) by blast
    with False show ?thesis
      using x tinfo_disjoint [OF assms(1-3), of tj] node_bytes_data(1) [OF assms(1,2), of tj] by blast
  qed
  ultimately show ?thesis by (auto simp: nodes_span_def)
qed

lemma owns_room:
  assumes hh: "heap_has fl lo hi m al" and o: "owns al q"
    and h: "node_ok h" "span h 8 \<inter> heap_region fl lo hi = {}"
  shows "rq_room h (map taddr q)"
  unfolding rq_room_def
proof (rule nodes_ok_spans)
  show "\<forall>x \<in> set (h # map thread_node (map taddr q)). node_ok x"
    using h(1) thread_addr(5) [OF hh] owns_member [OF o] by auto
  have "span h 8 \<inter> span (thread_node (taddr ti)) 8 = {}" if "ti \<in> set q" for ti
    using node_bytes_data(1) [OF hh o that] kheap.inv_data [OF hh owns_member(1) [OF o that]] h(2) by blast
  moreover have "sorted_wrt (\<lambda>x y. span x 8 \<inter> span y 8 = {}) (map (\<lambda>ti. thread_node (taddr ti)) q)"
    using o
  proof (induction q)
    case (Cons ti q)
    have d: "span (thread_node (taddr ti)) 8 \<inter> span (thread_node (taddr tj)) 8 = {}" if "tj \<in> set q" for tj
    proof -
      have "ti \<noteq> tj" using Cons.prems that set_blocks_of [OF that] by (auto simp: owns_def)
      then show ?thesis
        using tinfo_disjoint [OF hh Cons.prems, of ti tj] node_bytes_data(1) [OF hh Cons.prems] that
        by fastforce
    qed
    have "owns al q" using Cons.prems by (auto simp: owns_def)
    with Cons.IH d show ?case by simp
  qed simp
  ultimately show "sorted_wrt (\<lambda>x y. span x 8 \<inter> span y 8 = {}) (h # map thread_node (map taddr q))"
    by (simp add: comp_def)
qed

section \<open>What other code may change\<close>

lemma owned_not_user:
  assumes "heap_has fl lo hi m al" "b \<in> set al" "b \<in> set (blocks_of tis)"
  shows "data_bytes b \<inter> user_bytes al tis = {}"
  using data_disjoint [OF assms(1,2)] assms(3) by (fastforce simp: user_bytes_def)

text \<open>
  The invariant survives every step that leaves alone the heap's own bookkeeping, the head of
  the run queue and the blocks of waiting threads.
\<close>

lemma sched_inv_frame:
  assumes inv: "sched_inv sy lo hi s al idl q run"
    and st: "run_queue s' = run_queue s" "idle_thread s' = idle_thread s"
    and same: "\<And>x. x \<notin> user_bytes al (idl # q) \<Longrightarrow>
       x \<in> heap_region (sym_free_list sy) lo hi \<union> span (thread_list (run_queue s)) 8 \<Longrightarrow> ram s' x = ram s x"
  shows "sched_inv sy lo hi s' al idl q run"
proof -
  let ?fl = "sym_free_list sy" and ?h = "thread_list (run_queue s)"
  have hh: "heap_has ?fl lo hi (ram s) al" and h: "span ?h 8 \<inter> heap_region ?fl lo hi = {}"
    and rq: "rq_rep (run_queue s, ram s) (map taddr q)" and o: "owns al (run @ idl # q)"
    using inv by (simp_all add: sched_inv_def)
  have o': "owns al (idl # q)" using owns_subset [OF o refl] by simp
  have user: "user_bytes al (idl # q) \<subseteq> (\<Union>b \<in> set al. data_bytes b)"
    "user_bytes al (idl # q) \<subseteq> heap_region ?fl lo hi"
    using kheap.inv_data [OF hh] by (auto simp: user_bytes_def)
  have own: "ram s' x = ram s x" if "ti \<in> set (idl # q)" "x \<in> data_bytes (tblk ti) \<union> data_bytes (sblk ti)" for ti x
  proof (rule same)
    note m = owns_member [OF o' that(1)] and b = set_blocks_of [OF that(1)]
    show "x \<notin> user_bytes al (idl # q)"
      using owned_not_user [OF hh m(1)] owned_not_user [OF hh m(2)] b that(2) by blast
    show "x \<in> heap_region ?fl lo hi \<union> span ?h 8"
      using kheap.inv_data [OF hh m(1)] kheap.inv_data [OF hh m(2)] that(2) by blast
  qed
  have head: "ram s' x = ram s x" if "x \<in> span ?h 8" for x
    using same that user(2) h by blast
  have "heap_has ?fl lo hi (ram s') al"
    by (rule kheap.inv_frame [OF hh]) (use same user in blast)
  moreover have "rq_rep (run_queue s', ram s') (map taddr q)"
    unfolding st
  proof (rule rq_rep_cong [OF rq])
    fix x assume "x \<in> nodes_span (?h # map thread_node (map taddr q))"
    then consider "x \<in> span ?h 8" | ti where "ti \<in> set q" "x \<in> span (thread_node (taddr ti)) 8"
      by (auto simp: nodes_span_def)
    then show "ram s' x = ram s x"
    proof cases
      case 2
      then have "x \<in> data_bytes (tblk ti)" using node_bytes_data(1) [OF hh o', of ti] by auto
      then show ?thesis using own [of ti x] 2(1) by simp
    qed (rule head)
  qed
  moreover have "thread_fresh sy (ram s') ti" if "ti \<in> set (idl # q)" for ti
  proof -
    have "ram s' x = ram s x" if "x \<in> fresh_bytes ti" for x
      using own [OF \<open>ti \<in> set (idl # q)\<close>] fresh_bytes_data [OF hh o' \<open>ti \<in> set (idl # q)\<close>] that by blast
    then show ?thesis
      using fresh_cong [OF hh owns_member(1-3) [OF o' that], of "ram s'" "ram s" sy] that inv
      by (auto simp: sched_inv_def)
  qed
  ultimately show ?thesis using inv st by (simp add: sched_inv_def)
qed

section \<open>The queue operations keep the invariant\<close>

lemma sched_add:
  assumes inv: "sched_inv sy lo hi s al idl q run" and o: "owns al (run @ idl # q @ [ti])"
    and fr: "thread_fresh sy (ram s) ti"
    and qm: "thread_run_queue_add (taddr ti) (run_queue s, ram s) = (rq, m)"
  shows "sched_inv sy lo hi (s\<lparr>run_queue := rq, ram := m\<rparr>) al idl (q @ [ti]) run"
proof -
  let ?fl = "sym_free_list sy" and ?h = "thread_list (run_queue s)"
  have hh: "heap_has ?fl lo hi (ram s) al" and h: "node_ok ?h" "span ?h 8 \<inter> heap_region ?fl lo hi = {}"
    and rq: "rq_rep (run_queue s, ram s) (map taddr q)"
    using inv by (simp_all add: sched_inv_def)
  have ow: "owns al (idl # q @ [ti])" "owns al (q @ [ti])"
    using owns_subset [OF o refl] by (auto simp: owns_def)
  have room: "rq_room ?h (map taddr q @ [taddr ti])" using owns_room [OF hh ow(2) h] by simp
  have out: "m x = ram s x" if "x \<notin> nodes_span (?h # map thread_node (map taddr (q @ [ti])))" for x
    using rq_add_outside [OF rq room, of x] qm that by simp
  have hl: "thread_list rq = ?h" using thread_list_ops(1) [of "taddr ti" "(run_queue s, ram s)"] qm by simp
  have "heap_has ?fl lo hi m al"
  proof (rule kheap.inv_frame [OF hh])
    fix x assume x: "x \<notin> (\<Union>b \<in> set al. data_bytes b)" "x \<in> heap_region ?fl lo hi"
    have "x \<notin> span (thread_node (taddr tj)) 8" if "tj \<in> set (q @ [ti])" for tj
      using node_bytes_data(1) [OF hh ow(2) that] owns_member(1) [OF ow(2) that] x(1) by blast
    then show "m x = ram s x" using x(2) h(2) by (intro out) (auto simp: nodes_span_def)
  qed
  moreover have "rq_rep (rq, m) (map taddr (q @ [ti]))" using rq_add [OF rq room] qm by simp
  moreover have "thread_fresh sy m tj" if "tj \<in> set (idl # q @ [ti])" for tj
  proof -
    have "m x = ram s x" if "x \<in> fresh_bytes tj" for x
      by (rule out, rule nodes_avoid_fresh [OF hh ow(1) \<open>tj \<in> set (idl # q @ [ti])\<close> _ h(2) that]) auto
    then show ?thesis
      using fresh_cong [OF hh owns_member(1-3) [OF ow(1) that], of m "ram s" sy] that inv fr
      by (auto simp: sched_inv_def)
  qed
  ultimately show ?thesis using inv o hl by (simp add: sched_inv_def)
qed

lemma sched_next_queued:
  assumes inv: "sched_inv sy lo hi s al idl (ti # q) run"
  obtains rq m where "thread_get_next s = Inr (taddr ti, s\<lparr>run_queue := rq, ram := m\<rparr>)"
    "sched_inv sy lo hi (s\<lparr>run_queue := rq, ram := m\<rparr>) al idl q run"
    "thread_fresh sy m ti" "thread_list rq = thread_list (run_queue s)"
    "\<And>x. x \<notin> nodes_span (thread_list (run_queue s) # map thread_node (map taddr (ti # q))) \<Longrightarrow> m x = ram s x"
proof -
  let ?fl = "sym_free_list sy" and ?h = "thread_list (run_queue s)"
  have hh: "heap_has ?fl lo hi (ram s) al" and h: "span ?h 8 \<inter> heap_region ?fl lo hi = {}"
    and rep: "rq_rep (run_queue s, ram s) (taddr ti # map taddr q)" and o: "owns al (run @ idl # ti # q)"
    using inv by (simp_all add: sched_inv_def)
  have ow: "owns al (idl # ti # q)" "owns al (run @ idl # q)"
    using owns_subset [OF o refl] o by (auto simp: owns_def)
  obtain rq m where qm: "thread_runqueue_remove (taddr ti) (run_queue s, ram s) = (rq, m)" by fastforce
  have out: "m x = ram s x" if "x \<notin> nodes_span (?h # map thread_node (map taddr (ti # q)))" for x
    using rq_remove_outside [OF rep, of x] qm that by simp
  have hl: "thread_list rq = ?h" using thread_list_ops(2) [of "taddr ti" "(run_queue s, ram s)"] qm by simp
  have nxt: "thread_get_next s = Inr (taddr ti, s\<lparr>run_queue := rq, ram := m\<rparr>)"
    using rq_pop [OF rep] rq_empty [OF rep] qm by (simp add: thread_get_next_def)
  have h': "heap_has ?fl lo hi m al"
  proof (rule kheap.inv_frame [OF hh])
    fix x assume x: "x \<notin> (\<Union>b \<in> set al. data_bytes b)" "x \<in> heap_region ?fl lo hi"
    have "x \<notin> span (thread_node (taddr tj)) 8" if "tj \<in> set (ti # q)" for tj
      using node_bytes_data(1) [OF hh ow(1), of tj] owns_member(1) [OF ow(1), of tj] x(1) that by auto
    then show "m x = ram s x" using x(2) h by (intro out) (auto simp: nodes_span_def)
  qed
  have fr: "thread_fresh sy m tj" if "tj \<in> set (idl # ti # q)" for tj
  proof -
    have "m x = ram s x" if "x \<in> fresh_bytes tj" for x
      by (rule out, rule nodes_avoid_fresh [OF hh ow(1) \<open>tj \<in> set (idl # ti # q)\<close> _ h that]) auto
    then show ?thesis
      using fresh_cong [OF hh owns_member(1-3) [OF ow(1) that], of m "ram s" sy] that inv
      by (auto simp: sched_inv_def)
  qed
  have "rq_rep (rq, m) (map taddr q)" using rq_remove_first [OF rep] qm by simp
  with inv h' fr hl ow(2) have "sched_inv sy lo hi (s\<lparr>run_queue := rq, ram := m\<rparr>) al idl q run"
    by (simp add: sched_inv_def)
  with nxt fr hl out show thesis by (intro that [of m rq]) auto
qed

lemma sched_next_idle:
  assumes "sched_inv sy lo hi s al idl [] run"
  shows "thread_get_next s = Inr (taddr idl, s)"
  using assms rq_empty [of "run_queue s" "ram s" "[]"] by (simp add: thread_get_next_def sched_inv_def)

end
