(* ===== verification/Thread_Ops.thy ===== *)
theory Thread_Ops
  imports Thread_Sched
begin

text \<open>
  The entry points of \<open>thread.c\<close>: \<open>thread_struct_init\<close>, \<open>thread_create\<close>, \<open>thread_init\<close>, the exit of
  a thread through \<open>thread_reschedule\<close>, and \<open>thread_start_scheduler\<close>, each shown to establish
  or keep \<open>sched_inv\<close> and to have the effect the code means it to have.
\<close>

section \<open>\<open>thread_struct_init\<close>\<close>

lemma store32_byte:
  assumes "aligned4 a" "aligned4 w" "a \<noteq> w"
  shows "store32 m a v w = m w"
proof (rule store32_outside [OF assms(1)])
  have "w \<in> span w 4" by (simp add: span_def)
  then show "w \<notin> span a 4" using aligned4_disjoint [OF assms(2,1)] assms(3) by blast
qed

lemma load32_store8:
  assumes "aligned4 a" "aligned4 w" "a \<noteq> w"
  shows "load32 (store8 m w v) a = load32 m a"
proof (rule load32_cong [OF assms(1)])
  fix x assume x: "x \<in> span a 4"
  have "w \<in> span w 4" by (simp add: span_def)
  then have "x \<noteq> w" using aligned4_disjoint [OF assms x] by auto
  then show "store8 m w v x = m x" by simp
qed

lemma struct_stack_differ:
  assumes "unat t + 28 < 4294967296" "4096 \<le> unat tp"
    "span t 28 \<inter> span (tp - 4096) 4096 = {}" "unat j < 28" "4 \<le> unat k" "unat k \<le> 32"
  shows "t + j \<noteq> tp - k" "tp - k \<noteq> t + j"
proof -
  have "unat (t + j) = unat t + unat j" using assms(1,4) by (intro unat_add_u32) simp
  then have "t + j \<in> span t 28" using assms(4) by (simp add: span_def)
  moreover have "unat (tp - k) = unat tp - unat k" "unat (tp - 4096) = unat tp - 4096"
    using assms(2,6) by (simp_all add: unat_sub_u32)
  then have "tp - k \<in> span (tp - 4096) 4096" using assms(2,5,6) by (auto simp: span_def)
  ultimately show "t + j \<noteq> tp - k" "tp - k \<noteq> t + j" using assms(3) by auto
qed

lemma struct_init_words:
  assumes t: "aligned4 t" "unat t + 28 < 4294967296" and tp: "aligned4 tp" "4096 \<le> unat tp"
    and st: "stack + 4096 = tp" "span t 28 \<inter> span (tp - 4096) 4096 = {}"
    and s': "s' = thread_struct_init sy t name stack 4096 fn arg s"
  shows "thread_id (ram s') t = global_id_counter s" "thread_name (ram s') t = name"
    "thread_ready (ram s') t" "thread_stack_size (ram s') t = 4096"
    "thread_stack_ptr (ram s') t = tp - 32"
    "load32 (ram s') (tp - 32) = 0" "load32 (ram s') (tp - 28) = 0" "load32 (ram s') (tp - 24) = 0"
    "load32 (ram s') (tp - 20) = 0" "load32 (ram s') (tp - 16) = sym_thread_main sy"
    "load32 (ram s') (tp - 12) = 0" "load32 (ram s') (tp - 8) = fn" "load32 (ram s') (tp - 4) = arg"
proof -
  note ne = struct_stack_differ [OF t(2) tp(2) st(2)]
  have ne': "t + j \<noteq> tp - k \<and> tp - k \<noteq> t + j"
    if "j \<in> {0, 4, 8, 12, 16, 20, 24}" "k \<in> {4, 8, 12, 16, 20, 24, 28, 32}" for j k
    using that by (intro conjI ne) auto
  have al: "aligned4 (t + 16)" "aligned4 (t + 24)"
    using t(1) by (simp_all add: aligned4_plus aligned4_numerals)
  have off: "t + 20 + 4 = t + 24" by simp
  note d = ne' [of 0, simplified] ne' [of 4, simplified] ne' [of 8, simplified] ne' [of 12, simplified]
    ne' [of 16, simplified] ne' [of 20, simplified] ne' [of 24, simplified]
  note simps = s' thread_struct_init_def thread_setup_stack_def Let_def st(1) set_thread_ready_def
    list_node_init_def set_next_def set_prev_def thread_node_def off load32_store8 store32_byte
    thread_id_def thread_name_def thread_ready_def thread_stack_size_def thread_stack_ptr_def load8_def
  show "thread_id (ram s') t = global_id_counter s" "thread_name (ram s') t = name"
    using t tp al d by (simp_all add: simps)
  show "thread_ready (ram s') t" using t tp al d by (simp add: simps store8_def)
  show "thread_stack_size (ram s') t = 4096" "thread_stack_ptr (ram s') t = tp - 32"
    using t tp al d by (simp_all add: simps)
  show "load32 (ram s') (tp - 32) = 0" "load32 (ram s') (tp - 28) = 0" "load32 (ram s') (tp - 24) = 0"
    "load32 (ram s') (tp - 20) = 0" "load32 (ram s') (tp - 16) = sym_thread_main sy"
    "load32 (ram s') (tp - 12) = 0" "load32 (ram s') (tp - 8) = fn" "load32 (ram s') (tp - 4) = arg"
    using t tp al d by (simp_all add: simps)
qed

lemma struct_init_outside:
  assumes t: "aligned4 t" "unat t + 28 < 4294967296" and tp: "aligned4 tp" "4096 \<le> unat tp"
    and st: "stack + 4096 = tp"
    and s': "s' = thread_struct_init sy t name stack 4096 fn arg s"
    and x: "x \<notin> span t 28" "x \<notin> span (tp - 4096) 4096"
  shows "ram s' x = ram s x"
proof -
  have j: "x \<notin> span (t + j) 4" if "unat j \<le> 24" for j
    using x(1) that unat_add_u32 [of t j] t(2) by (auto simp: span_def)
  have k: "x \<notin> span (tp - k) 4" if "4 \<le> unat k" "unat k \<le> 32" for k
    using x(2) that tp(2) unat_sub_u32 [of k tp] unat_sub_u32 [of 4096 tp] by (auto simp: span_def)
  have "x \<noteq> t + 16" using j [of 16] by (auto simp: span_def)
  moreover have "t + 20 + 4 = t + 24" "aligned4 (t + 24)"
    using t(1) by (simp_all add: aligned4_plus aligned4_numerals)
  ultimately show ?thesis
    using t(1) tp(1) j [of 0] j [of 4] j [of 8] j [of 12] j [of 20] j [of 24]
      k [of 4] k [of 8] k [of 12] k [of 16] k [of 20] k [of 24] k [of 28] k [of 32]
    by (simp add: s' thread_struct_init_def thread_setup_stack_def Let_def st set_thread_ready_def
        list_node_init_def set_next_def set_prev_def thread_node_def store32_outside
        add.commute [of 24 t])
qed

lemma struct_init_static [simp]:
  "run_queue (thread_struct_init sy t name stack sz fn arg s) = run_queue s"
  "idle_thread (thread_struct_init sy t name stack sz fn arg s) = idle_thread s"
  "current_thread (thread_struct_init sy t name stack sz fn arg s) = current_thread s"
  "global_id_counter (thread_struct_init sy t name stack sz fn arg s) = global_id_counter s + 1"
  "esp (thread_struct_init sy t name stack sz fn arg s) = esp s"
  by (simp_all add: thread_struct_init_def thread_setup_stack_def Let_def)

section \<open>Creation\<close>

lemma heap_has_fresh_block:
  assumes "heap_has fl lo hi m (b # al)" "0 < unat (snd b)"
  shows "b \<notin> set al"
proof
  assume "b \<in> set al"
  then have "data_bytes b = {}" using kheap.inv_apart [OF assms(1)] by auto
  moreover have "fst b + 12 \<in> data_bytes b" using assms(2) by (simp add: data_bytes_def span_def)
  ultimately show False by simp
qed

text \<open>Both allocations succeed: a new thread on fresh memory, all other memory as before.\<close>

lemma create_blocks:
  assumes hh: "heap_has fl lo hi m0 al" and m1: "heap_malloc fl SIZEOF_THREAD m0 = Some (t, m1)" "t \<noteq> 0"
    and m2: "heap_malloc fl THREAD_DEFAULT_STACK_SIZE m1 = Some (stack, ram s)" "stack \<noteq> 0"
    and s': "s' = thread_struct_init sy t name stack THREAD_DEFAULT_STACK_SIZE fn arg s"
  obtains ti where "taddr ti = t" "tfn ti = fn" "targ ti = arg" "fst (sblk ti) + 12 = stack" "tinfo_ok ti"
    "heap_has fl lo hi (ram s') (sblk ti # tblk ti # al)" "distinct [tblk ti, sblk ti]"
    "tblk ti \<notin> set al" "sblk ti \<notin> set al" "thread_fresh sy (ram s') ti"
    "thread_id (ram s') t = global_id_counter s" "thread_name (ram s') t = name"
    "thread_stack_size (ram s') t = 4096"
    "\<And>d x. d \<in> set al \<Longrightarrow> x \<in> data_bytes d \<Longrightarrow> ram s' x = m0 x"
    "\<And>x. x \<notin> heap_region fl lo hi \<Longrightarrow> ram s' x = m0 x"
    "\<And>x. x \<notin> data_bytes (tblk ti) \<Longrightarrow> x \<notin> data_bytes (sblk ti) \<Longrightarrow> ram s' x = ram s x"
proof -
  have sz: "0 < SIZEOF_THREAD" "unat SIZEOF_THREAD = 28" "0 < THREAD_DEFAULT_STACK_SIZE"
    "unat THREAD_DEFAULT_STACK_SIZE = 4096"
    by (simp_all add: SIZEOF_THREAD_def THREAD_DEFAULT_STACK_SIZE_def)
  obtain b c where b: "t = fst b + 12" "stack = fst c + 12" "heap_has fl lo hi (ram s) (c # b # al)"
    "28 \<le> unat (snd b)" "4096 \<le> unat (snd c)" "data_bytes b \<inter> data_bytes c = {}"
    "\<And>d x. d \<in> set al \<Longrightarrow> x \<in> data_bytes d \<Longrightarrow> ram s x = m0 x" "\<And>x. x \<notin> heap_region fl lo hi \<Longrightarrow> ram s x = m0 x"
    by (rule kheap.malloc_twice [OF hh sz(1) _ sz(3) _ m1 m2, unfolded sz(2,4)]) (simp, simp, rule that)
  define ti where "ti = \<lparr>tblk = b, sblk = c, tfn = fn, targ = arg\<rparr>"
  have ok: "tinfo_ok ti" "taddr ti = t" using b by (simp_all add: ti_def tinfo_ok_def taddr_def)
  have blk: "tblk ti \<in> set (c # b # al)" "sblk ti \<in> set (c # b # al)" by (simp_all add: ti_def)
  note ta = thread_addr [OF b(3) blk(1) ok(1)] and sa = stack_addr [OF b(3) blk(2) ok(1)]
  have tp: "4096 \<le> unat (stack_top ti)" "stack + 4096 = stack_top ti" "stack_top ti - 4096 = stack"
    using sa(2) b(2) by (simp_all add: ti_def stack_top_def THREAD_DEFAULT_STACK_SIZE_def)
  have sub: "span t 28 \<subseteq> data_bytes b" "span stack 4096 \<subseteq> data_bytes c"
    using ta(4) sa(3) ok(2) b(2) by (simp_all add: ti_def)
  have dj: "span t 28 \<inter> span (stack_top ti - 4096) 4096 = {}"
    unfolding tp(3) using sub b(6) by blast
  note w = struct_init_words [OF ta(1,3) sa(1) tp(1,2), unfolded ok(2), OF dj s' [unfolded THREAD_DEFAULT_STACK_SIZE_def]]
  have out: "ram s' x = ram s x" if "x \<notin> data_bytes b" "x \<notin> data_bytes c" for x
    by (rule struct_init_outside [OF ta(1,3) sa(1) tp(1,2) s' [folded ok(2), unfolded THREAD_DEFAULT_STACK_SIZE_def]])
      (use that sub in \<open>auto simp only: tp(3) ok(2)\<close>)
  have hh': "heap_has fl lo hi (ram s') (c # b # al)"
    by (rule kheap.inv_frame [OF b(3)]) (use out in auto)
  have nin: "c \<notin> set (b # al)" "b \<notin> set al"
  proof -
    show "c \<notin> set (b # al)" by (rule heap_has_fresh_block [OF b(3)]) (use b(5) in simp)
    have "sorted_wrt (\<lambda>b c. data_bytes b \<inter> data_bytes c = {}) (b # al)"
      using kheap.inv_apart [OF b(3)] by simp
    moreover have "fst b + 12 \<in> data_bytes b" using b(4) by (simp add: data_bytes_def span_def)
    ultimately show "b \<notin> set al" by auto
  qed
  have keep: "ram s' x = m0 x" if "d \<in> set al" "x \<in> data_bytes d" for d x
    using out [of x] b(7) [OF that] data_disjoint [OF b(3), of d b] data_disjoint [OF b(3), of d c] nin that
    by fastforce
  have keep': "ram s' x = m0 x" if "x \<notin> heap_region fl lo hi" for x
    using out [of x] b(8) [OF that] kheap.inv_data [OF b(3), of b] kheap.inv_data [OF b(3), of c] that by auto
  show thesis
    by (rule that [of ti]) (use ok w hh' nin keep keep' b out in \<open>auto simp: ti_def thread_fresh_def taddr_def\<close>)
qed

lemma sched_inv_extend:
  assumes inv: "sched_inv sy lo hi s al idl q run"
    and st: "run_queue s' = run_queue s" "idle_thread s' = idle_thread s"
    and hh': "heap_has (sym_free_list sy) lo hi (ram s') al'" and sub: "set al \<subseteq> set al'"
    and same: "\<And>d x. d \<in> set al \<Longrightarrow> x \<in> data_bytes d \<Longrightarrow> ram s' x = ram s x"
      "\<And>x. x \<notin> heap_region (sym_free_list sy) lo hi \<Longrightarrow> ram s' x = ram s x"
  shows "sched_inv sy lo hi s' al' idl q run"
proof -
  let ?fl = "sym_free_list sy" and ?h = "thread_list (run_queue s)"
  have hh: "heap_has ?fl lo hi (ram s) al" and h: "span ?h 8 \<inter> heap_region ?fl lo hi = {}"
    and rq: "rq_rep (run_queue s, ram s) (map taddr q)" and o: "owns al (run @ idl # q)"
    using inv by (simp_all add: sched_inv_def)
  have o': "owns al (idl # q)" using owns_subset [OF o refl] by simp
  have own: "ram s' x = ram s x" if "ti \<in> set (idl # q)" "x \<in> data_bytes (tblk ti) \<union> data_bytes (sblk ti)" for ti x
    using same(1) owns_member(1,2) [OF o' that(1)] that(2) by blast
  have "rq_rep (run_queue s', ram s') (map taddr q)"
    unfolding st
  proof (rule rq_rep_cong [OF rq])
    fix x assume "x \<in> nodes_span (?h # map thread_node (map taddr q))"
    then consider "x \<in> span ?h 8" | ti where "ti \<in> set q" "x \<in> span (thread_node (taddr ti)) 8"
      by (auto simp: nodes_span_def)
    then show "ram s' x = ram s x"
    proof cases
      case 1
      then show ?thesis using same(2) h by blast
    next
      case 2
      then have "x \<in> data_bytes (tblk ti)" using node_bytes_data(1) [OF hh o', of ti] by auto
      then show ?thesis using own [of ti x] 2(1) by simp
    qed
  qed
  moreover have "thread_fresh sy (ram s') ti" if "ti \<in> set (idl # q)" for ti
  proof -
    have "ram s' x = ram s x" if "x \<in> fresh_bytes ti" for x
      using own [OF \<open>ti \<in> set (idl # q)\<close>] fresh_bytes_data [OF hh o' \<open>ti \<in> set (idl # q)\<close>] that by blast
    then show ?thesis
      using fresh_cong [OF hh owns_member(1-3) [OF o' that], of "ram s'" "ram s" sy] that inv
      by (auto simp: sched_inv_def)
  qed
  ultimately show ?thesis using inv st hh' sub by (auto simp: sched_inv_def owns_def)
qed

lemma thread_create_ok:
  assumes inv: "sched_inv sy lo hi s al idl q run"
    and m1: "heap_malloc (sym_free_list sy) SIZEOF_THREAD (ram s) = Some (t, m1)" "t \<noteq> 0"
    and m2: "heap_malloc (sym_free_list sy) THREAD_DEFAULT_STACK_SIZE m1 = Some (stack, m2)" "stack \<noteq> 0"
  obtains ti s' where "thread_create sy name fn arg s = Inr (0, Some t, s')"
    "taddr ti = t" "tfn ti = fn" "targ ti = arg"
    "sched_inv sy lo hi s' (sblk ti # tblk ti # al) idl (q @ [ti]) run"
    "thread_id (ram s') t = global_id_counter s" "thread_name (ram s') t = name"
    "global_id_counter s' = global_id_counter s + 1" "current_thread s' = current_thread s"
    "idle_thread s' = idle_thread s" "tblk ti \<notin> set al" "sblk ti \<notin> set al" "fst (sblk ti) + 12 = stack"
    "\<And>x. x \<notin> (\<Union>b \<in> set (sblk ti # tblk ti # al). data_bytes b) \<Longrightarrow>
       x \<in> heap_region (sym_free_list sy) lo hi \<Longrightarrow> ram s' x = m2 x"
    "esp s' = esp s" "thread_list (run_queue s') = thread_list (run_queue s)"
proof -
  let ?fl = "sym_free_list sy" and ?s2 = "s\<lparr>ram := m2\<rparr>"
  define s3 where "s3 = thread_struct_init sy t name stack THREAD_DEFAULT_STACK_SIZE fn arg ?s2"
  have hh: "heap_has ?fl lo hi (ram s) al" and o: "owns al (run @ idl # q)"
    and h: "span (thread_list (run_queue s)) 8 \<inter> heap_region ?fl lo hi = {}"
    using inv by (simp_all add: sched_inv_def)
  have m2': "heap_malloc ?fl THREAD_DEFAULT_STACK_SIZE m1 = Some (stack, ram ?s2)" using m2(1) by simp
  obtain ti where ti: "taddr ti = t" "tfn ti = fn" "targ ti = arg" "tinfo_ok ti"
    "heap_has ?fl lo hi (ram s3) (sblk ti # tblk ti # al)" "distinct [tblk ti, sblk ti]"
    "tblk ti \<notin> set al" "sblk ti \<notin> set al" "thread_fresh sy (ram s3) ti"
    "thread_id (ram s3) t = global_id_counter s" "thread_name (ram s3) t = name"
    "\<And>d x. d \<in> set al \<Longrightarrow> x \<in> data_bytes d \<Longrightarrow> ram s3 x = ram s x"
    "\<And>x. x \<notin> heap_region ?fl lo hi \<Longrightarrow> ram s3 x = ram s x" "fst (sblk ti) + 12 = stack"
    "\<And>x. x \<notin> data_bytes (tblk ti) \<Longrightarrow> x \<notin> data_bytes (sblk ti) \<Longrightarrow> ram s3 x = m2 x"
    by (rule create_blocks [OF hh m1 m2' m2(2) s3_def]) auto
  have i3: "sched_inv sy lo hi s3 (sblk ti # tblk ti # al) idl q run"
    by (rule sched_inv_extend [OF inv _ _ ti(5) _ ti(12,13)]) (auto simp: s3_def)
  have o3: "owns (sblk ti # tblk ti # al) (run @ idl # q @ [ti])"
    using o ti(4,6,7,8) by (auto simp: owns_def)
  obtain rq m where qm: "thread_run_queue_add (taddr ti) (run_queue s3, ram s3) = (rq, m)" by fastforce
  let ?s' = "s3\<lparr>run_queue := rq, ram := m\<rparr>"
  have rep: "rq_rep (run_queue s3, ram s3) (map taddr q)" and hn: "node_ok (thread_list (run_queue s3))"
    "span (thread_list (run_queue s3)) 8 \<inter> heap_region ?fl lo hi = {}"
    using i3 by (simp_all add: sched_inv_def)
  have oq: "owns (sblk ti # tblk ti # al) (q @ [ti])" using o3 by (auto simp: owns_def)
  have room: "rq_room (thread_list (run_queue s3)) (map taddr q @ [taddr ti])"
    using owns_room [OF ti(5) oq hn] by simp
  have same: "load32 m a = load32 (ram s3) a" if "aligned4 a" "span a 4 \<subseteq> fresh_bytes ti" for a
  proof (rule load32_same [OF that])
    fix x assume x: "x \<in> fresh_bytes ti"
    have "x \<notin> nodes_span (thread_list (run_queue s3) # map thread_node (map taddr (q @ [ti])))"
      by (rule nodes_avoid_fresh [OF ti(5) oq _ _ hn(2) x]) auto
    then show "m x = ram s3 x" using rq_add_outside [OF rep room, of x] qm by simp
  qed
  have ta: "aligned4 t" "unat t + 28 < 4294967296"
    using thread_addr [OF ti(5) _ ti(4)] ti(1) by auto
  then have "span t 4 \<subseteq> span (taddr ti) 20" "span (t + 4) 4 \<subseteq> span (taddr ti) 20"
    by (auto simp: ti(1) span_def addr_simps)
  then have "span t 4 \<subseteq> fresh_bytes ti" "span (t + 4) 4 \<subseteq> fresh_bytes ti"
    unfolding fresh_bytes_def by blast+
  then have f: "thread_id m t = global_id_counter s" "thread_name m t = name"
    using ti(10,11) same [of t] same [of "t + 4"] ta by (simp_all add: thread_id_def thread_name_def)
  have keep: "m x = m2 x" if x: "x \<notin> (\<Union>b \<in> set (sblk ti # tblk ti # al). data_bytes b)" "x \<in> heap_region ?fl lo hi" for x
  proof -
    have "x \<notin> span (thread_node (taddr tj)) 8" if "tj \<in> set (q @ [ti])" for tj
      using node_bytes_data(1) [OF ti(5) oq that] owns_member(1) [OF oq that] x(1) by blast
    then have "x \<notin> nodes_span (thread_list (run_queue s3) # map thread_node (map taddr (q @ [ti])))"
      using x(2) hn(2) by (auto simp: nodes_span_def)
    then have "m x = ram s3 x" using rq_add_outside [OF rep room, of x] qm by simp
    then show ?thesis using ti(15) x(1) by simp
  qed
  have "thread_create sy name fn arg s = Inr (0, Some t, ?s')"
    using m1 m2 qm ti(1) by (simp add: thread_create_def s3_def Let_def)
  moreover have "sched_inv sy lo hi ?s' (sblk ti # tblk ti # al) idl (q @ [ti]) run"
    by (rule sched_add [OF i3 o3 ti(9) qm])
  moreover have "thread_list rq = thread_list (run_queue s3)"
    using thread_list_ops(1) [of "taddr ti" "(run_queue s3, ram s3)"] qm by simp
  ultimately show thesis using ti f keep by (intro that [of ?s' ti]) (simp_all add: s3_def)
qed

section \<open>Switching to a thread that has not run\<close>

definition enters_main :: "symbols \<Rightarrow> kstate \<Rightarrow> tinfo \<Rightarrow> bool" where
  "enters_main sy s ti \<longleftrightarrow> eip s = sym_thread_main sy \<and> esp s = stack_top ti - 12
     \<and> load32 (ram s) (esp s) = 0 \<and> load32 (ram s) (esp s + 4) = tfn ti
     \<and> load32 (ram s) (esp s + 8) = targ ti
     \<and> ebp s = 0 \<and> ebx s = 0 \<and> esi s = 0 \<and> edi s = 0"

definition stack_room :: "kstate \<Rightarrow> tinfo \<Rightarrow> bool" where
  "stack_room s c \<longleftrightarrow> aligned4 (esp s) \<and> 28 \<le> unat (esp s)
     \<and> span (esp s - 28) 28 \<subseteq> data_bytes (sblk c)"

lemma static_asm [simp]:
  "run_queue (thread_context_switch sy cur nxt s) = run_queue s"
  "idle_thread (thread_context_switch sy cur nxt s) = idle_thread s"
  "current_thread (thread_context_switch sy cur nxt s) = current_thread s"
  "run_queue (thread_load_first sy nxt s) = run_queue s"
  "idle_thread (thread_load_first sy nxt s) = idle_thread s"
  "current_thread (thread_load_first sy nxt s) = current_thread s"
  "global_id_counter (thread_context_switch sy cur nxt s) = global_id_counter s"
  "global_id_counter (thread_load_first sy nxt s) = global_id_counter s"
  by (simp_all add: thread_context_switch_def thread_load_first_def asm_defs)

lemma push_words_span:
  assumes "28 \<le> unat (e :: u32)" "4 \<le> unat k" "unat k \<le> 28"
  shows "span (e - k) 4 \<subseteq> span (e - 28) 28"
  using assms unat_sub_u32 [of k e] unat_sub_u32 [of 28 e] by (auto simp: span_def)

text \<open>The switch writes the arguments and saved registers on the current stack and \<open>stack_ptr\<close>.\<close>

lemma context_switch_outside:
  assumes "aligned4 (esp s)" "28 \<le> unat (esp s)" "aligned4 cur"
    and x: "x \<notin> span (esp s - 28) 28" "x \<notin> span (cur + 8) 4"
  shows "ram (thread_context_switch sy cur nxt s) x = ram s x"
proof -
  have "x \<notin> span (esp s - k) 4" if "k \<in> {4, 8, 12, 16, 20, 24, 28}" for k
    using push_words_span [OF assms(2), of k] x(1) that by auto
  moreover have "aligned4 (esp s - 28)" "aligned4 (cur + 8)"
    using assms(1,3) by simp_all
  ultimately show ?thesis using assms(1,3) x(2)
    by (simp add: thread_context_switch_def asm_defs store32_outside load32_store32)
qed

lemma context_switch_enters:
  assumes al: "aligned4 (esp s)" "28 \<le> unat (esp s)" "aligned4 cur" "aligned4 (stack_top ti)"
    and fr: "thread_fresh sy (ram s) ti"
    and fr': "thread_fresh sy (ram (thread_context_switch sy cur (taddr ti) s)) ti"
  shows "enters_main sy (thread_context_switch sy cur (taddr ti) s) ti"
proof -
  let ?c = "cdecl_call (ret_context_switch sy) [cur + 8, thread_stack_ptr (ram s) (taddr ti)] s"
  let ?s' = "thread_context_switch sy cur (taddr ti) s"
  have "load32 (ram ?c) (esp ?c + 8) = stack_top ti - 32"
    using al fr by (simp add: asm_defs thread_fresh_def)
  from switch_restores [OF refl this]
  have r: "esi ?s' = load32 (ram ?s') (stack_top ti - 32)"
    "edi ?s' = load32 (ram ?s') (stack_top ti - 28)" "ebx ?s' = load32 (ram ?s') (stack_top ti - 24)"
    "ebp ?s' = load32 (ram ?s') (stack_top ti - 20)" "eip ?s' = load32 (ram ?s') (stack_top ti - 16)"
    "esp ?s' = stack_top ti - 12"
    by (simp_all add: thread_context_switch_def)
  have "stack_top ti - 12 + 4 = stack_top ti - 8" "stack_top ti - 12 + 8 = stack_top ti - 4" by simp_all
  with r fr' show ?thesis by (simp add: enters_main_def thread_fresh_def)
qed

section \<open>A thread ends\<close>

lemma ready_byte:
  assumes "heap_has fl lo hi m al" "owns al tis" "ti \<in> set tis"
  shows "taddr ti + 16 \<in> fresh_bytes ti" "taddr ti + 16 \<in> data_bytes (tblk ti)"
    "span (taddr ti + 8) 4 \<subseteq> data_bytes (tblk ti)"
proof -
  note t = thread_addr [OF assms(1) owns_member(1,3) [OF assms(2,3)]]
  have "unat (taddr ti + 16) = unat (taddr ti) + 16" "unat (taddr ti + 8) = unat (taddr ti) + 8"
    using t(3) by (simp_all add: addr_simps)
  with t(4) show "taddr ti + 16 \<in> fresh_bytes ti" "taddr ti + 16 \<in> data_bytes (tblk ti)"
    "span (taddr ti + 8) 4 \<subseteq> data_bytes (tblk ti)"
    by (auto simp: fresh_bytes_def span_def)
qed

text \<open>Taking the next thread: the first of the queue, or the idle thread if there is none.\<close>

lemma sched_next:
  assumes inv: "sched_inv sy lo hi s al idl q run" and nx: "nx = hd (q @ [idl])"
  obtains rq m where "thread_get_next s = Inr (taddr nx, s\<lparr>run_queue := rq, ram := m\<rparr>)"
    "sched_inv sy lo hi (s\<lparr>run_queue := rq, ram := m\<rparr>) al idl (tl q) run" "thread_fresh sy m nx"
    "\<And>x. x \<notin> nodes_span (thread_list (run_queue s) # map thread_node (map taddr q)) \<Longrightarrow> m x = ram s x"
proof (cases q)
  case Nil
  with inv have "thread_fresh sy (ram s) nx" by (simp add: nx sched_inv_def)
  with inv sched_next_idle [of sy lo hi s al idl run] Nil nx that [of "ram s" "run_queue s"]
  show thesis by simp
next
  case (Cons ti q')
  from sched_next_queued [OF inv [unfolded Cons]] obtain rq m where
    "thread_get_next s = Inr (taddr ti, s\<lparr>run_queue := rq, ram := m\<rparr>)"
    "sched_inv sy lo hi (s\<lparr>run_queue := rq, ram := m\<rparr>) al idl q' run" "thread_fresh sy m ti"
    "\<And>x. x \<notin> nodes_span (thread_list (run_queue s) # map thread_node (map taddr (ti # q'))) \<Longrightarrow> m x = ram s x"
    by metis
  with Cons nx show thesis by (intro that [of m rq]) auto
qed

lemma sched_switch:
  assumes inv: "sched_inv sy lo hi s al idl q [c]" and room: "stack_room s c"
    and nx: "nx \<in> set (idl # q') " "owns al (c # idl # q')" "set q \<subseteq> set q'" "thread_fresh sy (ram s) nx"
    and s': "s' = thread_context_switch sy (taddr c) (taddr nx) s"
  shows "sched_inv sy lo hi s' al idl q [c]" "enters_main sy s' nx" "thread_fresh sy (ram s') nx"
proof -
  have hh: "heap_has (sym_free_list sy) lo hi (ram s) al" and o: "owns al (c # idl # q)"
    using inv by (simp_all add: sched_inv_def)
  note c = owns_member [OF o, of c, simplified]
  have tc: "aligned4 (taddr c)" using thread_addr(1) [OF hh c(1,3)] .
  have r: "aligned4 (esp s)" "28 \<le> unat (esp s)" "span (esp s - 28) 28 \<subseteq> data_bytes (sblk c)"
    using room by (simp_all add: stack_room_def)
  have cp: "span (taddr c + 8) 4 \<subseteq> data_bytes (tblk c)" using ready_byte(3) [OF hh o, of c] by simp
  have out: "ram s' x = ram s x" if "x \<notin> data_bytes (tblk c)" "x \<notin> data_bytes (sblk c)" for x
    unfolding s' by (rule context_switch_outside [OF r(1,2) tc]) (use that r(3) cp in auto)
  have nb: "tblk c \<notin> set (blocks_of (idl # q))" "sblk c \<notin> set (blocks_of (idl # q))"
    using o by (auto simp: owns_def)
  show inv': "sched_inv sy lo hi s' al idl q [c]"
  proof (rule sched_inv_frame [OF inv])
    fix x assume "x \<notin> user_bytes al (idl # q)"
    then show "ram s' x = ram s x" using nb c by (intro out) (auto simp: user_bytes_def)
  qed (simp_all add: s')
  have nxc: "nx \<noteq> c" using nx(1,2) set_blocks_of [of nx "idl # q'"] by (auto simp: owns_def)
  have nxm: "nx \<in> set (c # idl # q')" using nx(1) by simp
  note n = owns_member [OF nx(2) nxm]
  have "ram s' x = ram s x" if "x \<in> fresh_bytes nx" for x
  proof -
    have "x \<in> data_bytes (tblk nx) \<union> data_bytes (sblk nx)"
      using fresh_bytes_data [OF hh nx(2) nxm] that by blast
    then show ?thesis using tinfo_disjoint [OF hh nx(2) nxm, of c] nxc by (intro out) auto
  qed
  then show fr': "thread_fresh sy (ram s') nx"
    using fresh_cong [OF hh n(1-3), of "ram s'" "ram s" sy] nx(4) by simp
  show "enters_main sy s' nx" unfolding s'
    by (rule context_switch_enters [OF r(1,2) tc stack_addr(1) [OF hh n(2,3)] nx(4) fr' [unfolded s']])
qed

lemma thread_exit_ok:
  assumes inv: "sched_inv sy lo hi s al idl q [c]" and cur: "current_thread s = taddr c"
    and room: "stack_room s c" and nx: "nx = hd (q @ [idl])"
  obtains s' where "thread_main_exit sy (taddr c) s = Inr s'" "current_thread s' = taddr nx"
    "enters_main sy s' nx" "sched_inv sy lo hi s' al idl (tl q) (if q = [] then [] else [nx])"
    "global_id_counter s' = global_id_counter s" "idle_thread s' = idle_thread s"
proof -
  let ?s0 = "s\<lparr>ram := set_thread_ready (ram s) (taddr c) False\<rparr>"
  have hh: "heap_has (sym_free_list sy) lo hi (ram s) al" and o: "owns al (c # idl # q)"
    and h: "span (thread_list (run_queue s)) 8 \<inter> heap_region (sym_free_list sy) lo hi = {}"
    and idl: "idle_thread s = taddr idl"
    using inv by (simp_all add: sched_inv_def)
  have cm: "c \<in> set (c # idl # q)" by simp
  note rb = ready_byte [OF hh o cm] and c = owns_member [OF o cm]
  have nb: "tblk c \<notin> set (blocks_of (idl # q))" using o by (auto simp: owns_def)
  have i0: "sched_inv sy lo hi ?s0 al idl q [c]"
  proof (rule sched_inv_frame [OF inv])
    fix x assume "x \<notin> user_bytes al (idl # q)"
    then have "x \<noteq> taddr c + 16" using nb c rb(2) by (auto simp: user_bytes_def)
    then show "ram ?s0 x = ram s x" by (simp add: set_thread_ready_def)
  qed simp_all
  obtain m rq where g: "thread_get_next ?s0 = Inr (taddr nx, ?s0\<lparr>run_queue := rq, ram := m\<rparr>)"
    "sched_inv sy lo hi (?s0\<lparr>run_queue := rq, ram := m\<rparr>) al idl (tl q) [c]" "thread_fresh sy m nx"
    "\<And>x. x \<notin> nodes_span (thread_list (run_queue ?s0) # map thread_node (map taddr q)) \<Longrightarrow> m x = ram ?s0 x"
    by (rule sched_next [OF i0 nx]) (rule that)
  let ?s2 = "?s0\<lparr>run_queue := rq, ram := m, current_thread := taddr nx\<rparr>"
  have "m (taddr c + 16) = ram ?s0 (taddr c + 16)"
    using nodes_avoid_fresh [OF hh o cm _ h rb(1), of q] by (intro g(4)) auto
  then have nr: "\<not> thread_ready m (taddr c)"
    by (simp add: thread_ready_def load8_def set_thread_ready_def store8_def)
  have i2: "sched_inv sy lo hi ?s2 al idl (tl q) [c]" using g(2) by (simp add: sched_inv_def)
  have r2: "stack_room ?s2 c" using room by (simp add: stack_room_def)
  have nxm: "nx \<in> set (idl # q)" using nx by (cases q) auto
  have "set (tl q) \<subseteq> set q" by (cases q) auto
  moreover have "thread_fresh sy (ram ?s2) nx" using g(3) by simp
  moreover define s' where "s' = thread_context_switch sy (taddr c) (taddr nx) ?s2"
  ultimately have sw: "sched_inv sy lo hi s' al idl (tl q) [c]" "enters_main sy s' nx"
    using sched_switch [OF i2 r2 nxm o] by blast+
  have "owns al ((if q = [] then [] else [nx]) @ idl # tl q)"
    using o nx by (cases q) (auto simp: owns_def)
  with sw(1) have "sched_inv sy lo hi s' al idl (tl q) (if q = [] then [] else [nx])"
    by (simp add: sched_inv_def)
  moreover have "thread_main_exit sy (taddr c) s = Inr s'"
    using g(1) nr cur by (simp add: thread_main_exit_def thread_reschedule_def Let_def s'_def)
  ultimately show thesis using sw(2) idl by (intro that [of s']) (simp_all add: s'_def)
qed

end
