(* ===== verification/Thread_Run.thy ===== *)
theory Thread_Run
  imports Thread_Ops
begin

text \<open>
  The life of the scheduler: \<open>thread_init\<close>, creation of threads, the start of the first one,
  arbitrary work of the running thread on memory that is its own to write, and the exit of
  threads, as an inductive relation over the states of \<open>thread.c\<close>; its invariant, and the order
  in which threads run.
\<close>

section \<open>Failure of the creation functions\<close>

lemma create_failed_null: "create_failed sy 0 0 s = Inr (1, None, s)"
  by (simp add: create_failed_def heap_free_def)

lemma thread_create_no_struct:
  assumes "heap_malloc (sym_free_list sy) SIZEOF_THREAD (ram s) = Some (0, ram s)"
  shows "thread_create sy name fn arg s = Inr (1, None, s)"
    "idle_thread_create sy s = Inr (1, None, s)"
  using assms by (simp_all add: thread_create_def idle_thread_create_def create_failed_null)

text \<open>
  With no memory for the stack the structure is given back, error 1 is returned, and the
  threads of the scheduler are as before.
\<close>

lemma thread_create_no_stack:
  assumes inv: "sched_inv sy lo hi s al idl q run"
    and m1: "heap_malloc (sym_free_list sy) SIZEOF_THREAD (ram s) = Some (t, m1)" "t \<noteq> 0"
    and m2: "heap_malloc (sym_free_list sy) THREAD_DEFAULT_STACK_SIZE m1 = Some (0, m2)"
  obtains m' where "thread_create sy name fn arg s = Inr (1, None, s\<lparr>ram := m'\<rparr>)"
    "rq_rep (run_queue s, m') (map taddr q)" "\<forall>ti \<in> set (idl # q). thread_fresh sy m' ti"
    "\<And>d x. d \<in> set al \<Longrightarrow> x \<in> data_bytes d \<Longrightarrow> m' x = ram s x"
proof -
  let ?fl = "sym_free_list sy" and ?h = "thread_list (run_queue s)"
  have hh: "heap_has ?fl lo hi (ram s) al" and h: "span ?h 8 \<inter> heap_region ?fl lo hi = {}"
    and rq: "rq_rep (run_queue s, ram s) (map taddr q)" and o: "owns al (run @ idl # q)"
    using inv by (simp_all add: sched_inv_def)
  have o': "owns al (idl # q)" using owns_subset [OF o refl] by simp
  have sz: "0 < SIZEOF_THREAD" "unat SIZEOF_THREAD = 28" "0 < THREAD_DEFAULT_STACK_SIZE"
    "unat THREAD_DEFAULT_STACK_SIZE = 4096"
    by (simp_all add: SIZEOF_THREAD_def THREAD_DEFAULT_STACK_SIZE_def)
  obtain b where b: "t = fst b + 12" "heap_has ?fl lo hi m1 (b # al)"
    "\<forall>c \<in> set al. \<forall>x \<in> data_bytes c. m1 x = ram s x" "\<forall>x. x \<notin> heap_region ?fl lo hi \<longrightarrow> m1 x = ram s x"
    using kheap.malloc_law [OF hh sz(1)] m1 sz(2) by auto
  have m12: "m2 = m1"
    using kheap.malloc_law [OF b(2) sz(3)] kheap.inv_data sz(4) m2 by fastforce
  obtain bs where i1: "heap_inv ?fl lo hi m1 bs (b # al)" using b(2) by (auto simp: heap_has_def)
  then have g: "heap_geom lo hi bs (b # al)" "head_outside ?fl lo hi" by (simp_all add: heap_inv_def)
  obtain m' where f: "heap_free ?fl (fst b + 12) m1 = Some m'"
    "agree_outside (free_bytes ?fl (b # bs)) m1 m'"
    using heap_free_general [OF i1] by auto
  have res: "thread_create sy name fn arg s = Inr (1, None, s\<lparr>ram := m'\<rparr>)"
    using m1 m2 f(1) b(1) m12 by (simp add: thread_create_def create_failed_def heap_free_def)
  have keep: "m' x = ram s x" if "d \<in> set al" "x \<in> data_bytes d" for d x
  proof -
    have "separate b d" using g(1) that(1) by (auto simp: heap_geom_def sorted_wrt_append)
    then have "extent b \<inter> extent d = {}" by (rule separate_extents)
    moreover have "x \<in> extent d" using data_bytes_extent(2) [OF g(1), of d] that by auto
    ultimately have "x \<notin> extent b" "x \<in> extent d" by blast+
    moreover have "x \<notin> free_bytes ?fl bs"
      using free_bytes_apart [OF g, of d] that(1) \<open>x \<in> extent d\<close> by auto
    ultimately show ?thesis using f(2) b(3) that by (auto simp: agree_outside_def free_bytes_def)
  qed
  have keep': "m' x = ram s x" if "x \<notin> heap_region ?fl lo hi" for x
  proof -
    have "x \<notin> free_bytes ?fl (b # bs)"
      using that free_bytes_region [OF g(1), of ?fl] data_bytes_extent(5) [OF g(1), of b]
      by (auto simp: free_bytes_def heap_region_def)
    then show ?thesis using f(2) b(4) that by (simp add: agree_outside_def)
  qed
  have "rq_rep (run_queue s, m') (map taddr q)"
  proof (rule rq_rep_cong [OF rq])
    fix x assume "x \<in> nodes_span (?h # map thread_node (map taddr q))"
    then consider "x \<in> span ?h 8" | ti where "ti \<in> set q" "x \<in> span (thread_node (taddr ti)) 8"
      by (auto simp: nodes_span_def)
    then show "m' x = ram s x"
    proof cases
      case 1
      then show ?thesis using keep' h by blast
    next
      case 2
      then have "x \<in> data_bytes (tblk ti)" "tblk ti \<in> set al"
        using node_bytes_data(1) [OF hh o', of ti] owns_member(1) [OF o', of ti] by auto
      then show ?thesis by (intro keep)
    qed
  qed
  moreover have "thread_fresh sy m' ti" if "ti \<in> set (idl # q)" for ti
  proof -
    note m = owns_member [OF o' that]
    have "m' x = ram s x" if "x \<in> fresh_bytes ti" for x
      using fresh_bytes_data [OF hh o' \<open>ti \<in> set (idl # q)\<close>] that keep [OF m(1)] keep [OF m(2)] by blast
    then show ?thesis
      using fresh_cong [OF hh m(1-3), of m' "ram s" sy] that inv by (auto simp: sched_inv_def)
  qed
  ultimately show thesis using res keep by (intro that [of m']) auto
qed

section \<open>Initialisation and start\<close>

lemma rq_init_rep: "node_ok (thread_list rq) \<Longrightarrow> rq_rep (thread_run_queue_init rq m) []"
  by (simp add: thread_run_queue_init_def rq_rep_def list_init_dll)

lemma thread_init_ok:
  assumes hh: "heap_has (sym_free_list sy) lo hi (ram s) al"
    and h: "node_ok (thread_list (run_queue s))"
      "span (thread_list (run_queue s)) 8 \<inter> heap_region (sym_free_list sy) lo hi = {}"
    and m1: "heap_malloc (sym_free_list sy) SIZEOF_THREAD (ram s) = Some (t, m1)" "t \<noteq> 0"
    and m2: "heap_malloc (sym_free_list sy) THREAD_DEFAULT_STACK_SIZE m1 = Some (stack, m2)" "stack \<noteq> 0"
  obtains idl s' where "thread_init sy s = Inr (0, s')" "taddr idl = t"
    "tfn idl = sym_idle_thread_fn sy" "targ idl = 0"
    "sched_inv sy lo hi s' (sblk idl # tblk idl # al) idl [] []"
    "global_id_counter s' = global_id_counter s + 1" "current_thread s' = current_thread s"
    "fst (sblk idl) + 12 = stack"
    "\<And>x. x \<notin> (\<Union>b \<in> set (sblk idl # tblk idl # al). data_bytes b) \<Longrightarrow>
       x \<in> heap_region (sym_free_list sy) lo hi \<Longrightarrow> ram s' x = m2 x"
proof -
  let ?fl = "sym_free_list sy" and ?s2 = "s\<lparr>ram := m2\<rparr>"
  define s3 where "s3 = thread_struct_init sy t (sym_idle_name sy) stack THREAD_DEFAULT_STACK_SIZE
    (sym_idle_thread_fn sy) 0 ?s2"
  have m2': "heap_malloc ?fl THREAD_DEFAULT_STACK_SIZE m1 = Some (stack, ram ?s2)" using m2(1) by simp
  obtain ti where ti: "taddr ti = t" "tfn ti = sym_idle_thread_fn sy" "targ ti = 0" "tinfo_ok ti"
    "heap_has ?fl lo hi (ram s3) (sblk ti # tblk ti # al)" "distinct [tblk ti, sblk ti]"
    "thread_fresh sy (ram s3) ti" "fst (sblk ti) + 12 = stack"
    "\<And>x. x \<notin> data_bytes (tblk ti) \<Longrightarrow> x \<notin> data_bytes (sblk ti) \<Longrightarrow> ram s3 x = m2 x"
    by (rule create_blocks [OF hh m1 m2' m2(2) s3_def]) auto
  let ?rq = "run_queue s" and ?al = "sblk ti # tblk ti # al"
  let ?m = "list_init (ram s3) (thread_list ?rq)"
  let ?s' = "s3\<lparr>idle_thread := t, run_queue := ?rq\<lparr>no_threads := 0\<rparr>, ram := ?m\<rparr>"
  have out: "?m x = ram s3 x" if "x \<notin> span (thread_list ?rq) 8" for x
    by (rule list_init_outside [OF h(1) that])
  have o: "owns ?al [ti]" using ti by (auto simp: owns_def)
  have "heap_has ?fl lo hi ?m ?al"
    by (rule kheap.inv_frame [OF ti(5)]) (use out h(2) in blast)
  moreover have "thread_fresh sy ?m ti"
  proof -
    have "?m x = ram s3 x" if "x \<in> fresh_bytes ti" for x
    proof (rule out)
      have "x \<in> data_bytes (tblk ti) \<union> data_bytes (sblk ti)"
        using fresh_bytes_data [OF ti(5) o] that by auto
      then show "x \<notin> span (thread_list ?rq) 8"
        using kheap.inv_data [OF ti(5), of "tblk ti"] kheap.inv_data [OF ti(5), of "sblk ti"] h(2) by auto
    qed
    then show ?thesis using fresh_cong [OF ti(5) _ _ ti(4), of ?m "ram s3" sy] ti(7) by simp
  qed
  moreover have "rq_rep (?rq\<lparr>no_threads := 0\<rparr>, ?m) []"
    using rq_init_rep [OF h(1), of "ram s3"] by (simp add: thread_run_queue_init_def)
  ultimately have "sched_inv sy lo hi ?s' ?al ti [] []"
    using h o ti(1) by (simp add: sched_inv_def)
  moreover have "thread_init sy s = Inr (0, ?s')"
    using m1 m2
    by (simp add: thread_init_def idle_thread_create_def thread_run_queue_init_def Let_def s3_def [symmetric])
      (simp add: s3_def)
  moreover have "?m x = m2 x" if "x \<notin> (\<Union>b \<in> set ?al. data_bytes b)" "x \<in> heap_region ?fl lo hi" for x
    using out [of x] ti(9) [of x] that h(2) by auto
  ultimately show thesis using ti by (intro that [of ?s' ti]) (simp_all add: s3_def)
qed

text \<open>The bootstrap stack, from which the first thread is loaded, is not memory of the scheduler.\<close>

definition boot_stack_ok :: "symbols \<Rightarrow> nat \<Rightarrow> nat \<Rightarrow> kstate \<Rightarrow> bool" where
  "boot_stack_ok sy lo hi s \<longleftrightarrow> aligned4 (esp s) \<and> 8 \<le> unat (esp s) \<and> span (esp s - 8) 8 \<inter>
     (heap_region (sym_free_list sy) lo hi \<union> span (thread_list (run_queue s)) 8) = {}"

lemma load_first_outside:
  assumes "aligned4 (esp s)" "8 \<le> unat (esp s)" "x \<notin> span (esp s - 8) 8"
  shows "ram (thread_load_first sy t s) x = ram s x"
proof -
  have "x \<notin> span (esp s - 4) 4" "x \<notin> span (esp s - 8) 4"
    using assms(2,3) unat_sub_u32 [of 4 "esp s"] unat_sub_u32 [of 8 "esp s"] by (auto simp: span_def)
  then show ?thesis using assms(1) by (simp add: thread_load_first_def asm_defs store32_outside)
qed

lemma load_first_enters:
  assumes "aligned4 (esp s)" "thread_fresh sy (ram s) ti" "thread_fresh sy (ram (thread_load_first sy (taddr ti) s)) ti"
  shows "enters_main sy (thread_load_first sy (taddr ti) s) ti"
proof -
  let ?s' = "thread_load_first sy (taddr ti) s"
  have r: "esi ?s' = load32 (ram ?s') (stack_top ti - 32)"
    "edi ?s' = load32 (ram ?s') (stack_top ti - 28)" "ebx ?s' = load32 (ram ?s') (stack_top ti - 24)"
    "ebp ?s' = load32 (ram ?s') (stack_top ti - 20)" "eip ?s' = load32 (ram ?s') (stack_top ti - 16)"
    "esp ?s' = stack_top ti - 12"
    using assms(1,2) by (simp_all add: thread_load_first_def asm_defs thread_fresh_def)
  have "stack_top ti - 12 + 4 = stack_top ti - 8" "stack_top ti - 12 + 8 = stack_top ti - 4" by simp_all
  with r assms(3) show ?thesis by (simp add: enters_main_def thread_fresh_def)
qed

lemma thread_start_ok:
  assumes inv: "sched_inv sy lo hi s al idl q []" and bs: "boot_stack_ok sy lo hi s"
    and nx: "nx = hd (q @ [idl])"
  obtains s' where "thread_start_scheduler sy s = Inr s'" "current_thread s' = taddr nx"
    "enters_main sy s' nx" "sched_inv sy lo hi s' al idl (tl q) (if q = [] then [] else [nx])"
    "global_id_counter s' = global_id_counter s" "idle_thread s' = idle_thread s"
proof -
  have hh: "heap_has (sym_free_list sy) lo hi (ram s) al" and o: "owns al (idl # q)"
    and idl: "idle_thread s = taddr idl"
    using inv by (simp_all add: sched_inv_def)
  obtain m rq where g: "thread_get_next s = Inr (taddr nx, s\<lparr>run_queue := rq, ram := m\<rparr>)"
    "sched_inv sy lo hi (s\<lparr>run_queue := rq, ram := m\<rparr>) al idl (tl q) []" "thread_fresh sy m nx"
    "\<And>x. x \<notin> nodes_span (thread_list (run_queue s) # map thread_node (map taddr q)) \<Longrightarrow> m x = ram s x"
    "thread_list rq = thread_list (run_queue s)"
  proof (cases q)
    case Nil
    with inv have "thread_fresh sy (ram s) nx" by (simp add: nx sched_inv_def)
    with inv sched_next_idle [of sy lo hi s al idl "[]"] Nil nx that [of "ram s" "run_queue s"]
    show thesis by simp
  next
    case (Cons ti q')
    from sched_next_queued [OF inv [unfolded Cons]] obtain rq m where
      "thread_get_next s = Inr (taddr ti, s\<lparr>run_queue := rq, ram := m\<rparr>)"
      "sched_inv sy lo hi (s\<lparr>run_queue := rq, ram := m\<rparr>) al idl q' []" "thread_fresh sy m ti"
      "thread_list rq = thread_list (run_queue s)"
      "\<And>x. x \<notin> nodes_span (thread_list (run_queue s) # map thread_node (map taddr (ti # q'))) \<Longrightarrow> m x = ram s x"
      by blast
    with Cons nx show thesis by (intro that [of m rq]) auto
  qed
  let ?s2 = "s\<lparr>run_queue := rq, ram := m, current_thread := taddr nx\<rparr>"
  define s' where "s' = thread_load_first sy (taddr nx) ?s2"
  have i2: "sched_inv sy lo hi ?s2 al idl (tl q) []" using g(2) by (simp add: sched_inv_def)
  have b: "aligned4 (esp ?s2)" "8 \<le> unat (esp ?s2)"
    "span (esp ?s2 - 8) 8 \<inter> (heap_region (sym_free_list sy) lo hi \<union> span (thread_list rq) 8) = {}"
    using bs g(5) by (simp_all add: boot_stack_ok_def)
  have out: "ram s' x = ram ?s2 x" if "x \<notin> span (esp ?s2 - 8) 8" for x
    unfolding s'_def by (rule load_first_outside [OF b(1,2) that])
  have i': "sched_inv sy lo hi s' al idl (tl q) []"
    by (rule sched_inv_frame [OF i2]) (use out b(3) in \<open>auto simp: s'_def\<close>)
  have nxm: "nx \<in> set (idl # q)" using nx by (cases q) auto
  note n = owns_member [OF o nxm]
  have "ram s' x = ram ?s2 x" if "x \<in> fresh_bytes nx" for x
  proof (rule out)
    have "x \<in> data_bytes (tblk nx) \<union> data_bytes (sblk nx)" using fresh_bytes_data [OF hh o nxm] that by blast
    then show "x \<notin> span (esp ?s2 - 8) 8"
      using b(3) kheap.inv_data [OF hh n(1)] kheap.inv_data [OF hh n(2)] by blast
  qed
  then have fr: "thread_fresh sy (ram s') nx"
    using fresh_cong [OF hh n(1-3), of "ram s'" "ram ?s2" sy] g(3) by simp
  have "enters_main sy s' nx" unfolding s'_def
    by (rule load_first_enters [OF b(1) _ fr [unfolded s'_def]]) (use g(3) in simp)
  moreover have "owns al ((if q = [] then [] else [nx]) @ idl # tl q)"
    using o nx by (cases q) (auto simp: owns_def)
  with i' have "sched_inv sy lo hi s' al idl (tl q) (if q = [] then [] else [nx])"
    by (simp add: sched_inv_def)
  moreover have "thread_start_scheduler sy s = Inr s'"
    using g(1) by (simp add: thread_start_scheduler_def s'_def)
  ultimately show thesis using idl by (intro that [of s']) (simp_all add: s'_def)
qed

end

