(* ===== verification/Thread_History.thy ===== *)
theory Thread_History
  imports Thread_Run
begin

text \<open>
  The scheduler over its whole life. \<open>sched_run\<close> relates the state of the kernel, the live heap
  blocks, the idle thread, the threads created and the sequence of values \<open>current_thread\<close> took
  on; its rules are the calls of \<open>thread.c\<close> and what other code may do in between. Its invariant
  gives the order of execution and that no call of the scheduler panics.
\<close>

section \<open>The relation\<close>

text \<open>
  \<open>describes\<close> pins down the record of a new thread: its blocks are live, and its stack is the
  one the structure points into.
\<close>

definition describes :: "symbols \<Rightarrow> nat \<Rightarrow> nat \<Rightarrow> kstate \<Rightarrow> block list \<Rightarrow> tinfo \<Rightarrow> bool" where
  "describes sy lo hi s al ti \<longleftrightarrow>
     heap_has (sym_free_list sy) lo hi (ram s) (sblk ti # tblk ti # al)
     \<and> thread_stack_ptr (ram s) (taddr ti) = stack_top ti - 32
     \<and> load32 (ram s) (stack_top ti - 8) = tfn ti \<and> load32 (ram s) (stack_top ti - 4) = targ ti"

definition waiting :: "tinfo list \<Rightarrow> u32 list \<Rightarrow> tinfo list" where
  "waiting cr tr = filter (\<lambda>ti. taddr ti \<notin> set tr) cr"

text \<open>The idle thread is current: it was the last to be loaded.\<close>

definition idling :: "tinfo \<Rightarrow> u32 list \<Rightarrow> bool" where
  "idling idl tr \<longleftrightarrow> tr \<noteq> [] \<and> last tr = taddr idl"

inductive sched_run :: "symbols \<Rightarrow> nat \<Rightarrow> nat \<Rightarrow> kstate \<Rightarrow> block list \<Rightarrow> tinfo \<Rightarrow> tinfo list
    \<Rightarrow> u32 list \<Rightarrow> bool" for sy lo hi where
  init: "heap_has (sym_free_list sy) lo hi (ram s0) al \<Longrightarrow> node_ok (thread_list (run_queue s0)) \<Longrightarrow>
     span (thread_list (run_queue s0)) 8 \<inter> heap_region (sym_free_list sy) lo hi = {} \<Longrightarrow>
     thread_init sy s0 = Inr (0, s) \<Longrightarrow> idle_thread s = taddr idl \<Longrightarrow> describes sy lo hi s al idl \<Longrightarrow>
     sched_run sy lo hi s (sblk idl # tblk idl # al) idl [] []"
| create: "sched_run sy lo hi s al idl cr tr \<Longrightarrow> \<not> idling idl tr \<Longrightarrow>
     thread_create sy name fn arg s = Inr (0, Some (taddr ti), s') \<Longrightarrow> describes sy lo hi s' al ti \<Longrightarrow>
     sched_run sy lo hi s' (sblk ti # tblk ti # al) idl (cr @ [ti]) tr"
| create_fails: "sched_run sy lo hi s al idl cr tr \<Longrightarrow>
     heap_malloc (sym_free_list sy) SIZEOF_THREAD (ram s) = Some (0, ram s) \<Longrightarrow>
     thread_create sy name fn arg s = Inr (e, p, s') \<Longrightarrow> sched_run sy lo hi s' al idl cr tr"
| alloc: "sched_run sy lo hi s al idl cr tr \<Longrightarrow> 0 < n \<Longrightarrow> unat n \<le> 4294967292 \<Longrightarrow>
     heap_malloc (sym_free_list sy) n (ram s) = Some (fst b + 12, m) \<Longrightarrow> fst b + 12 \<noteq> 0 \<Longrightarrow>
     heap_has (sym_free_list sy) lo hi m (b # al) \<Longrightarrow>
     sched_run sy lo hi (s\<lparr>ram := m\<rparr>) (b # al) idl cr tr"
| work: "sched_run sy lo hi s al idl cr tr \<Longrightarrow>
     (\<And>x. x \<notin> user_bytes al (idl # waiting cr tr) \<Longrightarrow>
       x \<in> heap_region (sym_free_list sy) lo hi \<union> span (thread_list (run_queue s)) 8 \<Longrightarrow>
       ram s' x = ram s x) \<Longrightarrow>
     run_queue s' = run_queue s \<Longrightarrow> idle_thread s' = idle_thread s \<Longrightarrow>
     current_thread s' = current_thread s \<Longrightarrow> sched_run sy lo hi s' al idl cr tr"
| start: "sched_run sy lo hi s al idl cr [] \<Longrightarrow> boot_stack_ok sy lo hi s \<Longrightarrow>
     thread_start_scheduler sy s = Inr s' \<Longrightarrow> sched_run sy lo hi s' al idl cr [current_thread s']"
| exit: "sched_run sy lo hi s al idl cr tr \<Longrightarrow> tr \<noteq> [] \<Longrightarrow> \<not> idling idl tr \<Longrightarrow>
     c \<in> set cr \<Longrightarrow> taddr c = current_thread s \<Longrightarrow> stack_room s c \<Longrightarrow>
     thread_main_exit sy (current_thread s) s = Inr s' \<Longrightarrow>
     sched_run sy lo hi s' al idl cr (tr @ [current_thread s'])"

inductive_cases sched_run_twoE: "sched_run sy lo hi s al idl cr (x # y # tr)"

section \<open>Inversion of the creation functions\<close>

lemma create_failed_code: "create_failed sy t stack s \<noteq> Inr (0, p, s')"
  by (auto simp: create_failed_def bind_res_Inr_iff)

lemma alloc_or_fail:
  assumes "bind_res (of_loop r) (\<lambda>(t, m). if t = 0 then F m else G t m) = Inr v" "\<And>m. F m \<noteq> Inr v"
  obtains t m where "r = Some (t, m)" "t \<noteq> 0" "G t m = Inr v"
proof (cases r)
  case (Some tm)
  obtain t m where tm: "tm = (t, m)" by (cases tm)
  with Some assms have "t \<noteq> 0" "G t m = Inr v" by (auto split: if_splits)
  with Some tm that show thesis by blast
qed (use assms in simp)

lemma thread_create_mallocs:
  assumes "thread_create sy name fn arg s = Inr (0, Some t, s')"
  obtains m1 stack m2 where "heap_malloc (sym_free_list sy) SIZEOF_THREAD (ram s) = Some (t, m1)" "t \<noteq> 0"
    "heap_malloc (sym_free_list sy) THREAD_DEFAULT_STACK_SIZE m1 = Some (stack, m2)" "stack \<noteq> 0"
proof -
  note c = assms [unfolded thread_create_def]
  obtain t1 m1 where 1: "heap_malloc (sym_free_list sy) SIZEOF_THREAD (ram s) = Some (t1, m1)" "t1 \<noteq> 0"
    and c1: "bind_res (of_loop (heap_malloc (sym_free_list sy) THREAD_DEFAULT_STACK_SIZE m1)) (\<lambda>(stack, m2).
       if stack = 0 then create_failed sy t1 0 (s\<lparr>ram := m2\<rparr>) else
       let s1 = thread_struct_init sy t1 name stack THREAD_DEFAULT_STACK_SIZE fn arg (s\<lparr>ram := m2\<rparr>);
           (rq, m) = thread_run_queue_add t1 (run_queue s1, ram s1)
       in Inr (0, Some t1, s1\<lparr>run_queue := rq, ram := m\<rparr>)) = Inr (0, Some t, s')"
    by (rule alloc_or_fail [OF c create_failed_code])
  obtain stack m2 where 2: "heap_malloc (sym_free_list sy) THREAD_DEFAULT_STACK_SIZE m1 = Some (stack, m2)"
    "stack \<noteq> 0" and "t1 = t"
    by (rule alloc_or_fail [OF c1 create_failed_code]) (simp add: Let_def split: prod.splits)
  with 1 that show thesis by blast
qed

lemma thread_init_mallocs:
  assumes "thread_init sy s = Inr (0, s')"
  obtains t m1 stack m2 where "heap_malloc (sym_free_list sy) SIZEOF_THREAD (ram s) = Some (t, m1)" "t \<noteq> 0"
    "heap_malloc (sym_free_list sy) THREAD_DEFAULT_STACK_SIZE m1 = Some (stack, m2)" "stack \<noteq> 0"
proof -
  obtain p s1 where i: "idle_thread_create sy s = Inr (0, p, s1)"
    using assms by (auto simp: thread_init_def bind_res_Inr_iff Let_def split: if_splits)
  note c = i [unfolded idle_thread_create_def]
  obtain t m1 where 1: "heap_malloc (sym_free_list sy) SIZEOF_THREAD (ram s) = Some (t, m1)" "t \<noteq> 0"
    and c1: "bind_res (of_loop (heap_malloc (sym_free_list sy) THREAD_DEFAULT_STACK_SIZE m1)) (\<lambda>(stack, m2).
       if stack = 0 then create_failed sy t 0 (s\<lparr>ram := m2\<rparr>) else
       Inr (0, Some t, thread_struct_init sy t (sym_idle_name sy) stack THREAD_DEFAULT_STACK_SIZE
              (sym_idle_thread_fn sy) 0 (s\<lparr>ram := m2\<rparr>))) = Inr (0, p, s1)"
    by (rule alloc_or_fail [OF c create_failed_code])
  from alloc_or_fail [OF c1 create_failed_code] obtain stack m2 where
    "heap_malloc (sym_free_list sy) THREAD_DEFAULT_STACK_SIZE m1 = Some (stack, m2)" "stack \<noteq> 0" by metis
  with 1 that show thesis by blast
qed

lemma describes_unique:
  assumes "describes sy lo hi s al ti" "describes sy lo hi s al tj" "taddr ti = taddr tj"
  shows "ti = tj"
proof -
  have f: "fst (tblk ti) = fst (tblk tj)" "fst (sblk ti) = fst (sblk tj)"
    using assms by (auto simp: describes_def taddr_def stack_top_def)
  moreover have "snd (tblk ti) = snd (tblk tj)" "snd (sblk ti) = snd (sblk tj)"
    using assms(1,2) f by (auto simp: describes_def heap_has_def heap_inv_def)
  moreover have "stack_top ti = stack_top tj" using f by (simp add: stack_top_def)
  then have "tfn ti = tfn tj" "targ ti = targ tj" using assms(1,2) by (auto simp: describes_def)
  ultimately show ?thesis by (intro tinfo.equality) (auto intro: prod_eqI)
qed

lemma sched_describes:
  assumes "sched_inv sy lo hi s (sblk ti # tblk ti # al) idl q run" "ti \<in> set (idl # q)"
  shows "describes sy lo hi s al ti"
  using assms by (auto simp: describes_def sched_inv_def thread_fresh_def)

section \<open>The invariant\<close>

definition sched_state :: "symbols \<Rightarrow> nat \<Rightarrow> nat \<Rightarrow> kstate \<Rightarrow> block list \<Rightarrow> tinfo \<Rightarrow> tinfo list
    \<Rightarrow> u32 list \<Rightarrow> bool" where
  "sched_state sy lo hi s al idl cr tr \<longleftrightarrow> sched_inv sy lo hi s al idl (drop (length tr) cr) []
     \<and> owns al (cr @ [idl]) \<and> tr = take (length tr) (map taddr (cr @ [idl]))
     \<and> (tr \<noteq> [] \<longrightarrow> current_thread s = last tr)"

lemma owns_perm: "owns al (xs @ ys) \<longleftrightarrow> owns al (ys @ xs)"
  by (auto simp: owns_def)

lemma owns_distinct:
  assumes "heap_has fl lo hi m al" "owns al tis"
  shows "distinct (map taddr tis)"
proof -
  have "distinct tis" using assms(2) unfolding owns_def
    by (induction tis) (auto dest: set_blocks_of)
  moreover have "inj_on taddr (set tis)"
  proof (rule inj_onI, rule ccontr)
    fix ti tj assume t: "ti \<in> set tis" "tj \<in> set tis" "taddr ti = taddr tj" "ti \<noteq> tj"
    have "taddr tk \<in> data_bytes (tblk tk)" if "tk \<in> set tis" for tk
      using thread_addr(4) [OF assms(1) owns_member(1,3) [OF assms(2) that]] by (auto simp: span_def)
    with t tinfo_disjoint [OF assms t(1,2,4)] show False by fastforce
  qed
  ultimately show ?thesis by (simp add: distinct_map)
qed

lemma sched_inv_run:
  "sched_inv sy lo hi s al idl q run \<Longrightarrow> owns al (run' @ idl # q) \<Longrightarrow> sched_inv sy lo hi s al idl q run'"
  by (simp add: sched_inv_def)

lemma take_trace:
  assumes "distinct (map taddr (cr @ [idl]))" "tr = take (length tr) (map taddr (cr @ [idl]))"
  shows "waiting cr tr = drop (length tr) cr" "idling idl tr \<longleftrightarrow> length tr = Suc (length cr)"
    "length tr \<le> Suc (length cr)"
    "tr \<noteq> [] \<Longrightarrow> \<not> idling idl tr \<Longrightarrow> last tr = taddr (cr ! (length tr - 1))"
proof -
  let ?n = "length tr" and ?all = "map taddr (cr @ [idl])"
  have "length tr = length (take ?n ?all)" using assms(2) by (rule arg_cong)
  then show le: "?n \<le> Suc (length cr)" by simp
  have split: "set tr \<inter> set (drop ?n ?all) = {}"
    using assms set_take_disj_set_drop_if_distinct [OF assms(1), of ?n ?n] by simp
  have "taddr ti \<notin> set tr" if "ti \<in> set (drop ?n cr)" for ti
    using split that by (auto simp: drop_map)
  moreover have "taddr ti \<in> set tr" if "ti \<in> set (take ?n cr)" for ti
    by (subst assms(2)) (use that in \<open>auto simp: take_map\<close>)
  ultimately have "filter (\<lambda>ti. taddr ti \<notin> set tr) (take ?n cr) @ filter (\<lambda>ti. taddr ti \<notin> set tr) (drop ?n cr)
      = drop ?n cr"
    by (simp add: filter_empty_conv)
  then show "waiting cr tr = drop (length tr) cr"
    unfolding waiting_def filter_append [symmetric] append_take_drop_id .
  have nth: "last tr = ?all ! (?n - 1)" if "tr \<noteq> []"
    using that le last_conv_nth [OF that] assms(2) by (metis diff_less length_greater_0_conv nth_take zero_less_one)
  show idl: "idling idl tr \<longleftrightarrow> length tr = Suc (length cr)"
  proof
    assume "idling idl tr"
    then have e: "?all ! (?n - 1) = ?all ! length cr" "tr \<noteq> []" using nth by (auto simp: idling_def nth_append)
    have "?n - 1 < length ?all" "length cr < length ?all" using le by simp_all
    with e(1) have "?n - 1 = length cr" using nth_eq_iff_index_eq [OF assms(1)] by blast
    then show "length tr = Suc (length cr)" using e(2) by (cases tr) auto
  next
    assume "length tr = Suc (length cr)"
    then show "idling idl tr" using nth by (force simp: idling_def nth_append)
  qed
  show "last tr = taddr (cr ! (?n - 1))" if "tr \<noteq> []" "\<not> idling idl tr"
    using nth [OF that(1)] le idl that by (cases tr) (auto simp: nth_append)
qed

lemma sched_stateD:
  assumes "sched_state sy lo hi s al idl cr tr"
  shows "sched_inv sy lo hi s al idl (drop (length tr) cr) []" "owns al (cr @ [idl])"
    "tr = take (length tr) (map taddr (cr @ [idl]))" "tr \<noteq> [] \<Longrightarrow> current_thread s = last tr"
    "heap_has (sym_free_list sy) lo hi (ram s) al" "distinct (map taddr (cr @ [idl]))"
  using assms owns_distinct [of "sym_free_list sy" lo hi "ram s" al "cr @ [idl]"]
  by (simp_all add: sched_state_def sched_inv_def)

lemma sched_state_trace:
  assumes "sched_state sy lo hi s al idl cr tr"
  shows "waiting cr tr = drop (length tr) cr" "idling idl tr \<longleftrightarrow> length tr = Suc (length cr)"
    "length tr \<le> Suc (length cr)"
    "tr \<noteq> [] \<Longrightarrow> \<not> idling idl tr \<Longrightarrow> last tr = taddr (cr ! (length tr - 1))"
  using take_trace [OF sched_stateD(6,3) [OF assms]] by blast+

section \<open>Every rule keeps it\<close>

lemma state_init:
  assumes hh: "heap_has (sym_free_list sy) lo hi (ram s0) al" "node_ok (thread_list (run_queue s0))"
    "span (thread_list (run_queue s0)) 8 \<inter> heap_region (sym_free_list sy) lo hi = {}"
    and i: "thread_init sy s0 = Inr (0, s)" "idle_thread s = taddr idl" "describes sy lo hi s al idl"
  shows "sched_state sy lo hi s (sblk idl # tblk idl # al) idl [] []"
proof -
  obtain t m1 stack m2 where m: "heap_malloc (sym_free_list sy) SIZEOF_THREAD (ram s0) = Some (t, m1)" "t \<noteq> 0"
    "heap_malloc (sym_free_list sy) THREAD_DEFAULT_STACK_SIZE m1 = Some (stack, m2)" "stack \<noteq> 0"
    by (rule thread_init_mallocs [OF i(1)])
  obtain ti s' where ti: "thread_init sy s0 = Inr (0, s')"
    "sched_inv sy lo hi s' (sblk ti # tblk ti # al) ti [] []"
    by (rule thread_init_ok [OF hh m])
  have s: "s' = s" using ti(1) i(1) by simp
  have "taddr ti = taddr idl" using ti(2) i(2) by (simp add: s sched_inv_def)
  moreover have "describes sy lo hi s al ti" using sched_describes [OF ti(2)] by (simp add: s)
  ultimately have "ti = idl" using describes_unique [OF _ i(3)] by blast
  with ti(2) show ?thesis by (simp add: s sched_state_def) (simp add: sched_inv_def)
qed

lemma state_create:
  assumes st: "sched_state sy lo hi s al idl cr tr" and ni: "\<not> idling idl tr"
    and c: "thread_create sy name fn arg s = Inr (0, Some (taddr ti), s')" "describes sy lo hi s' al ti"
  shows "sched_state sy lo hi s' (sblk ti # tblk ti # al) idl (cr @ [ti]) tr"
proof -
  note d = sched_stateD [OF st] and t = sched_state_trace [OF st]
  obtain m1 stack m2 where
    m: "heap_malloc (sym_free_list sy) SIZEOF_THREAD (ram s) = Some (taddr ti, m1)" "taddr ti \<noteq> 0"
    "heap_malloc (sym_free_list sy) THREAD_DEFAULT_STACK_SIZE m1 = Some (stack, m2)" "stack \<noteq> 0"
    by (rule thread_create_mallocs [OF c(1)])
  obtain tj s1 where j: "thread_create sy name fn arg s = Inr (0, Some (taddr ti), s1)" "taddr tj = taddr ti"
    "sched_inv sy lo hi s1 (sblk tj # tblk tj # al) idl (drop (length tr) cr @ [tj]) []"
    "current_thread s1 = current_thread s" "tblk tj \<notin> set al" "sblk tj \<notin> set al"
    by (rule thread_create_ok [OF d(1) m, of name fn arg]) blast
  have s: "s1 = s'" using j(1) c(1) by simp
  have "describes sy lo hi s' al tj" using sched_describes [OF j(3)] by (simp add: s)
  then have e: "tj = ti" using describes_unique [OF _ c(2)] j(2) by blast
  have le: "length tr \<le> length cr" using t(2,3) ni by simp
  then have "tr = take (length tr) (map taddr ((cr @ [ti]) @ [idl]))" using d(3) by simp
  moreover have "owns (sblk ti # tblk ti # al) ((cr @ [ti]) @ [idl])"
    using d(2) j(3,5,6) by (auto simp: e sched_inv_def owns_def)
  ultimately show ?thesis
    using j(3,4) d(4) le by (simp add: e s sched_state_def)
qed

lemma state_frame:
  assumes st: "sched_state sy lo hi s al idl cr tr"
    and u: "\<And>x. x \<notin> user_bytes al (idl # waiting cr tr) \<Longrightarrow>
       x \<in> heap_region (sym_free_list sy) lo hi \<union> span (thread_list (run_queue s)) 8 \<Longrightarrow> ram s' x = ram s x"
    and k: "run_queue s' = run_queue s" "idle_thread s' = idle_thread s" "current_thread s' = current_thread s"
  shows "sched_state sy lo hi s' al idl cr tr"
  using st sched_inv_frame [OF sched_stateD(1) [OF st] k(1,2) u] k(3) sched_state_trace(1) [OF st]
  by (simp add: sched_state_def)

lemma state_alloc:
  assumes st: "sched_state sy lo hi s al idl cr tr" and n: "0 < n" "unat n \<le> 4294967292"
    and a: "heap_malloc (sym_free_list sy) n (ram s) = Some (fst b + 12, m)" "fst b + 12 \<noteq> 0"
      "heap_has (sym_free_list sy) lo hi m (b # al)"
  shows "sched_state sy lo hi (s\<lparr>ram := m\<rparr>) (b # al) idl cr tr"
proof -
  note d = sched_stateD [OF st]
  have same: "\<forall>c \<in> set al. \<forall>x \<in> data_bytes c. m x = ram s x"
    "\<forall>x. x \<notin> heap_region (sym_free_list sy) lo hi \<longrightarrow> m x = ram s x"
    using kheap.malloc_law [OF d(5) n] a(1,2) by auto
  have "sched_inv sy lo hi (s\<lparr>ram := m\<rparr>) (b # al) idl (drop (length tr) cr) []"
    by (rule sched_inv_extend [OF d(1)]) (use a(3) same in auto)
  moreover have "owns (b # al) (cr @ [idl])" using d(2) by (auto simp: owns_def)
  ultimately show ?thesis using d(3,4) by (simp add: sched_state_def)
qed

lemma state_start:
  assumes st: "sched_state sy lo hi s al idl cr []" and b: "boot_stack_ok sy lo hi s"
  obtains s' where "thread_start_scheduler sy s = Inr s'"
    "sched_state sy lo hi s' al idl cr [current_thread s']" "enters_main sy s' ((cr @ [idl]) ! 0)"
proof -
  note d = sched_stateD [OF st]
  have q: "sched_inv sy lo hi s al idl cr []" using d(1) by simp
  have hd: "(cr @ [idl]) ! 0 = hd (cr @ [idl])" by (simp add: hd_conv_nth)
  obtain s' where s': "thread_start_scheduler sy s = Inr s'" "current_thread s' = taddr (hd (cr @ [idl]))"
    "enters_main sy s' (hd (cr @ [idl]))"
    "sched_inv sy lo hi s' al idl (tl cr) (if cr = [] then [] else [hd (cr @ [idl])])"
    by (rule thread_start_ok [OF q b refl])
  have "owns al ([] @ idl # tl cr)" using s'(4) by (auto simp: sched_inv_def owns_def)
  with s'(4) have "sched_inv sy lo hi s' al idl (tl cr) []" by (rule sched_inv_run)
  then have "sched_state sy lo hi s' al idl cr [current_thread s']"
    using d(2) s'(2) by (cases cr) (simp_all add: sched_state_def)
  with s'(1,3) hd show thesis by (intro that [of s']) simp_all
qed

lemma current_created:
  assumes st: "sched_state sy lo hi s al idl cr tr" and r: "tr \<noteq> []" "\<not> idling idl tr"
    and c: "c \<in> set cr" "taddr c = current_thread s"
  shows "length tr \<le> length cr" "c = cr ! (length tr - 1)"
    "cr = take (length tr - 1) cr @ c # drop (length tr) cr"
proof -
  note d = sched_stateD [OF st] and t = sched_state_trace [OF st]
  show le: "length tr \<le> length cr" using t(2,3) r by simp
  have lt: "length tr - 1 < length cr" using le r(1) by (cases tr) auto
  have "taddr c = taddr (cr ! (length tr - 1))" using c(2) d(4) t(4) r by simp
  moreover have "inj_on taddr (set cr)" using d(6) by (simp add: distinct_map)
  ultimately show e: "c = cr ! (length tr - 1)" using c(1) lt by (auto dest: inj_onD)
  show "cr = take (length tr - 1) cr @ c # drop (length tr) cr"
    using id_take_nth_drop [OF lt] r(1) e by (cases tr) auto
qed

lemma state_exit:
  assumes st: "sched_state sy lo hi s al idl cr tr" and r: "tr \<noteq> []" "\<not> idling idl tr"
    and c: "c \<in> set cr" "taddr c = current_thread s" and room: "stack_room s c"
  obtains s' where "thread_main_exit sy (current_thread s) s = Inr s'"
    "sched_state sy lo hi s' al idl cr (tr @ [current_thread s'])"
    "enters_main sy s' ((cr @ [idl]) ! length tr)" "current_thread s' = taddr ((cr @ [idl]) ! length tr)"
proof -
  note d = sched_stateD [OF st] and e = current_created [OF st r c]
  let ?q = "drop (length tr) cr" and ?nx = "(cr @ [idl]) ! length tr"
  have "owns al ((take (length tr - 1) cr @ c # ?q) @ [idl])" using d(2) e(3) by simp
  then have "owns al ([c] @ idl # ?q)" by (auto simp: owns_def)
  with d(1) have q: "sched_inv sy lo hi s al idl ?q [c]" by (rule sched_inv_run)
  have nx: "?nx = hd (?q @ [idl])"
    using e(1) hd_drop_conv_nth [of "length tr" "cr @ [idl]"] by simp
  obtain s' where s': "thread_main_exit sy (taddr c) s = Inr s'" "current_thread s' = taddr ?nx"
    "enters_main sy s' ?nx" "sched_inv sy lo hi s' al idl (tl ?q) (if ?q = [] then [] else [?nx])"
    by (rule thread_exit_ok [OF q c(2) [symmetric] room nx])
  have "owns al ([] @ idl # tl ?q)" using s'(4) by (auto simp: sched_inv_def owns_def)
  with s'(4) have "sched_inv sy lo hi s' al idl (tl ?q) []" by (rule sched_inv_run)
  moreover have "tl ?q = drop (length (tr @ [current_thread s'])) cr"
    by (simp add: drop_Suc tl_drop)
  moreover have "tr @ [taddr ?nx] = take (Suc (length tr)) (map taddr (cr @ [idl]))"
    using d(3) e(1) by (simp add: take_Suc_conv_app_nth del: map_append)
  then have "tr @ [current_thread s'] = take (length (tr @ [current_thread s'])) (map taddr (cr @ [idl]))"
    unfolding s'(2) length_append_singleton .
  ultimately have "sched_state sy lo hi s' al idl cr (tr @ [current_thread s'])"
    using d(2) unfolding sched_state_def by (simp only: last_snoc simp_thms)
  with s'(1-3) c(2) show thesis by (intro that [of s']) simp_all
qed

lemma sched_run_state:
  "sched_run sy lo hi s al idl cr tr \<Longrightarrow> sched_state sy lo hi s al idl cr tr"
proof (induction rule: sched_run.induct)
  case (init s0 al s idl)
  then show ?case by (intro state_init)
next
  case (create s al idl cr tr name fn arg ti s')
  then show ?case by (intro state_create)
next
  case (create_fails s al idl cr tr name fn arg e p s')
  then show ?case using thread_create_no_struct(1) [of sy s name fn arg] by simp
next
  case (alloc s al idl cr tr n b m)
  then show ?case by (intro state_alloc)
next
  case (work s al idl cr tr s')
  then show ?case by (intro state_frame [OF work.IH])
next
  case (start s al idl cr s')
  then show ?case using state_start by (metis Inr_inject)
next
  case (exit s al idl cr tr c s')
  obtain s1 where "thread_main_exit sy (current_thread s) s = Inr s1"
    "sched_state sy lo hi s1 al idl cr (tr @ [current_thread s1])"
    by (rule state_exit [OF exit.IH exit.hyps(2-6)])
  with exit.hyps(7) show ?case by simp
qed

end
