(* ===== verification/Port_IO.thy ===== *)
theory Port_IO
  imports Storm_Prelude
begin

text \<open>
  Output to the ports of the machine, \<open>src/kernel/arch/i386/io.h\<close> and \<open>io_asm.S\<close>, and the serial
  port driver \<open>uart.c\<close> with \<open>putchar.c\<close> above it. What a driver does to the hardware is the
  sequence of its port writes, oldest first; the drivers of the other devices extend this state.
\<close>

section \<open>Port writes\<close>

record ports =
  port_log :: "(u16 \<times> u8) list"

definition io_write_byte :: "u16 \<Rightarrow> u8 \<Rightarrow> 'a ports_scheme \<Rightarrow> 'a ports_scheme" where
  "io_write_byte port byte s = s\<lparr>port_log := port_log s @ [(port, byte)]\<rparr>"

lemma port_log_write [simp]: "port_log (io_write_byte p b s) = port_log s @ [(p, b)]"
  by (simp add: io_write_byte_def)

text \<open>The bytes written to one port.\<close>

definition written_to :: "u16 \<Rightarrow> 'a ports_scheme \<Rightarrow> u8 list" where
  "written_to p s = map snd (filter (\<lambda>w. fst w = p) (port_log s))"

section \<open>The serial port\<close>

abbreviation (input) UART_CLOCK_FREQ :: u32 where "UART_CLOCK_FREQ \<equiv> 115200"
abbreviation (input) UART_BAUD_RATE :: u32 where "UART_BAUD_RATE \<equiv> 115200"

definition UART_DIVISOR :: u32 where
  "UART_DIVISOR = UART_CLOCK_FREQ div UART_BAUD_RATE"

definition UART_COM1_PORT :: u16 where
  "UART_COM1_PORT = 0x3F8"

abbreviation (input) UART_DATA_REG_OFFSET :: u16 where "UART_DATA_REG_OFFSET \<equiv> 0"
abbreviation (input) UART_DIV_LOW_REG_OFFSET :: u16 where "UART_DIV_LOW_REG_OFFSET \<equiv> 0"
abbreviation (input) UART_DIV_HIGH_REG_OFFSET :: u16 where "UART_DIV_HIGH_REG_OFFSET \<equiv> 1"

definition UART_LCR_REG_OFFSET :: u16 where
  "UART_LCR_REG_OFFSET = 3"

definition UART_DLAB_BIT :: u8 where
  "UART_DLAB_BIT = push_bit 7 1"

abbreviation (input) UART_LCR_8_DATA_BITS :: u8 where "UART_LCR_8_DATA_BITS \<equiv> 0x3"
abbreviation (input) UART_LCR_1_STOP_BIT :: u8 where "UART_LCR_1_STOP_BIT \<equiv> 0x0"
abbreviation (input) UART_LCR_NO_PARITY_BIT :: u8 where "UART_LCR_NO_PARITY_BIT \<equiv> 0x0"

definition uart_init :: "'a ports_scheme \<Rightarrow> 'a ports_scheme" where
  "uart_init s =
     (let s = io_write_byte (UART_COM1_PORT + UART_LCR_REG_OFFSET) UART_DLAB_BIT s;
          s = io_write_byte (UART_COM1_PORT + UART_DIV_LOW_REG_OFFSET) (ucast UART_DIVISOR) s;
          s = io_write_byte (UART_COM1_PORT + UART_DIV_HIGH_REG_OFFSET) (ucast (drop_bit 8 UART_DIVISOR)) s;
          s = io_write_byte (UART_COM1_PORT + UART_LCR_REG_OFFSET) 0 s
      in io_write_byte (UART_COM1_PORT + UART_LCR_REG_OFFSET)
           (UART_LCR_8_DATA_BITS OR UART_LCR_1_STOP_BIT OR UART_LCR_NO_PARITY_BIT) s)"

definition uart_write_byte :: "u8 \<Rightarrow> 'a ports_scheme \<Rightarrow> 'a ports_scheme" where
  "uart_write_byte byte s = io_write_byte (UART_COM1_PORT + UART_DATA_REG_OFFSET) byte s"

text \<open>The \<open>_putchar\<close> of \<open>putchar.c\<close>, through which \<open>printf\<close> prints.\<close>

definition putchar :: "u8 \<Rightarrow> 'a ports_scheme \<Rightarrow> 'a ports_scheme" where
  "putchar c s = uart_write_byte c s"

lemmas uart_defs = UART_DIVISOR_def UART_COM1_PORT_def UART_LCR_REG_OFFSET_def UART_DLAB_BIT_def

text \<open>
  The programming model of the line: while the latch bit of the line control register (offset
  3) is set, offsets 0 and 1 are the baud rate divisor; otherwise offset 0 transmits.
\<close>

record serial_line =
  line_control :: u8
  divisor_low :: u8
  divisor_high :: u8
  sent :: "u8 list"

fun serial_step :: "serial_line \<Rightarrow> u16 \<times> u8 \<Rightarrow> serial_line" where
  "serial_step l (p, b) =
     (if p = 0x3FB then l\<lparr>line_control := b\<rparr>
      else if p = 0x3F8 then
        (if bit (line_control l) 7 then l\<lparr>divisor_low := b\<rparr> else l\<lparr>sent := sent l @ [b]\<rparr>)
      else if p = 0x3F9 \<and> bit (line_control l) 7 then l\<lparr>divisor_high := b\<rparr>
      else l)"

definition serial_run :: "serial_line \<Rightarrow> (u16 \<times> u8) list \<Rightarrow> serial_line" where
  "serial_run l ws = foldl serial_step l ws"

lemma serial_run_simps [simp]:
  "serial_run l [] = l" "serial_run l (w # ws) = serial_run (serial_step l w) ws"
  "serial_run l (ws @ vs) = serial_run (serial_run l ws) vs"
  by (simp_all add: serial_run_def)

lemma uart_init_log:
  "port_log (uart_init s) = port_log s @ [(0x3FB, 0x80), (0x3F8, 1), (0x3F9, 0), (0x3FB, 0), (0x3FB, 3)]"
  by (simp add: uart_init_def uart_defs)

lemma uart_init_line:
  "serial_run l (port_log (uart_init s)) =
     (serial_run l (port_log s))\<lparr>line_control := 3, divisor_low := 1, divisor_high := 0\<rparr>"
  by (simp add: uart_init_log bit_numeral_word_iff)

lemma putchars_log: "port_log (fold putchar cs s) = port_log s @ map (Pair 0x3F8) cs"
  by (induction cs arbitrary: s) (simp_all add: putchar_def uart_write_byte_def uart_defs)

lemma serial_send:
  "\<not> bit (line_control l) 7 \<Longrightarrow> serial_run l (map (Pair 0x3F8) cs) = l\<lparr>sent := sent l @ cs\<rparr>"
  by (induction cs arbitrary: l) simp_all

lemma putchars_sent:
  assumes "\<not> bit (line_control (serial_run l (port_log s))) 7"
  shows "sent (serial_run l (port_log (fold putchar cs s))) = sent (serial_run l (port_log s)) @ cs"
  by (simp add: putchars_log serial_send [OF assms])

end
