(* ===== verification/Pic_8259.thy ===== *)
theory Pic_8259
  imports Port_IO
begin

text \<open>
  The interrupt controllers, \<open>src/kernel/arch/i386/i8259.c\<close>: the driver with its two static
  \<open>struct i8259_pic\<close>, the controller as the comments of \<open>i8259_init\<close> describe it, the refinement
  between the mask register of the controllers and the copy \<open>imr\<close> the driver keeps, and the
  interface of an interrupt controller the rest of the kernel relies on.
\<close>

section \<open>The driver\<close>

definition I8259_NO_IRQS :: u8 where
  "I8259_NO_IRQS = 16"

abbreviation (input) I8259_MASTER_PIC_CMD_PORT :: u16 where "I8259_MASTER_PIC_CMD_PORT \<equiv> 0x20"
abbreviation (input) I8259_MASTER_PIC_DATA_PORT :: u16 where "I8259_MASTER_PIC_DATA_PORT \<equiv> 0x21"
abbreviation (input) I8259_SLAVE_PIC_CMD_PORT :: u16 where "I8259_SLAVE_PIC_CMD_PORT \<equiv> 0xA0"
abbreviation (input) I8259_SLAVE_PIC_DATA_PORT :: u16 where "I8259_SLAVE_PIC_DATA_PORT \<equiv> 0xA1"

definition I8259_SLAVE_IRQ :: u8 where
  "I8259_SLAVE_IRQ = 2"

definition I8259_INIT_CMD :: u8 where
  "I8259_INIT_CMD = 0x11"

definition I8259_EOI_CMD :: u8 where
  "I8259_EOI_CMD = 0x20"

definition I8259_8086_MODE :: u8 where
  "I8259_8086_MODE = 1"

definition IDT_IRQ_BASE :: u32 where
  "IDT_IRQ_BASE = 32"

record i8259_pic =
  cmd_port :: u16
  data_port :: u16
  imr :: u8

record pics = ports +
  master_pic :: i8259_pic
  slave_pic :: i8259_pic

definition i8259_pic_init :: "u16 \<Rightarrow> u16 \<Rightarrow> i8259_pic \<Rightarrow> i8259_pic" where
  "i8259_pic_init cmd data pic = pic\<lparr>cmd_port := cmd, data_port := data, imr := 0xff\<rparr>"

definition i8259_pic_write_cmd :: "i8259_pic \<Rightarrow> u8 \<Rightarrow> 'a ports_scheme \<Rightarrow> 'a ports_scheme" where
  "i8259_pic_write_cmd pic byte s = io_write_byte (cmd_port pic) byte s"

definition i8259_pic_write_data :: "i8259_pic \<Rightarrow> u8 \<Rightarrow> 'a ports_scheme \<Rightarrow> 'a ports_scheme" where
  "i8259_pic_write_data pic byte s = io_write_byte (data_port pic) byte s"

definition i8259_pic_update_imr :: "i8259_pic \<Rightarrow> 'a ports_scheme \<Rightarrow> 'a ports_scheme" where
  "i8259_pic_update_imr pic s = i8259_pic_write_data pic (imr pic) s"

text \<open>
  The arithmetic is that of \<open>int\<close>; the assignment to \<open>imr\<close> keeps the low byte. The result is the
  structure the pointer names and the machine.
\<close>

definition i8259_pic_enable_irq :: "u8 \<Rightarrow> i8259_pic \<Rightarrow> 'a ports_scheme \<Rightarrow> i8259_pic \<times> 'a ports_scheme" where
  "i8259_pic_enable_irq irq pic s =
     (let pic = pic\<lparr>imr := ucast ((ucast (imr pic) :: u32) AND NOT (push_bit (unat irq) 1))\<rparr>
      in (pic, i8259_pic_update_imr pic s))"

definition i8259_pic_disable_irq :: "u8 \<Rightarrow> i8259_pic \<Rightarrow> 'a ports_scheme \<Rightarrow> i8259_pic \<times> 'a ports_scheme" where
  "i8259_pic_disable_irq irq pic s =
     (let pic = pic\<lparr>imr := ucast ((ucast (imr pic) :: u32) OR push_bit (unat irq) 1)\<rparr>
      in (pic, i8259_pic_update_imr pic s))"

definition i8259_pic_send_eoi :: "i8259_pic \<Rightarrow> 'a ports_scheme \<Rightarrow> 'a ports_scheme" where
  "i8259_pic_send_eoi pic s = i8259_pic_write_cmd pic I8259_EOI_CMD s"

definition i8259_enable_irq :: "u8 \<Rightarrow> 'a pics_scheme \<Rightarrow> 'a pics_scheme res" where
  "i8259_enable_irq irq s =
     bind_res (kassert (irq < I8259_NO_IRQS) ''irq < I8259_NO_IRQS'') (\<lambda>_.
       if irq \<ge> 8 then
         (let (pic, s) = i8259_pic_enable_irq (irq - 8) (slave_pic s) s in Inr (s\<lparr>slave_pic := pic\<rparr>))
       else
         (let (pic, s) = i8259_pic_enable_irq irq (master_pic s) s in Inr (s\<lparr>master_pic := pic\<rparr>)))"

definition i8259_disable_irq :: "u8 \<Rightarrow> 'a pics_scheme \<Rightarrow> 'a pics_scheme res" where
  "i8259_disable_irq irq s =
     bind_res (kassert (irq < I8259_NO_IRQS) ''irq < I8259_NO_IRQS'') (\<lambda>_.
       if irq \<ge> 8 then
         (let (pic, s) = i8259_pic_disable_irq (irq - 8) (slave_pic s) s in Inr (s\<lparr>slave_pic := pic\<rparr>))
       else
         (let (pic, s) = i8259_pic_disable_irq irq (master_pic s) s in Inr (s\<lparr>master_pic := pic\<rparr>)))"

definition i8259_send_eoi :: "u8 \<Rightarrow> 'a pics_scheme \<Rightarrow> 'a pics_scheme" where
  "i8259_send_eoi irq s =
     (let s = (if irq \<ge> 8 then i8259_pic_send_eoi (slave_pic s) s else s)
      in i8259_pic_send_eoi (master_pic s) s)"

definition i8259_master_pic_init :: "i8259_pic \<Rightarrow> i8259_pic" where
  "i8259_master_pic_init pic = i8259_pic_init I8259_MASTER_PIC_CMD_PORT I8259_MASTER_PIC_DATA_PORT pic"

definition i8259_slave_pic_init :: "i8259_pic \<Rightarrow> i8259_pic" where
  "i8259_slave_pic_init pic = i8259_pic_init I8259_SLAVE_PIC_CMD_PORT I8259_SLAVE_PIC_DATA_PORT pic"

definition i8259_init :: "'a pics_scheme \<Rightarrow> 'a pics_scheme res" where
  "i8259_init s =
     (let s = s\<lparr>master_pic := i8259_master_pic_init (master_pic s)\<rparr>;
          s = s\<lparr>slave_pic := i8259_slave_pic_init (slave_pic s)\<rparr>;
          s = i8259_pic_write_cmd (master_pic s) I8259_INIT_CMD s;
          s = i8259_pic_write_cmd (slave_pic s) I8259_INIT_CMD s;
          s = i8259_pic_write_data (master_pic s) (ucast IDT_IRQ_BASE) s;
          s = i8259_pic_write_data (slave_pic s) (ucast (IDT_IRQ_BASE + 8)) s;
          s = i8259_pic_write_data (master_pic s) (push_bit (unat I8259_SLAVE_IRQ) 1) s;
          s = i8259_pic_write_data (slave_pic s) I8259_SLAVE_IRQ s;
          s = i8259_pic_write_data (master_pic s) I8259_8086_MODE s;
          s = i8259_pic_write_data (slave_pic s) I8259_8086_MODE s;
          s = i8259_pic_update_imr (master_pic s) s;
          s = i8259_pic_update_imr (slave_pic s) s
      in i8259_enable_irq I8259_SLAVE_IRQ s)"

lemmas pic_write_defs = i8259_pic_write_cmd_def i8259_pic_write_data_def i8259_pic_update_imr_def
  i8259_pic_send_eoi_def io_write_byte_def
lemmas pic_irq_defs = i8259_enable_irq_def i8259_disable_irq_def i8259_pic_enable_irq_def
  i8259_pic_disable_irq_def pic_write_defs
lemmas pic_consts = I8259_NO_IRQS_def I8259_SLAVE_IRQ_def I8259_INIT_CMD_def I8259_EOI_CMD_def
  I8259_8086_MODE_def IDT_IRQ_BASE_def

section \<open>The controller\<close>

text \<open>
  As the comments of \<open>i8259_init\<close> describe it: the first initialisation word on the command port
  makes the controller wait for three words on the data port, the vector offset, the cascade
  wiring and the mode. Later words on the data port are the interrupt mask. Other commands
  (\<open>end of interrupt\<close>) are counted.
\<close>

record controller =
  pending :: nat
  offset :: u8
  cascade :: u8
  pmode :: u8
  mask :: u8
  eois :: nat

definition controller_cmd :: "u8 \<Rightarrow> controller \<Rightarrow> controller" where
  "controller_cmd b c = (if bit b 4 then c\<lparr>pending := 3\<rparr> else c\<lparr>eois := eois c + 1\<rparr>)"

definition controller_data :: "u8 \<Rightarrow> controller \<Rightarrow> controller" where
  "controller_data b c =
     (if pending c = 3 then c\<lparr>offset := b, pending := 2\<rparr>
      else if pending c = 2 then c\<lparr>cascade := b, pending := 1\<rparr>
      else if pending c = 1 then c\<lparr>pmode := b, pending := 0\<rparr>
      else c\<lparr>mask := b\<rparr>)"

fun controllers_step :: "controller \<times> controller \<Rightarrow> u16 \<times> u8 \<Rightarrow> controller \<times> controller" where
  "controllers_step (m, sl) (p, b) =
     (if p = 0x20 then (controller_cmd b m, sl)
      else if p = 0x21 then (controller_data b m, sl)
      else if p = 0xA0 then (m, controller_cmd b sl)
      else if p = 0xA1 then (m, controller_data b sl)
      else (m, sl))"

definition controllers_run :: "controller \<times> controller \<Rightarrow> (u16 \<times> u8) list \<Rightarrow> controller \<times> controller" where
  "controllers_run cs ws = foldl controllers_step cs ws"

lemma controllers_run_simps [simp]:
  "controllers_run cs [] = cs" "controllers_run cs (w # ws) = controllers_run (controllers_step cs w) ws"
  "controllers_run cs (ws @ vs) = controllers_run (controllers_run cs ws) vs"
  by (simp_all add: controllers_run_def)

section \<open>The interface of an interrupt controller\<close>

locale irq_controller =
  fixes enable :: "u8 \<Rightarrow> 's \<Rightarrow> 's res"
    and disable :: "u8 \<Rightarrow> 's \<Rightarrow> 's res"
    and masked :: "'s \<Rightarrow> u8 \<Rightarrow> bool"
    and ok :: "'s \<Rightarrow> bool"
  assumes enable_law: "ok s \<Longrightarrow> irq < 16 \<Longrightarrow>
      \<exists>s'. enable irq s = Inr s' \<and> ok s' \<and> (\<forall>k < 16. masked s' k \<longleftrightarrow> masked s k \<and> k \<noteq> irq)"
    and disable_law: "ok s \<Longrightarrow> irq < 16 \<Longrightarrow>
      \<exists>s'. disable irq s = Inr s' \<and> ok s' \<and> (\<forall>k < 16. masked s' k \<longleftrightarrow> masked s k \<or> k = irq)"
    and range_law: "16 \<le> irq \<Longrightarrow> \<exists>msg. enable irq s = Inl (Panic msg) \<and> disable irq s = Inl (Panic msg)"
begin

fun enable_each :: "u8 list \<Rightarrow> 's \<Rightarrow> 's res" where
  "enable_each [] s = Inr s"
| "enable_each (i # is) s = bind_res (enable i s) (enable_each is)"

lemma enable_each_mask:
  assumes "ok s" "\<forall>i \<in> set irqs. i < 16"
  shows "\<exists>s'. enable_each irqs s = Inr s' \<and> ok s' \<and> (\<forall>k < 16. masked s' k \<longleftrightarrow> masked s k \<and> k \<notin> set irqs)"
  using assms
proof (induction irqs arbitrary: s)
  case (Cons i irqs)
  from enable_law [of s i] Cons.prems obtain s1 where
    s1: "enable i s = Inr s1" "ok s1" "\<forall>k < 16. masked s1 k \<longleftrightarrow> masked s k \<and> k \<noteq> i" by auto
  from Cons.IH [OF s1(2)] Cons.prems obtain s2 where
    "enable_each irqs s1 = Inr s2" "ok s2" "\<forall>k < 16. masked s2 k \<longleftrightarrow> masked s1 k \<and> k \<notin> set irqs" by auto
  with s1 show ?case by auto
qed simp

text \<open>Masking an interrupt for a while and unmasking it again restores the mask.\<close>

lemma disable_enable:
  assumes "ok s" "irq < 16" "\<not> masked s irq"
  shows "\<exists>s' s''. disable irq s = Inr s' \<and> enable irq s' = Inr s'' \<and> ok s'' \<and> masked s' irq
     \<and> (\<forall>k < 16. masked s'' k \<longleftrightarrow> masked s k)"
proof -
  from disable_law [OF assms(1,2)] obtain s' where
    s': "disable irq s = Inr s'" "ok s'" "\<forall>k < 16. masked s' k \<longleftrightarrow> masked s k \<or> k = irq" by auto
  from enable_law [OF s'(2) assms(2)] obtain s'' where
    "enable irq s' = Inr s''" "ok s''" "\<forall>k < 16. masked s'' k \<longleftrightarrow> masked s' k \<and> k \<noteq> irq" by auto
  with s' assms(2,3) show ?thesis by blast
qed

end

section \<open>The driver provides it\<close>

definition irq_masked :: "'a pics_scheme \<Rightarrow> u8 \<Rightarrow> bool" where
  "irq_masked s irq \<longleftrightarrow>
     (if irq \<ge> 8 then bit (imr (slave_pic s)) (unat (irq - 8)) else bit (imr (master_pic s)) (unat irq))"

text \<open>The ports are set, and the controllers, having seen the log, are as the driver believes.\<close>

definition pics_ok :: "controller \<times> controller \<Rightarrow> 'a pics_scheme \<Rightarrow> bool" where
  "pics_ok cs s \<longleftrightarrow>
     cmd_port (master_pic s) = 0x20 \<and> data_port (master_pic s) = 0x21
     \<and> cmd_port (slave_pic s) = 0xA0 \<and> data_port (slave_pic s) = 0xA1
     \<and> (\<exists>e f. controllers_run cs (port_log s) =
       (\<lparr>pending = 0, offset = 32, cascade = 4, pmode = 1, mask = imr (master_pic s), eois = e\<rparr>,
        \<lparr>pending = 0, offset = 40, cascade = 2, pmode = 1, mask = imr (slave_pic s), eois = f\<rparr>))"

lemma pic_enable_fields:
  assumes "i8259_pic_enable_irq irq p s = (p', s')"
  shows "cmd_port p' = cmd_port p" "data_port p' = data_port p" "s' = i8259_pic_update_imr p' s"
    "k < 8 \<Longrightarrow> bit (imr p') k \<longleftrightarrow> bit (imr p) k \<and> k \<noteq> unat irq"
  using assms by (auto simp: i8259_pic_enable_irq_def Let_def bit_simps)

lemma pic_disable_fields:
  assumes "i8259_pic_disable_irq irq p s = (p', s')"
  shows "cmd_port p' = cmd_port p" "data_port p' = data_port p" "s' = i8259_pic_update_imr p' s"
    "k < 8 \<Longrightarrow> bit (imr p') k \<longleftrightarrow> bit (imr p) k \<or> k = unat irq"
  using assms by (auto simp: i8259_pic_disable_irq_def Let_def bit_simps)

lemma irq_split:
  fixes k irq :: u8
  assumes "k < 16" "irq < 16"
  shows "8 \<le> k \<Longrightarrow> unat (k - 8) < 8" "\<not> 8 \<le> k \<Longrightarrow> unat k < 8"
    "8 \<le> k \<Longrightarrow> 8 \<le> irq \<Longrightarrow> unat (k - 8) = unat (irq - 8) \<longleftrightarrow> k = irq"
    "unat k = unat irq \<longleftrightarrow> k = irq"
  using assms by (auto simp: word_le_nat_alt word_less_nat_alt unat_sub word_unat_eq_iff)

lemma update_imr_ok:
  assumes "pics_ok cs s"
  shows "cmd_port p = 0x20 \<Longrightarrow> data_port p = 0x21 \<Longrightarrow> pics_ok cs ((i8259_pic_update_imr p s)\<lparr>master_pic := p\<rparr>)"
    "cmd_port p = 0xA0 \<Longrightarrow> data_port p = 0xA1 \<Longrightarrow> pics_ok cs ((i8259_pic_update_imr p s)\<lparr>slave_pic := p\<rparr>)"
  using assms by (auto simp: pics_ok_def pic_write_defs controller_data_def)

lemma pics_ok_ports:
  assumes "pics_ok cs s"
  shows "cmd_port (master_pic s) = 0x20" "data_port (master_pic s) = 0x21"
    "cmd_port (slave_pic s) = 0xA0" "data_port (slave_pic s) = 0xA1"
  using assms by (simp_all add: pics_ok_def)

lemma update_imr_pics [simp]:
  "master_pic (i8259_pic_update_imr p s) = master_pic s" "slave_pic (i8259_pic_update_imr p s) = slave_pic s"
  by (simp_all add: pic_write_defs)

lemma enable_irq_ok:
  assumes "pics_ok cs s" "irq < 16"
  shows "\<exists>s'. i8259_enable_irq irq s = Inr s' \<and> pics_ok cs s'
     \<and> (\<forall>k < 16. irq_masked s' k \<longleftrightarrow> irq_masked s k \<and> k \<noteq> irq)"
proof (cases "8 \<le> irq")
  case True
  obtain p t where p: "i8259_pic_enable_irq (irq - 8) (slave_pic s) s = (p, t)" by fastforce
  note f = pic_enable_fields [OF p]
  have "pics_ok cs (t\<lparr>slave_pic := p\<rparr>)" unfolding f(3)
    by (rule update_imr_ok(2) [OF assms(1)]) (simp_all add: f(1,2) pics_ok_ports [OF assms(1)])
  with True p show ?thesis using assms(2) irq_split
    by (auto simp: i8259_enable_irq_def I8259_NO_IRQS_def irq_masked_def f(3,4))
next
  case False
  obtain p t where p: "i8259_pic_enable_irq irq (master_pic s) s = (p, t)" by fastforce
  note f = pic_enable_fields [OF p]
  have "pics_ok cs (t\<lparr>master_pic := p\<rparr>)" unfolding f(3)
    by (rule update_imr_ok(1) [OF assms(1)]) (simp_all add: f(1,2) pics_ok_ports [OF assms(1)])
  with False p show ?thesis using assms(2) irq_split
    by (auto simp: i8259_enable_irq_def I8259_NO_IRQS_def irq_masked_def f(3,4))
qed

lemma disable_irq_ok:
  assumes "pics_ok cs s" "irq < 16"
  shows "\<exists>s'. i8259_disable_irq irq s = Inr s' \<and> pics_ok cs s'
     \<and> (\<forall>k < 16. irq_masked s' k \<longleftrightarrow> irq_masked s k \<or> k = irq)"
proof (cases "8 \<le> irq")
  case True
  obtain p t where p: "i8259_pic_disable_irq (irq - 8) (slave_pic s) s = (p, t)" by fastforce
  note f = pic_disable_fields [OF p]
  have "pics_ok cs (t\<lparr>slave_pic := p\<rparr>)" unfolding f(3)
    by (rule update_imr_ok(2) [OF assms(1)]) (simp_all add: f(1,2) pics_ok_ports [OF assms(1)])
  with True p show ?thesis using assms(2) irq_split
    by (auto simp: i8259_disable_irq_def I8259_NO_IRQS_def irq_masked_def f(3,4))
next
  case False
  obtain p t where p: "i8259_pic_disable_irq irq (master_pic s) s = (p, t)" by fastforce
  note f = pic_disable_fields [OF p]
  have "pics_ok cs (t\<lparr>master_pic := p\<rparr>)" unfolding f(3)
    by (rule update_imr_ok(1) [OF assms(1)]) (simp_all add: f(1,2) pics_ok_ports [OF assms(1)])
  with False p show ?thesis using assms(2) irq_split
    by (auto simp: i8259_disable_irq_def I8259_NO_IRQS_def irq_masked_def f(3,4))
qed

interpretation pic: irq_controller i8259_enable_irq i8259_disable_irq irq_masked "pics_ok cs" for cs
proof (unfold_locales, goal_cases)
  case (1 s irq)
  then show ?case by (rule enable_irq_ok)
next
  case (2 s irq)
  then show ?case by (rule disable_irq_ok)
next
  case (3 irq s)
  then show ?case
    by (auto simp: i8259_enable_irq_def i8259_disable_irq_def I8259_NO_IRQS_def kassert_def panic_def)
qed

section \<open>Initialisation and end of interrupt\<close>

lemma bit_all_masked: "n < 8 \<Longrightarrow> bit (255 :: int) n"
proof -
  assume "n < 8"
  then have "n \<in> {0, 1, 2, 3, 4, 5, 6, 7}" by auto
  then show ?thesis by (auto simp: bit_iff_odd)
qed

lemma i8259_init_ok:
  "\<exists>s'. i8259_init s = Inr s' \<and> pics_ok cs s' \<and> (\<forall>k < 16. irq_masked s' k \<longleftrightarrow> k \<noteq> 2)"
proof -
  obtain m sl where cs: "controllers_run cs (port_log s) = (m, sl)" by fastforce
  let ?s = "s\<lparr>master_pic := master_pic s\<lparr>cmd_port := 0x20, data_port := 0x21, imr := 0xFF\<rparr>,
      slave_pic := slave_pic s\<lparr>cmd_port := 0xA0, data_port := 0xA1, imr := 0xFF\<rparr>,
      port_log := port_log s @ [(0x20, 0x11), (0xA0, 0x11), (0x21, 32), (0xA1, 40), (0x21, 4), (0xA1, 2),
        (0x21, 1), (0xA1, 1), (0x21, 0xFF), (0xA1, 0xFF)]\<rparr>"
  have e: "i8259_init s = i8259_enable_irq 2 ?s"
    by (simp add: i8259_init_def Let_def pic_write_defs pic_consts i8259_master_pic_init_def
        i8259_slave_pic_init_def i8259_pic_init_def)
  have "pics_ok cs ?s"
    by (cases m; cases sl)
      (simp add: pics_ok_def cs controller_cmd_def controller_data_def bit_numeral_word_iff)
  moreover have "irq_masked ?s k" if "k < 16" for k :: u8
    using irq_split [OF that that] by (auto simp: irq_masked_def bit_all_masked)
  ultimately show ?thesis unfolding e using enable_irq_ok [of cs ?s 2] by auto
qed

text \<open>An interrupt of the slave is acknowledged at both controllers, one of the master at it alone.\<close>

lemma send_eoi_ok:
  assumes "pics_ok cs s"
  shows "pics_ok cs (i8259_send_eoi irq s)"
    "master_pic (i8259_send_eoi irq s) = master_pic s" "slave_pic (i8259_send_eoi irq s) = slave_pic s"
    "port_log (i8259_send_eoi irq s) = port_log s @ (if 8 \<le> irq then [(0xA0, 0x20)] else []) @ [(0x20, 0x20)]"
    "eois (fst (controllers_run cs (port_log (i8259_send_eoi irq s)))) =
       eois (fst (controllers_run cs (port_log s))) + 1"
    "eois (snd (controllers_run cs (port_log (i8259_send_eoi irq s)))) =
       eois (snd (controllers_run cs (port_log s))) + (if 8 \<le> irq then 1 else 0)"
  using assms
  by (auto simp: pics_ok_def i8259_send_eoi_def Let_def pic_write_defs pic_consts controller_cmd_def
      bit_numeral_word_iff)

end
