(* ===== verification/Interrupts.thy ===== *)
theory Interrupts
  imports Pic_8259
begin

text \<open>
  Dispatch of exceptions and interrupts, \<open>src/kernel/arch/i386/cpu/interrupts.c\<close>. The handlers
  registered are function pointers; what a call of one does is the argument \<open>call\<close> of the
  definitions (address, argument, state).
\<close>

section \<open>The code\<close>

record irq_handler =
  hfn :: u32
  harg :: u32

record irqs = pics +
  irq_handlers :: "irq_handler list"

text \<open>\<open>sizeof(irq_handlers)\<close>: sixteen structures of two words.\<close>

definition SIZEOF_IRQ_HANDLERS :: u32 where
  "SIZEOF_IRQ_HANDLERS = 128"

record registers =
  r_edi :: u32
  r_esi :: u32
  r_ebp :: u32
  r_esp :: u32
  r_ebx :: u32
  r_edx :: u32
  r_ecx :: u32
  r_eax :: u32

record interrupt_stack_frame =
  frame_registers :: registers
  int_no :: u32
  frame_error :: u32
  frame_eip :: u32
  frame_cs :: u32
  frame_eflags :: u32

definition irq_handler_init :: "u32 \<Rightarrow> u32 \<Rightarrow> irq_handler \<Rightarrow> irq_handler" where
  "irq_handler_init f a h = h\<lparr>hfn := f, harg := a\<rparr>"

definition irq_handler_execute :: "(u32 \<Rightarrow> u32 \<Rightarrow> 's \<Rightarrow> 's res) \<Rightarrow> irq_handler \<Rightarrow> 's \<Rightarrow> 's res" where
  "irq_handler_execute call h s = (if hfn h \<noteq> 0 then call (hfn h) (harg h) s else Inr s)"

definition divide_error_exception_handler :: "'s res" where
  "divide_error_exception_handler = panic ''Divide error''"

definition gp_fault_exception_handler :: "'s res" where
  "gp_fault_exception_handler = panic ''General protection fault''"

abbreviation (input) IDT_DIVIDE_ERROR_INT_NO :: u32 where "IDT_DIVIDE_ERROR_INT_NO \<equiv> 0"
abbreviation (input) IDT_GP_FAULT_INT_NO :: u32 where "IDT_GP_FAULT_INT_NO \<equiv> 13"

definition interrupt_handle_cpu_exception :: "interrupt_stack_frame \<Rightarrow> 's res" where
  "interrupt_handle_cpu_exception frame =
     (if int_no frame = IDT_DIVIDE_ERROR_INT_NO then divide_error_exception_handler
      else if int_no frame = IDT_GP_FAULT_INT_NO then gp_fault_exception_handler
      else panic ''Unhandled exception'')"

definition interrupt_handle_irq ::
  "(u32 \<Rightarrow> u32 \<Rightarrow> 'a irqs_scheme \<Rightarrow> 'a irqs_scheme res) \<Rightarrow> u8 \<Rightarrow> 'a irqs_scheme \<Rightarrow> 'a irqs_scheme res" where
  "interrupt_handle_irq call irq s =
     (let s = i8259_send_eoi irq s in
      bind_res (kassert (ucast irq < SIZEOF_IRQ_HANDLERS) ''irq < sizeof(irq_handlers)'') (\<lambda>_.
        if unat irq < length (irq_handlers s)
        then irq_handler_execute call (irq_handlers s ! unat irq) s
        else Inl OutOfBounds))"

definition isr_main ::
  "(u32 \<Rightarrow> u32 \<Rightarrow> 'a irqs_scheme \<Rightarrow> 'a irqs_scheme res) \<Rightarrow> interrupt_stack_frame
    \<Rightarrow> 'a irqs_scheme \<Rightarrow> 'a irqs_scheme res" where
  "isr_main call frame s =
     (if int_no frame < IDT_IRQ_BASE then interrupt_handle_cpu_exception frame
      else interrupt_handle_irq call (ucast (int_no frame - IDT_IRQ_BASE)) s)"

text \<open>The handler \<open>i\<close> of the loop of \<open>interrupts_init\<close>, for \<open>i\<close> from 0 to 15.\<close>

definition interrupts_init :: "'a irqs_scheme \<Rightarrow> 'a irqs_scheme" where
  "interrupts_init s = s\<lparr>irq_handlers :=
     fold (\<lambda>i hs. hs[i := irq_handler_init 0 0 (hs ! i)]) [0..<16] (irq_handlers s)\<rparr>"

definition interrupts_register_irq :: "u8 \<Rightarrow> u32 \<Rightarrow> u32 \<Rightarrow> 'a irqs_scheme \<Rightarrow> 'a irqs_scheme res" where
  "interrupts_register_irq irq f a s =
     bind_res (kassert (ucast irq < SIZEOF_IRQ_HANDLERS) ''irq < sizeof(irq_handlers)'') (\<lambda>_.
       if unat irq < length (irq_handlers s)
       then i8259_enable_irq irq
         (s\<lparr>irq_handlers := (irq_handlers s)[unat irq := irq_handler_init f a (irq_handlers s ! unat irq)]\<rparr>)
       else Inl OutOfBounds)"

section \<open>Which handler runs\<close>

definition handler_of :: "'a irqs_scheme \<Rightarrow> u8 \<Rightarrow> u32 \<times> u32" where
  "handler_of s irq = (hfn (irq_handlers s ! unat irq), harg (irq_handlers s ! unat irq))"

definition irqs_ok :: "controller \<times> controller \<Rightarrow> 'a irqs_scheme \<Rightarrow> bool" where
  "irqs_ok cs s \<longleftrightarrow> pics_ok cs s \<and> length (irq_handlers s) = 16"

lemma small_irq:
  fixes irq :: u8
  assumes "irq < 16"
  shows "unat irq < 16" "(ucast irq :: u32) < SIZEOF_IRQ_HANDLERS"
  using assms by (auto simp: word_less_nat_alt SIZEOF_IRQ_HANDLERS_def)

lemma irq_bound: "(ucast (irq :: u8) :: u32) < SIZEOF_IRQ_HANDLERS \<longleftrightarrow> unat irq < 128"
  by (simp add: word_less_nat_alt SIZEOF_IRQ_HANDLERS_def)

lemma init_handlers:
  assumes "length hs = 16" "n \<le> 16"
  shows "length (fold (\<lambda>i hs. hs[i := irq_handler_init 0 0 (hs ! i)]) [0..<n] hs) = 16
    \<and> (\<forall>k < n. hfn (fold (\<lambda>i hs. hs[i := irq_handler_init 0 0 (hs ! i)]) [0..<n] hs ! k) = 0)"
  using assms(2)
proof (induction n)
  case (Suc n)
  then show ?case using assms(1) by (auto simp: nth_list_update irq_handler_init_def less_Suc_eq)
qed (use assms in simp)

lemma interrupts_init_ok:
  assumes "length (irq_handlers s) = 16"
  shows "length (irq_handlers (interrupts_init s)) = 16"
    "irq < 16 \<Longrightarrow> fst (handler_of (interrupts_init s) irq) = 0"
  using init_handlers [OF assms, of 16] small_irq(1)
  by (simp_all add: interrupts_init_def handler_of_def)

lemma pics_ok_handlers [simp]:
  "pics_ok cs (s\<lparr>irq_handlers := hs\<rparr>) = pics_ok cs s" "irq_masked (s\<lparr>irq_handlers := hs\<rparr>) = irq_masked s"
  by (simp_all add: pics_ok_def irq_masked_def fun_eq_iff)

lemma enable_irq_handlers: "i8259_enable_irq irq s = Inr s' \<Longrightarrow> irq_handlers s' = irq_handlers s"
  by (auto simp: bind_res_Inr_iff Let_def pic_irq_defs split: if_splits)

lemma send_eoi_handlers [simp]: "irq_handlers (i8259_send_eoi irq s) = irq_handlers s"
  by (simp add: i8259_send_eoi_def Let_def pic_write_defs)

lemma register_irq_ok:
  assumes "irqs_ok cs s" "irq < 16"
  shows "\<exists>s'. interrupts_register_irq irq f a s = Inr s' \<and> irqs_ok cs s'
     \<and> handler_of s' irq = (f, a) \<and> (\<forall>k < 16. k \<noteq> irq \<longrightarrow> handler_of s' k = handler_of s k)
     \<and> (\<forall>k < 16. irq_masked s' k \<longleftrightarrow> irq_masked s k \<and> k \<noteq> irq)"
proof -
  let ?s = "s\<lparr>irq_handlers := (irq_handlers s)[unat irq := irq_handler_init f a (irq_handlers s ! unat irq)]\<rparr>"
  have l: "length (irq_handlers s) = 16" and p: "pics_ok cs ?s" using assms(1) by (simp_all add: irqs_ok_def)
  note i = small_irq [OF assms(2)]
  obtain s' where s': "i8259_enable_irq irq ?s = Inr s'" "pics_ok cs s'"
    "\<forall>k < 16. irq_masked s' k \<longleftrightarrow> irq_masked s k \<and> k \<noteq> irq"
    using pic.enable_law [OF p assms(2)] by auto
  have h: "irq_handlers s' = (irq_handlers s)[unat irq := irq_handler_init f a (irq_handlers s ! unat irq)]"
    using enable_irq_handlers [OF s'(1)] by simp
  have "interrupts_register_irq irq f a s = Inr s'"
    using s'(1) i l by (simp add: interrupts_register_irq_def)
  moreover have "handler_of s' k = handler_of s k" if "k \<noteq> irq" for k
  proof -
    have "unat k \<noteq> unat irq" using that by (simp add: word_unat_eq_iff)
    then show ?thesis by (simp add: handler_of_def h nth_list_update)
  qed
  ultimately show ?thesis
    using s'(2,3) i l by (auto simp: irqs_ok_def h handler_of_def irq_handler_init_def nth_list_update)
qed

lemma handle_irq_ok:
  assumes "irqs_ok cs s" "irq < 16"
  shows "interrupt_handle_irq call irq s = (if fst (handler_of s irq) = 0 then Inr (i8259_send_eoi irq s)
     else call (fst (handler_of s irq)) (snd (handler_of s irq)) (i8259_send_eoi irq s))"
  using assms small_irq [OF assms(2)]
  by (simp add: interrupt_handle_irq_def Let_def irqs_ok_def handler_of_def irq_handler_execute_def)

lemma isr_main_irq:
  assumes "irqs_ok cs s" "int_no frame = 32 + ucast irq" "irq < 16"
  shows "isr_main call frame s = (if fst (handler_of s irq) = 0 then Inr (i8259_send_eoi irq s)
     else call (fst (handler_of s irq)) (snd (handler_of s irq)) (i8259_send_eoi irq s))"
proof -
  have "\<not> int_no frame < IDT_IRQ_BASE"
    using small_irq(1) [OF assms(3)] unat_add_u32 [of 32 "ucast irq"] assms(2)
    by (simp add: IDT_IRQ_BASE_def word_less_nat_alt)
  moreover have "ucast (int_no frame - IDT_IRQ_BASE) = irq"
    using assms(2) by (simp add: IDT_IRQ_BASE_def)
  ultimately show ?thesis
    using handle_irq_ok [OF assms(1,3), of call] by (simp add: isr_main_def)
qed

text \<open>The two assertions compare the number with the size of the array in bytes.\<close>

lemma register_irq_beyond:
  assumes "length (irq_handlers s) = 16" "16 \<le> unat irq"
  shows "interrupts_register_irq irq f a s =
    (if unat irq < 128 then Inl OutOfBounds
     else Inl (Panic ''Assertion failed: irq < sizeof(irq_handlers)''))"
  using assms by (simp add: interrupts_register_irq_def irq_bound)

lemma handle_irq_beyond:
  assumes "length (irq_handlers s) = 16" "16 \<le> unat irq"
  shows "interrupt_handle_irq call irq s =
    (if unat irq < 128 then Inl OutOfBounds
     else Inl (Panic ''Assertion failed: irq < sizeof(irq_handlers)''))"
  using assms by (simp add: interrupt_handle_irq_def Let_def irq_bound)

lemma isr_main_exception:
  assumes "int_no frame < 32"
  shows "isr_main call frame s = Inl (Panic (
    if int_no frame = 0 then ''Divide error''
    else if int_no frame = 13 then ''General protection fault'' else ''Unhandled exception''))"
  using assms
  by (simp add: isr_main_def IDT_IRQ_BASE_def interrupt_handle_cpu_exception_def panic_def
      divide_error_exception_handler_def gp_fault_exception_handler_def)

end
