(* ===== verification/Timer_8254.thy ===== *)
theory Timer_8254
  imports Interrupts
begin

text \<open>
  The interval timer, \<open>src/kernel/arch/i386/i8254.c\<close>: programming of the divisor, the tick
  counter its interrupt handler keeps, and \<open>i8254_sleep\<close>. The interrupts that arrive while the
  processor waits are an argument of the loop: one number per \<open>cpu_wait_for_interrupt\<close>, the timer
  interrupts handled before it returns.
\<close>

section \<open>The code\<close>

record timer = irqs +
  i8254_tick_count :: u32
  i8254_freq :: u32

definition I8254_OSCIL_FREQ :: u32 where
  "I8254_OSCIL_FREQ = 1193182"

definition I8254_CHANNEL0_DATA_PORT :: u16 where
  "I8254_CHANNEL0_DATA_PORT = 0x40"

definition I8254_COMMAND_PORT :: u16 where
  "I8254_COMMAND_PORT = 0x43"

abbreviation (input) I8254_MODE_BINARY :: u8 where "I8254_MODE_BINARY \<equiv> 0x0"
abbreviation (input) I8254_MODE_RATE_GENERATOR :: u8 where "I8254_MODE_RATE_GENERATOR \<equiv> push_bit 2 1"
abbreviation (input) I8254_MODE_ACCESS_LOW :: u8 where "I8254_MODE_ACCESS_LOW \<equiv> push_bit 4 1"
abbreviation (input) I8254_MODE_ACCESS_HIGH :: u8 where "I8254_MODE_ACCESS_HIGH \<equiv> push_bit 5 1"
abbreviation (input) I8254_SELECT_CHANNEL_0 :: u8 where "I8254_SELECT_CHANNEL_0 \<equiv> 0x0"

definition I8254_IRQ_NO :: u8 where
  "I8254_IRQ_NO = 0"

definition i8254_irq_handler :: "u32 \<Rightarrow> 'a timer_scheme \<Rightarrow> 'a timer_scheme" where
  "i8254_irq_handler arg s = s\<lparr>i8254_tick_count := i8254_tick_count s + 1\<rparr>"

text \<open>\<open>cpu_register_irq\<close> of \<open>cpu.c\<close>.\<close>

definition cpu_register_irq :: "u8 \<Rightarrow> u32 \<Rightarrow> u32 \<Rightarrow> 'a irqs_scheme \<Rightarrow> 'a irqs_scheme res" where
  "cpu_register_irq irq f arg s = interrupts_register_irq irq f arg s"

text \<open>
  \<open>handler\<close> is the address of \<open>i8254_irq_handler\<close>. Division by zero traps.
\<close>

definition i8254_init :: "u32 \<Rightarrow> u32 \<Rightarrow> 'a timer_scheme \<Rightarrow> 'a timer_scheme res" where
  "i8254_init handler freq s =
     (let s = s\<lparr>i8254_freq := freq\<rparr>;
          cmd = I8254_MODE_BINARY OR I8254_MODE_RATE_GENERATOR OR I8254_MODE_ACCESS_LOW OR I8254_MODE_ACCESS_HIGH
            OR I8254_SELECT_CHANNEL_0;
          s = io_write_byte I8254_COMMAND_PORT cmd s
      in if i8254_freq s = 0 then Inl DivideError else
        let divisor = (ucast (I8254_OSCIL_FREQ div i8254_freq s) :: u16);
            s = io_write_byte I8254_CHANNEL0_DATA_PORT (ucast (divisor AND 0xff)) s;
            s = io_write_byte I8254_CHANNEL0_DATA_PORT (ucast (drop_bit 8 divisor)) s
        in cpu_register_irq I8254_IRQ_NO handler 0 s)"

fun i8254_sleep_loop :: "nat list \<Rightarrow> u32 \<Rightarrow> 'a timer_scheme \<Rightarrow> 'a timer_scheme option" where
  "i8254_sleep_loop [] finished_tick s = (if i8254_tick_count s < finished_tick then None else Some s)"
| "i8254_sleep_loop (w # ws) finished_tick s =
     (if i8254_tick_count s < finished_tick
      then i8254_sleep_loop ws finished_tick ((i8254_irq_handler 0 ^^ w) s) else Some s)"

definition i8254_sleep :: "nat list \<Rightarrow> u32 \<Rightarrow> 'a timer_scheme \<Rightarrow> 'a timer_scheme option" where
  "i8254_sleep ws time_s s =
     (let required_ticks = i8254_freq s * time_s;
          finished_tick = i8254_tick_count s + required_ticks
      in i8254_sleep_loop ws finished_tick s)"

lemmas timer_consts = I8254_OSCIL_FREQ_def I8254_CHANNEL0_DATA_PORT_def I8254_COMMAND_PORT_def
  I8254_IRQ_NO_def

section \<open>The divisor\<close>

text \<open>
  The counter of channel 0 takes the low byte, then the high byte; the value zero stands for
  65536. It fires every \<open>pit_reload\<close> periods of the oscillator.
\<close>

definition pit_reload :: "u8 \<Rightarrow> u8 \<Rightarrow> nat" where
  "pit_reload lo hi = (if lo = 0 \<and> hi = 0 then 65536 else unat lo + 256 * unat hi)"

lemma low_high_bytes:
  fixes d :: u16
  shows "unat (ucast (d AND 0xff) :: u8) = unat d mod 256"
    "unat (ucast (drop_bit 8 d) :: u8) = unat d div 256"
proof -
  have "(ucast (d AND 0xff) :: u8) = ucast d"
  proof (rule bit_word_eqI)
    fix n assume n: "n < LENGTH(8)"
    then have "n \<in> {0, 1, 2, 3, 4, 5, 6, 7}" by auto
    then show "bit (ucast (d AND 0xff) :: u8) n \<longleftrightarrow> bit (ucast d :: u8) n"
      by (auto simp: bit_simps bit_numeral_word_iff)
  qed
  then show "unat (ucast (d AND 0xff) :: u8) = unat d mod 256"
    by (simp add: unsigned_ucast_eq take_bit_eq_mod)
  have "unat d < 65536" using unsigned_less [of d, where ?'a = nat] by simp
  then show "unat (ucast (drop_bit 8 d) :: u8) = unat d div 256"
    by (simp add: unsigned_ucast_eq unsigned_drop_bit_eq take_bit_eq_mod drop_bit_eq_div unat_div)
qed

lemma pit_reload_bytes:
  fixes d :: u16
  shows "pit_reload (ucast (d AND 0xff)) (ucast (drop_bit 8 d)) = (if d = 0 then 65536 else unat d)"
proof -
  let ?lo = "ucast (d AND 0xff) :: u8" and ?hi = "ucast (drop_bit 8 d) :: u8"
  have s: "unat ?lo + 256 * unat ?hi = unat d" by (simp add: low_high_bytes)
  have "?lo = 0 \<and> ?hi = 0 \<longleftrightarrow> unat ?lo + 256 * unat ?hi = 0"
    by (simp add: word_unat_eq_iff)
  also have "\<dots> \<longleftrightarrow> d = 0" unfolding s by (simp add: word_unat_eq_iff)
  finally show ?thesis using s by (simp add: pit_reload_def)
qed

lemma divisor_value:
  assumes "freq \<noteq> 0"
  shows "unat (ucast (I8254_OSCIL_FREQ div freq) :: u16) = (1193182 div unat freq) mod 65536"
  by (simp add: unsigned_ucast_eq take_bit_eq_mod unat_div I8254_OSCIL_FREQ_def)

text \<open>Writes to other ports leave the interrupt controllers alone.\<close>

lemma irqs_other_port:
  assumes "p \<notin> {0x20, 0x21, 0xA0, 0xA1}"
  shows "irqs_ok cs (io_write_byte p b s) = irqs_ok cs s"
proof -
  obtain m sl where "controllers_run cs (port_log s) = (m, sl)" by fastforce
  then show ?thesis using assms by (simp add: irqs_ok_def pics_ok_def io_write_byte_def)
qed

lemma write_fields [simp]:
  "irq_masked (io_write_byte p b s) = irq_masked s" "handler_of (io_write_byte p b t) = handler_of t"
  "i8254_freq (io_write_byte p b u) = i8254_freq u" "i8254_tick_count (io_write_byte p b u) = i8254_tick_count u"
  "irqs_ok cs (u\<lparr>i8254_freq := f\<rparr>) = irqs_ok cs u" "irq_masked (u\<lparr>i8254_freq := f\<rparr>) = irq_masked u"
  "handler_of (u\<lparr>i8254_freq := f\<rparr>) = handler_of u" "irqs_ok cs (u\<lparr>i8254_tick_count := n\<rparr>) = irqs_ok cs u"
  "handler_of (u\<lparr>i8254_tick_count := n\<rparr>) = handler_of u" "irq_masked (u\<lparr>i8254_tick_count := n\<rparr>) = irq_masked u"
  by (simp_all add: io_write_byte_def irq_masked_def handler_of_def fun_eq_iff irqs_ok_def pics_ok_def)

lemma register_irq_timer:
  "interrupts_register_irq irq f a s = Inr s' \<Longrightarrow> timer.more s' = timer.more s
     \<and> i8254_freq s' = i8254_freq s \<and> i8254_tick_count s' = i8254_tick_count s"
  by (auto simp: interrupts_register_irq_def bind_res_Inr_iff Let_def pic_irq_defs
      split: if_splits)

lemma register_irq_log:
  assumes "irqs_ok cs s" "irq < 8" "interrupts_register_irq irq f a s = Inr s'"
  shows "port_log s' = port_log s @ [(0x21, imr (master_pic s'))]"
proof -
  have "\<not> 8 \<le> irq" using assms(2) by simp
  with assms show ?thesis
    by (auto simp: interrupts_register_irq_def bind_res_Inr_iff Let_def pic_irq_defs
        irqs_ok_def pics_ok_def split: if_splits)
qed

lemma i8254_init_ok:
  assumes f: "freq \<noteq> 0" and ok: "irqs_ok cs s"
  shows "\<exists>s' lo hi. i8254_init handler freq s = Inr s' \<and> irqs_ok cs s'
    \<and> port_log s' = port_log s @ [(0x43, 0x34), (0x40, lo), (0x40, hi), (0x21, imr (master_pic s'))]
    \<and> pit_reload lo hi = (let d = (1193182 div unat freq) mod 65536 in if d = 0 then 65536 else d)
    \<and> handler_of s' 0 = (handler, 0) \<and> i8254_freq s' = freq \<and> i8254_tick_count s' = i8254_tick_count s
    \<and> (\<forall>k < 16. irq_masked s' k \<longleftrightarrow> irq_masked s k \<and> k \<noteq> 0)
    \<and> (\<forall>k < 16. k \<noteq> 0 \<longrightarrow> handler_of s' k = handler_of s k)"
proof -
  let ?d = "ucast (I8254_OSCIL_FREQ div freq) :: u16"
  let ?lo = "ucast (?d AND 0xff) :: u8" and ?hi = "ucast (drop_bit 8 ?d) :: u8"
  let ?s = "io_write_byte 0x40 ?hi (io_write_byte 0x40 ?lo (io_write_byte 0x43 0x34 (s\<lparr>i8254_freq := freq\<rparr>)))"
  have "irqs_ok cs ?s" using ok by (simp add: irqs_other_port)
  from register_irq_ok [OF this, of 0 handler 0] obtain s' where
    s': "interrupts_register_irq 0 handler 0 ?s = Inr s'" "irqs_ok cs s'" "handler_of s' 0 = (handler, 0)"
    "\<forall>k < 16. irq_masked s' k \<longleftrightarrow> irq_masked s k \<and> k \<noteq> 0"
    "\<forall>k < 16. k \<noteq> 0 \<longrightarrow> handler_of s' k = handler_of s k" by auto
  have "i8254_init handler freq s = Inr s'"
    using f s'(1) by (simp add: i8254_init_def Let_def timer_consts cpu_register_irq_def)
  moreover have "port_log s' = port_log s @ [(0x43, 0x34), (0x40, ?lo), (0x40, ?hi), (0x21, imr (master_pic s'))]"
    using register_irq_log [OF \<open>irqs_ok cs ?s\<close> _ s'(1)] by simp
  moreover have "?d = 0 \<longleftrightarrow> unat ?d = 0" by (simp only: unsigned_eq_0_iff)
  then have "pit_reload ?lo ?hi = (let d = (1193182 div unat freq) mod 65536 in if d = 0 then 65536 else d)"
    unfolding pit_reload_bytes divisor_value [OF f] Let_def by simp
  ultimately show ?thesis using s'(2-5) register_irq_timer [OF s'(1)] by auto
qed

text \<open>In the range of the timer the divisor is not truncated.\<close>

lemma divisor_range:
  assumes "19 \<le> unat freq" "unat freq \<le> 1193182"
  shows "0 < 1193182 div unat freq" "(1193182 div unat freq) mod 65536 = 1193182 div unat freq"
proof -
  show "0 < 1193182 div unat freq" using assms by (simp add: div_greater_zero_iff)
  have "1193182 div unat freq \<le> 1193182 div 19" using assms(1) by (intro div_le_mono2) simp_all
  then show "(1193182 div unat freq) mod 65536 = 1193182 div unat freq" by simp
qed

section \<open>Sleeping\<close>

lemma ticks_pow: "i8254_tick_count ((i8254_irq_handler a ^^ n) s) = i8254_tick_count s + of_nat n"
  by (induction n) (simp_all add: i8254_irq_handler_def)

lemma ticks_unat:
  assumes "unat (i8254_tick_count s) + n < 4294967296"
  shows "unat (i8254_tick_count ((i8254_irq_handler a ^^ n) s)) = unat (i8254_tick_count s) + n"
  using assms by (simp add: ticks_pow unat_add_u32 unat_of_nat_u32)

text \<open>
  As long as the counter does not wrap, the loop ends with the first wait after which the
  counter has reached \<open>finished_tick\<close>.
\<close>

lemma sleep_loop_spec:
  assumes "unat (i8254_tick_count s) + sum_list ws < 4294967296"
  shows "case i8254_sleep_loop ws fin s of
      None \<Rightarrow> unat (i8254_tick_count s) + sum_list ws < unat fin
    | Some s' \<Rightarrow> \<exists>k \<le> length ws. unat (i8254_tick_count s') = unat (i8254_tick_count s) + sum_list (take k ws)
        \<and> unat fin \<le> unat (i8254_tick_count s')
        \<and> (\<forall>j < k. unat (i8254_tick_count s) + sum_list (take j ws) < unat fin)"
  using assms
proof (induction ws arbitrary: s)
  case Nil
  then show ?case by (simp add: word_less_nat_alt)
next
  case (Cons w ws)
  show ?case
  proof (cases "i8254_tick_count s < fin")
    case False
    then show ?thesis by (auto simp: word_less_nat_alt intro: exI [of _ 0])
  next
    case True
    let ?s = "(i8254_irq_handler 0 ^^ w) s"
    have t: "unat (i8254_tick_count ?s) = unat (i8254_tick_count s) + w"
      using Cons.prems by (intro ticks_unat) simp
    have "unat (i8254_tick_count s) + w + sum_list ws < 4294967296" using Cons.prems by simp
    from Cons.IH [of ?s, unfolded t, OF this] have IH: "case i8254_sleep_loop ws fin ?s of
        None \<Rightarrow> unat (i8254_tick_count s) + w + sum_list ws < unat fin
      | Some s' \<Rightarrow> \<exists>k \<le> length ws. unat (i8254_tick_count s') = unat (i8254_tick_count s) + w + sum_list (take k ws)
          \<and> unat fin \<le> unat (i8254_tick_count s')
          \<and> (\<forall>j < k. unat (i8254_tick_count s) + w + sum_list (take j ws) < unat fin)" .
    show ?thesis
    proof (cases "i8254_sleep_loop ws fin ?s")
      case None
      with IH True show ?thesis by (simp add: add.assoc)
    next
      case (Some s')
      with IH obtain k where k: "k \<le> length ws"
        "unat (i8254_tick_count s') = unat (i8254_tick_count s) + w + sum_list (take k ws)"
        "unat fin \<le> unat (i8254_tick_count s')"
        "\<forall>j < k. unat (i8254_tick_count s) + w + sum_list (take j ws) < unat fin" by auto
      have "unat (i8254_tick_count s) + sum_list (take j (w # ws)) < unat fin" if "j < Suc k" for j
        using that True k(4) by (cases j) (auto simp: word_less_nat_alt add.assoc)
      with k True Some show ?thesis by (auto simp: add.assoc intro!: exI [of _ "Suc k"])
    qed
  qed
qed

lemma sleep_ok:
  assumes "unat (i8254_freq s) * unat t + unat (i8254_tick_count s) < 4294967296"
    "unat (i8254_tick_count s) + sum_list ws < 4294967296"
  shows "case i8254_sleep ws t s of
      None \<Rightarrow> sum_list ws < unat (i8254_freq s) * unat t
    | Some s' \<Rightarrow> \<exists>k \<le> length ws. unat (i8254_tick_count s') = unat (i8254_tick_count s) + sum_list (take k ws)
        \<and> unat (i8254_freq s) * unat t \<le> sum_list (take k ws)
        \<and> (\<forall>j < k. sum_list (take j ws) < unat (i8254_freq s) * unat t)"
proof -
  have "unat (i8254_freq s * t) = unat (i8254_freq s) * unat t"
    using assms(1) by (simp add: unat_word_ariths)
  then have fin: "unat (i8254_tick_count s + i8254_freq s * t) =
      unat (i8254_tick_count s) + unat (i8254_freq s) * unat t"
    using assms(1) by (simp add: unat_add_u32)
  have "i8254_sleep ws t s = i8254_sleep_loop ws (i8254_tick_count s + i8254_freq s * t) s"
    by (simp add: i8254_sleep_def Let_def)
  with sleep_loop_spec [OF assms(2), of "i8254_tick_count s + i8254_freq s * t"] show ?thesis
    by (auto simp: fin split: option.splits)
qed

text \<open>When the end of the sleep lies beyond the range of the counter, there is no sleep at all.\<close>

lemma sleep_wraps:
  assumes "unat (i8254_freq s) * unat t < 4294967296"
    "4294967296 \<le> unat (i8254_tick_count s) + unat (i8254_freq s) * unat t"
  shows "i8254_sleep ws t s = Some s"
proof -
  let ?c = "i8254_tick_count s" and ?r = "i8254_freq s * t"
  have r: "unat ?r = unat (i8254_freq s) * unat t"
    using assms(1) by (simp add: unat_word_ariths)
  have "unat (?c + ?r) = (unat ?c + unat ?r) mod 4294967296" by (simp add: unat_word_ariths)
  also have "\<dots> = unat ?c + unat ?r - 4294967296"
  proof (rule mod_once)
    show "4294967296 \<le> unat ?c + unat ?r" unfolding r by (rule assms(2))
    show "unat ?c + unat ?r < 2 * 4294967296" using unat_u32_less [of ?c] unat_u32_less [of ?r] by linarith
  qed
  finally have "\<not> ?c < ?c + ?r"
    using unat_u32_less [of ?r] unfolding word_less_nat_alt by linarith
  then show ?thesis by (cases ws) (simp_all add: i8254_sleep_def Let_def)
qed

end
