(* ===== verification/Driver_Run.thy ===== *)
theory Driver_Run
  imports Timer_8254
begin

text \<open>
  The drivers together: any sequence of their operations and of interrupts. \<open>drv_ok\<close> is the type of their
  common state; every operation is defined on a state of that type and keeps it. A call through the
  pointer of a registered handler is the call of the handler of the timer, the only one the kernel
  registers.
\<close>

section \<open>Operations\<close>

text \<open>The pointer of a handler resolved; \<open>tf\<close> is the address of \<open>i8254_irq_handler\<close>.\<close>

definition handler_call :: "u32 \<Rightarrow> u32 \<Rightarrow> u32 \<Rightarrow> timer \<Rightarrow> timer res" where
  "handler_call tf f a d = (if f = tf then Inr (i8254_irq_handler a d) else Inl OutOfBounds)"

datatype drv_op =
    Init_Pics
  | Init_Timer u32
  | Init_Uart
  | Register u8
  | Enable u8
  | Disable u8
  | Interrupt interrupt_stack_frame
  | Put u8

fun drv_step :: "u32 \<Rightarrow> drv_op \<Rightarrow> timer \<Rightarrow> timer res" where
  "drv_step tf Init_Pics d = i8259_init d"
| "drv_step tf (Init_Timer freq) d = i8254_init tf freq d"
| "drv_step tf Init_Uart d = Inr (uart_init d)"
| "drv_step tf (Register irq) d = cpu_register_irq irq tf 0 d"
| "drv_step tf (Enable irq) d = i8259_enable_irq irq d"
| "drv_step tf (Disable irq) d = i8259_disable_irq irq d"
| "drv_step tf (Interrupt frame) d = isr_main (handler_call tf) frame d"
| "drv_step tf (Put c) d = Inr (putchar c d)"

fun drv_run :: "u32 \<Rightarrow> drv_op list \<Rightarrow> timer \<Rightarrow> timer res" where
  "drv_run tf [] d = Inr d"
| "drv_run tf (x # xs) d = bind_res (drv_step tf x d) (drv_run tf xs)"

section \<open>The type of the state\<close>

definition irq_vector :: "u8 \<Rightarrow> interrupt_stack_frame \<Rightarrow> bool" where
  "irq_vector irq frame \<longleftrightarrow> irq < 16 \<and> int_no frame = 32 + ucast irq"

text \<open>Numbers of interrupts in range, a frequency that does not trap, vectors of the controllers.\<close>

fun op_ok :: "drv_op \<Rightarrow> bool" where
  "op_ok (Init_Timer freq) \<longleftrightarrow> freq \<noteq> 0"
| "op_ok (Register irq) \<longleftrightarrow> irq < 16"
| "op_ok (Enable irq) \<longleftrightarrow> irq < 16"
| "op_ok (Disable irq) \<longleftrightarrow> irq < 16"
| "op_ok (Interrupt frame) \<longleftrightarrow> 32 \<le> int_no frame \<and> int_no frame < 48"
| "op_ok _ \<longleftrightarrow> True"

definition drv_ok :: "u32 \<Rightarrow> controller \<times> controller \<Rightarrow> timer \<Rightarrow> bool" where
  "drv_ok tf cs d \<longleftrightarrow> irqs_ok cs d \<and> (\<forall>irq < 16. fst (handler_of d irq) \<in> {0, tf})"

lemma vector_irq:
  assumes "32 \<le> int_no frame" "int_no frame < 48"
  shows "irq_vector (ucast (int_no frame - 32)) frame"
proof -
  have u: "unat (int_no frame - 32) < 16" "unat (int_no frame - 32) = unat (int_no frame) - 32"
    using assms by (auto simp: word_le_nat_alt word_less_nat_alt unat_sub_u32)
  then have "(ucast (ucast (int_no frame - 32) :: u8) :: u32) = int_no frame - 32"
    by (simp add: word_unat_eq_iff unsigned_ucast_eq unsigned_take_bit_eq take_bit_nat_eq_self)
  moreover have "unat (ucast (int_no frame - 32) :: u8) < 16"
    using u by (simp add: unsigned_ucast_eq unsigned_take_bit_eq take_bit_nat_eq_self)
  ultimately show ?thesis by (simp add: irq_vector_def word_less_nat_alt)
qed

lemma disable_irq_handlers: "i8259_disable_irq irq s = Inr s' \<Longrightarrow> irq_handlers s' = irq_handlers s"
  by (auto simp: bind_res_Inr_iff Let_def pic_irq_defs split: if_splits)

lemma i8259_init_handlers: "i8259_init s = Inr s' \<Longrightarrow> irq_handlers s' = irq_handlers s"
  unfolding i8259_init_def Let_def by (drule enable_irq_handlers) (simp add: pic_write_defs)

lemma enable_irq_ticks: "i8259_enable_irq irq s = Inr s' \<Longrightarrow> i8254_tick_count s' = i8254_tick_count s"
  by (auto simp: bind_res_Inr_iff Let_def pic_irq_defs split: if_splits)

lemma i8259_init_ticks: "i8259_init s = Inr s' \<Longrightarrow> i8254_tick_count s' = i8254_tick_count s"
  unfolding i8259_init_def Let_def by (drule enable_irq_ticks) (simp add: pic_write_defs)

lemma irq_handlers_keep:
  "irq_handlers d' = irq_handlers d \<Longrightarrow> pics_ok cs d' \<Longrightarrow> drv_ok tf cs d \<Longrightarrow> drv_ok tf cs d'"
  by (simp add: drv_ok_def irqs_ok_def handler_of_def)

text \<open>An interrupt: acknowledged, and the ticks advance when its handler is that of the timer.\<close>

lemma interrupt_step:
  assumes "drv_ok tf cs d" "irq_vector irq frame"
  shows "\<exists>d'. isr_main (handler_call tf) frame d = Inr d' \<and> drv_ok tf cs d'
    \<and> handler_of d' = handler_of d \<and> irq_masked d' = irq_masked d \<and> i8254_freq d' = i8254_freq d
    \<and> port_log d' = port_log (i8259_send_eoi irq d)
    \<and> i8254_tick_count d' = i8254_tick_count d + (if fst (handler_of d irq) = 0 then 0 else 1)"
proof -
  have ok: "irqs_ok cs d" "irq < 16" "int_no frame = 32 + ucast irq"
    using assms by (simp_all add: drv_ok_def irq_vector_def)
  let ?e = "i8259_send_eoi irq d"
  have po: "pics_ok cs d" using ok(1) by (simp add: irqs_ok_def)
  note p = send_eoi_ok(1) [OF po, of irq]
  have t: "i8254_tick_count ?e = i8254_tick_count d" "i8254_freq ?e = i8254_freq d"
    by (simp_all add: i8259_send_eoi_def Let_def pic_write_defs)
  have m: "irq_masked ?e = irq_masked d"
    by (simp add: send_eoi_ok(2,3) [OF po] irq_masked_def fun_eq_iff)
  have h: "handler_of ?e = handler_of d" by (simp add: handler_of_def fun_eq_iff)
  have e: "drv_ok tf cs ?e" using assms(1) p by (intro irq_handlers_keep [of ?e d]) simp_all
  show ?thesis
  proof (cases "fst (handler_of d irq) = 0")
    case True
    then show ?thesis using isr_main_irq [OF ok(1,3,2)] e t m h by simp
  next
    case False
    then have f: "fst (handler_of d irq) = tf" using assms(1) ok(2) by (auto simp: drv_ok_def)
    with False have "isr_main (handler_call tf) frame d = Inr (i8254_irq_handler (snd (handler_of d irq)) ?e)"
      using isr_main_irq [OF ok(1,3,2)] by (simp add: handler_call_def)
    with False e t m h show ?thesis
      by (simp add: i8254_irq_handler_def drv_ok_def)
  qed
qed

lemma other_port:
  assumes "p \<notin> {0x20, 0x21, 0xA0, 0xA1}"
  shows "drv_ok tf cs (io_write_byte p b d) = drv_ok tf cs d"
  by (simp add: drv_ok_def irqs_other_port [OF assms])

lemma uart_step: "drv_ok tf cs (uart_init d) = drv_ok tf cs d" "drv_ok tf cs (putchar c d) = drv_ok tf cs d"
  by (simp_all add: uart_init_def putchar_def uart_write_byte_def Let_def uart_defs other_port)

lemma register_step:
  assumes "drv_ok tf cs d" "irq < 16"
  shows "\<exists>d'. interrupts_register_irq irq tf 0 d = Inr d' \<and> drv_ok tf cs d'"
proof -
  have "irqs_ok cs d" using assms(1) by (simp add: drv_ok_def)
  from register_irq_ok [OF this assms(2), of tf 0] obtain d' where
    d': "interrupts_register_irq irq tf 0 d = Inr d'" "irqs_ok cs d'" "handler_of d' irq = (tf, 0)"
    "\<forall>k < 16. k \<noteq> irq \<longrightarrow> handler_of d' k = handler_of d k" by blast
  then have "fst (handler_of d' k) \<in> {0, tf}" if "k < 16" for k
    using assms(1) that by (cases "k = irq") (auto simp: drv_ok_def)
  with d' show ?thesis by (auto simp: drv_ok_def)
qed

lemma timer_step:
  assumes "drv_ok tf cs d" "freq \<noteq> 0"
  shows "\<exists>d'. i8254_init tf freq d = Inr d' \<and> drv_ok tf cs d'"
proof -
  let ?d = "ucast (I8254_OSCIL_FREQ div freq) :: u16"
  let ?s = "io_write_byte 0x40 (ucast (drop_bit 8 ?d)) (io_write_byte 0x40 (ucast (?d AND 0xff))
    (io_write_byte 0x43 0x34 (d\<lparr>i8254_freq := freq\<rparr>)))"
  have "drv_ok tf cs ?s" using assms(1) by (simp add: other_port) (simp add: drv_ok_def)
  from register_step [OF this, of 0] show ?thesis
    using assms(2) by (simp add: i8254_init_def Let_def timer_consts cpu_register_irq_def)
qed

lemma drv_progress:
  assumes "drv_ok tf cs d" "op_ok x"
  shows "\<exists>d'. drv_step tf x d = Inr d' \<and> drv_ok tf cs d'"
proof -
  have p: "pics_ok cs d" using assms(1) by (simp add: drv_ok_def irqs_ok_def)
  show ?thesis
  proof (cases x)
    case Init_Pics
    from i8259_init_ok [of d cs] obtain d' where d': "i8259_init d = Inr d'" "pics_ok cs d'" by auto
    from irq_handlers_keep [OF i8259_init_handlers [OF d'(1)] d'(2) assms(1)] Init_Pics d'(1) show ?thesis by simp
  next
    case (Init_Timer freq)
    with assms timer_step show ?thesis by simp
  next
    case (Register irq)
    with assms register_step show ?thesis by (simp add: cpu_register_irq_def)
  next
    case (Enable irq)
    with pic.enable_law [OF p, of irq] assms(2) obtain d' where d': "i8259_enable_irq irq d = Inr d'" "pics_ok cs d'" by auto
    from irq_handlers_keep [OF enable_irq_handlers [OF d'(1)] d'(2) assms(1)] Enable d'(1) show ?thesis by simp
  next
    case (Disable irq)
    with pic.disable_law [OF p, of irq] assms(2) obtain d' where d': "i8259_disable_irq irq d = Inr d'" "pics_ok cs d'" by auto
    from irq_handlers_keep [OF disable_irq_handlers [OF d'(1)] d'(2) assms(1)] Disable d'(1) show ?thesis by simp
  next
    case (Interrupt frame)
    with assms(2) have "irq_vector (ucast (int_no frame - 32)) frame" by (simp add: vector_irq)
    from interrupt_step [OF assms(1) this] Interrupt show ?thesis by auto
  qed (use assms in \<open>simp_all add: uart_step\<close>)
qed

theorem drv_run_sound:
  assumes "drv_ok tf cs d" "list_all op_ok xs"
  shows "\<exists>d'. drv_run tf xs d = Inr d' \<and> drv_ok tf cs d'"
  using assms
proof (induction xs arbitrary: d)
  case (Cons x xs)
  from drv_progress [OF Cons.prems(1), of x] Cons.prems(2) obtain d1 where
    "drv_step tf x d = Inr d1" "drv_ok tf cs d1" by auto
  with Cons.IH [of d1] Cons.prems(2) show ?case by simp
qed simp

text \<open>The ends of interrupt the master has seen.\<close>

definition master_eois :: "controller \<times> controller \<Rightarrow> timer \<Rightarrow> nat" where
  "master_eois cs d = eois (fst (controllers_run cs (port_log d)))"

end
