(* ===== verification/Interrupt_Entry.thy ===== *)
theory Interrupt_Entry
  imports Thread_Context Interrupts
begin

text \<open>
  The entry and exit of an interrupt, \<open>src/kernel/arch/i386/cpu/interrupts_asm.S\<close>: what the processor
  pushes, the stubs \<open>isr_n\<close>, and \<open>isr_common\<close> around the call of \<open>isr_main\<close>, instruction by instruction
  on the registers and the memory. The lemmas show that \<open>isr_main\<close> is given the frame its structure
  describes, and that the interrupted code notices nothing.
\<close>

section \<open>The processor\<close>

record icpu = cpu +
  seg_cs :: u32
  flags_reg :: u32

text \<open>
  The processor takes an interrupt through an interrupt gate, without a change of privilege: flags, code
  segment and instruction pointer are pushed, for some vectors an error code, and the interrupt flag is
  cleared.
\<close>

definition cpu_interrupt :: "u32 option \<Rightarrow> u32 \<Rightarrow> u32 \<Rightarrow> icpu \<Rightarrow> icpu" where
  "cpu_interrupt err selector target c =
     (let c = push32 (eip c) (push32 (seg_cs c) (push32 (flags_reg c) c));
          c = (case err of None \<Rightarrow> c | Some e \<Rightarrow> push32 e c)
      in c\<lparr>flags_reg := flags_reg c AND NOT (push_bit 9 1), seg_cs := selector, eip := target\<rparr>)"

definition pushal :: "icpu \<Rightarrow> icpu" where
  "pushal c = push32 (edi c) (push32 (esi c) (push32 (ebp c) (push32 (esp c) (push32 (ebx c)
     (push32 (edx c) (push32 (ecx c) (push32 (eax c) c)))))))"

definition popal :: "icpu \<Rightarrow> icpu" where
  "popal c =
     (let c = drop32 (c\<lparr>edi := top32 c\<rparr>);
          c = drop32 (c\<lparr>esi := top32 c\<rparr>);
          c = drop32 (c\<lparr>ebp := top32 c\<rparr>);
          c = drop32 c;
          c = drop32 (c\<lparr>ebx := top32 c\<rparr>);
          c = drop32 (c\<lparr>edx := top32 c\<rparr>);
          c = drop32 (c\<lparr>ecx := top32 c\<rparr>)
      in drop32 (c\<lparr>eax := top32 c\<rparr>))"

definition iret :: "icpu \<Rightarrow> icpu" where
  "iret c =
     (let c = drop32 (c\<lparr>eip := top32 c\<rparr>);
          c = drop32 (c\<lparr>seg_cs := top32 c\<rparr>)
      in drop32 (c\<lparr>flags_reg := top32 c\<rparr>))"

section \<open>The stubs\<close>

definition ISR_WITH_ERROR :: "nat \<Rightarrow> icpu \<Rightarrow> icpu" where
  "ISR_WITH_ERROR n c = push32 (of_nat n) c"

definition ISR_NO_ERROR :: "nat \<Rightarrow> icpu \<Rightarrow> icpu" where
  "ISR_NO_ERROR n c = push32 (of_nat n) (push32 0 c)"

text \<open>The stub of a vector: those written with \<open>ISR_WITH_ERROR\<close>, the others with \<open>ISR_NO_ERROR\<close>.\<close>

definition error_vectors :: "nat list" where
  "error_vectors = [8, 10, 11, 12, 13, 14, 17, 21]"

definition isr_stub :: "nat \<Rightarrow> icpu \<Rightarrow> icpu" where
  "isr_stub n = (if n \<in> set error_vectors then ISR_WITH_ERROR n else ISR_NO_ERROR n)"

text \<open>
  \<open>isr_common\<close> up to the first instruction of \<open>isr_main\<close>, and from its return on; \<open>retaddr\<close> is the
  address after the call. \<open>main\<close> is \<open>isr_main\<close> with its \<open>ret\<close>, on the state of the processor.
\<close>

definition isr_common_call :: "u32 \<Rightarrow> icpu \<Rightarrow> icpu" where
  "isr_common_call retaddr c = (let c = pushal c in cdecl_call retaddr [esp c] c)"

definition isr_common_return :: "icpu \<Rightarrow> icpu" where
  "isr_common_return c =
     (let c = c\<lparr>esp := esp c + 4\<rparr>; c = popal c; c = c\<lparr>esp := esp c + 8\<rparr> in iret c)"

definition isr_common :: "(icpu \<Rightarrow> icpu) \<Rightarrow> u32 \<Rightarrow> icpu \<Rightarrow> icpu" where
  "isr_common main retaddr c = isr_common_return (main (isr_common_call retaddr c))"

section \<open>The frame\<close>

text \<open>\<open>struct interrupt_stack_frame\<close> at address \<open>a\<close>.\<close>

definition read_frame :: "mem \<Rightarrow> u32 \<Rightarrow> interrupt_stack_frame" where
  "read_frame m a = \<lparr>frame_registers = \<lparr>r_edi = load32 m a, r_esi = load32 m (a + 4), r_ebp = load32 m (a + 8),
       r_esp = load32 m (a + 12), r_ebx = load32 m (a + 16), r_edx = load32 m (a + 20), r_ecx = load32 m (a + 24),
       r_eax = load32 m (a + 28)\<rparr>,
     int_no = load32 m (a + 32), frame_error = load32 m (a + 36), frame_eip = load32 m (a + 40),
     frame_cs = load32 m (a + 44), frame_eflags = load32 m (a + 48)\<rparr>"

text \<open>What the call of a C function keeps: the stack pointer, the callee-saved registers, the frame.\<close>

definition keeps_frame :: "(icpu \<Rightarrow> icpu) \<Rightarrow> icpu \<Rightarrow> bool" where
  "keeps_frame main c \<longleftrightarrow> esp (main c) = esp c + 4 \<and> ebx (main c) = ebx c \<and> ebp (main c) = ebp c
     \<and> esi (main c) = esi c \<and> edi (main c) = edi c
     \<and> read_frame (ram (main c)) (esp c + 8) = read_frame (ram c) (esp c + 8)"

definition error_of :: "nat \<Rightarrow> u32 \<Rightarrow> u32 option" where
  "error_of n e = (if n \<in> set error_vectors then Some e else None)"

lemma aligned4_deep [simp]:
  assumes "aligned4 a"
  shows "aligned4 (a - 36)" "aligned4 (a - 40)" "aligned4 (a - 44)" "aligned4 (a - 48)" "aligned4 (a - 52)"
    "aligned4 (a - 56)" "aligned4 (a - 60)"
  using assms by (simp_all add: aligned4_minus aligned4_def [of "numeral k" for k])

text \<open>The words the processor and the stub have pushed at the call of \<open>isr_main\<close>.\<close>

definition entry_words :: "u32 \<Rightarrow> nat \<Rightarrow> u32 \<Rightarrow> icpu \<Rightarrow> (u32 \<times> u32) list" where
  "entry_words retaddr n e c =
     [(esp c - 4, flags_reg c), (esp c - 8, seg_cs c), (esp c - 12, eip c),
      (esp c - 16, if n \<in> set error_vectors then e else 0), (esp c - 20, of_nat n),
      (esp c - 24, eax c), (esp c - 28, ecx c), (esp c - 32, edx c), (esp c - 36, ebx c),
      (esp c - 40, esp c - 20), (esp c - 44, ebp c), (esp c - 48, esi c), (esp c - 52, edi c),
      (esp c - 56, esp c - 52), (esp c - 60, retaddr)]"

lemma entry_state:
  assumes "s = isr_common_call retaddr (isr_stub n (cpu_interrupt (error_of n e) sel tgt c))"
  shows "ram s = wm.st_all (ram c) (entry_words retaddr n e c)" "esp s = esp c - 60"
    "ebx s = ebx c" "ebp s = ebp c" "esi s = esi c" "edi s = edi c"
  unfolding assms
  by (cases "n \<in> set error_vectors";
      simp add: isr_common_call_def isr_stub_def cpu_interrupt_def error_of_def ISR_WITH_ERROR_def ISR_NO_ERROR_def
        pushal_def push32_def cdecl_call_def Let_def entry_words_def)+

lemma entry_word:
  assumes "aligned4 (esp c)" "s = isr_common_call retaddr (isr_stub n (cpu_interrupt (error_of n e) sel tgt c))"
    "(a, v) \<in> set (entry_words retaddr n e c)"
  shows "load32 (ram s) a = v"
  unfolding entry_state(1) [OF assms(2)]
proof (rule wm.ld_st_all_written)
  show "\<forall>w \<in> set (entry_words retaddr n e c). aligned4 (fst w)" using assms(1) by (simp add: entry_words_def)
  show "distinct (map fst (entry_words retaddr n e c))" by (simp add: entry_words_def)
qed (rule assms(3))

text \<open>The frame \<open>isr_main\<close> is given, seen from the stack pointer of the interrupted code.\<close>

lemma entry_frame:
  assumes "aligned4 (esp c)" "s = isr_common_call retaddr (isr_stub n (cpu_interrupt (error_of n e) sel tgt c))"
  shows "load32 (ram s) (esp s + 4) = esp c - 52"
    "read_frame (ram s) (esp c - 52) = \<lparr>frame_registers = \<lparr>r_edi = edi c, r_esi = esi c, r_ebp = ebp c,
       r_esp = esp c - 20, r_ebx = ebx c, r_edx = edx c, r_ecx = ecx c, r_eax = eax c\<rparr>,
     int_no = of_nat n, frame_error = (if n \<in> set error_vectors then e else 0), frame_eip = eip c,
     frame_cs = seg_cs c, frame_eflags = flags_reg c\<rparr>"
proof -
  note w = entry_word [OF assms, unfolded entry_words_def]
  show "load32 (ram s) (esp s + 4) = esp c - 52"
    unfolding entry_state(2) [OF assms(2)] by (rule w) simp
  have o: "esp c - 52 + 4 = esp c - 48" "esp c - 52 + 8 = esp c - 44" "esp c - 52 + 12 = esp c - 40"
    "esp c - 52 + 16 = esp c - 36" "esp c - 52 + 20 = esp c - 32" "esp c - 52 + 24 = esp c - 28"
    "esp c - 52 + 28 = esp c - 24" "esp c - 52 + 32 = esp c - 20" "esp c - 52 + 36 = esp c - 16"
    "esp c - 52 + 40 = esp c - 12" "esp c - 52 + 44 = esp c - 8" "esp c - 52 + 48 = esp c - 4" by simp_all
  show "read_frame (ram s) (esp c - 52) = \<lparr>frame_registers = \<lparr>r_edi = edi c, r_esi = esi c, r_ebp = ebp c,
       r_esp = esp c - 20, r_ebx = ebx c, r_edx = edx c, r_ecx = ecx c, r_eax = eax c\<rparr>,
     int_no = of_nat n, frame_error = (if n \<in> set error_vectors then e else 0), frame_eip = eip c,
     frame_cs = seg_cs c, frame_eflags = flags_reg c\<rparr>"
    unfolding read_frame_def o by (simp only: interrupt_stack_frame.ext_inject registers.ext_inject simp_thms)
      (intro conjI; rule w; simp)
qed

text \<open>The vectors of the interrupt lines.\<close>

lemma entry_irq:
  fixes irq :: u8
  assumes "aligned4 (esp c)" "s = isr_common_call retaddr (isr_stub (32 + unat irq) (cpu_interrupt None sel tgt c))"
  shows "int_no (read_frame (ram s) (load32 (ram s) (esp s + 4))) = 32 + ucast irq"
proof -
  have e: "error_of (32 + unat irq) 0 = None" by (simp add: error_of_def error_vectors_def)
  have "(of_nat (32 + unat irq) :: u32) = 32 + ucast irq" by simp
  with entry_frame [OF assms(1), of s retaddr "32 + unat irq" 0 sel tgt] show ?thesis by (simp add: e assms(2))
qed

lemma exit_registers:
  assumes "read_frame (ram c) (esp c + 4) = fr"
  shows "eax (isr_common_return c) = r_eax (frame_registers fr)" "ebx (isr_common_return c) = r_ebx (frame_registers fr)"
    "ecx (isr_common_return c) = r_ecx (frame_registers fr)" "edx (isr_common_return c) = r_edx (frame_registers fr)"
    "esi (isr_common_return c) = r_esi (frame_registers fr)" "edi (isr_common_return c) = r_edi (frame_registers fr)"
    "ebp (isr_common_return c) = r_ebp (frame_registers fr)" "esp (isr_common_return c) = esp c + 56"
    "eip (isr_common_return c) = frame_eip fr" "seg_cs (isr_common_return c) = frame_cs fr"
    "flags_reg (isr_common_return c) = frame_eflags fr" "ram (isr_common_return c) = ram c"
  unfolding assms [symmetric]
  by (simp_all add: isr_common_return_def popal_def iret_def top32_def drop32_def read_frame_def Let_def algebra_simps)

lemma interrupt_roundtrip:
  assumes "aligned4 (esp c)" "s = isr_common_call retaddr (isr_stub n (cpu_interrupt (error_of n e) sel tgt c))"
    "keeps_frame main s" "c' = isr_common main retaddr (isr_stub n (cpu_interrupt (error_of n e) sel tgt c))"
  shows "eax c' = eax c" "ebx c' = ebx c" "ecx c' = ecx c" "edx c' = edx c" "esi c' = esi c" "edi c' = edi c"
    "ebp c' = ebp c" "esp c' = esp c" "eip c' = eip c" "seg_cs c' = seg_cs c" "flags_reg c' = flags_reg c"
    "ram c' = ram (main s)"
    "c' = c\<lparr>ram := ram (main s)\<rparr>"
proof -
  note st = entry_state(2) [OF assms(2)] and fr = entry_frame(2) [OF assms(1,2)]
  have c': "c' = isr_common_return (main s)" by (simp add: assms(2,4) isr_common_def)
  have m: "esp (main s) + 4 = esp c - 52" "esp s + 8 = esp c - 52"
    using assms(3) by (simp_all add: keeps_frame_def st)
  have "read_frame (ram (main s)) (esp (main s) + 4) = read_frame (ram s) (esp c - 52)"
    unfolding m(1) using assms(3) by (simp add: keeps_frame_def m(2))
  note x = exit_registers [OF this [unfolded fr]]
  have "esp (main s) + 56 = esp c" using assms(3) by (simp add: keeps_frame_def st)
  with x show "eax c' = eax c" "ebx c' = ebx c" "ecx c' = ecx c" "edx c' = edx c" "esi c' = esi c" "edi c' = edi c"
    "ebp c' = ebp c" "esp c' = esp c" "eip c' = eip c" "seg_cs c' = seg_cs c" "flags_reg c' = flags_reg c"
    "ram c' = ram (main s)" unfolding c' by simp_all
  then show "c' = c\<lparr>ram := ram (main s)\<rparr>" by simp
qed

end
