(* ===== verification/Thread_Interrupt.thy ===== *)
theory Thread_Interrupt
  imports Thread_History Interrupt_Entry
begin

text \<open>
  Interrupts and threads together: an interrupt is taken on the stack of the thread it interrupts. The words
  the processor, the stub and \<open>isr_common\<close> push lie in the 60 bytes below the stack pointer, so that with room
  for them the memory the scheduler relies on is not touched.
\<close>

section \<open>The footprint of an interrupt\<close>

definition ENTRY_BYTES :: nat where
  "ENTRY_BYTES = 60"

text \<open>\<open>n\<close> bytes below the stack pointer are in the stack of \<open>c\<close>.\<close>

definition stack_free :: "'a cpu_scheme \<Rightarrow> tinfo \<Rightarrow> nat \<Rightarrow> bool" where
  "stack_free s c n \<longleftrightarrow> aligned4 (esp s) \<and> n \<le> unat (esp s) \<and> span (esp s - of_nat n) n \<subseteq> data_bytes (sblk c)"

lemma st_all_outside:
  "\<forall>w \<in> set ws. aligned4 (fst w) \<and> x \<notin> span (fst w) 4 \<Longrightarrow> wm.st_all m ws x = m x"
  by (induction m ws rule: wm.st_all.induct) (auto simp: store32_outside)

lemma below_span:
  assumes "n \<le> unat (a :: u32)" "n < 4294967296"
  shows "unat (a - of_nat n) = unat a - n" "x \<in> span (a - of_nat n) n \<longleftrightarrow> unat a - n \<le> unat x \<and> unat x < unat a"
proof -
  have "unat (of_nat n :: u32) = n" using assms(2) by (simp add: unsigned_of_nat take_bit_nat_eq_self)
  then show "unat (a - of_nat n) = unat a - n" using assms(1) by (simp add: unat_sub_u32)
  then show "x \<in> span (a - of_nat n) n \<longleftrightarrow> unat a - n \<le> unat x \<and> unat x < unat a"
    using assms(1) by (auto simp: span_def)
qed

lemma entry_outside:
  assumes "aligned4 (esp c)" "ENTRY_BYTES \<le> unat (esp c)"
    "s = isr_common_call retaddr (isr_stub n (cpu_interrupt (error_of n e) sel tgt c))"
    "x \<notin> span (esp c - of_nat ENTRY_BYTES) ENTRY_BYTES"
  shows "ram s x = ram c x"
  unfolding entry_state(1) [OF assms(3)]
proof (rule st_all_outside, rule ballI, rule conjI)
  fix w assume w: "w \<in> set (entry_words retaddr n e c)"
  then show "aligned4 (fst w)" using assms(1) by (auto simp: entry_words_def)
  have "fst w \<in> (\<lambda>k. esp c - of_nat k) ` {4, 8, 12, 16, 20, 24, 28, 32, 36, 40, 44, 48, 52, 56, 60}"
    using w by (auto simp: entry_words_def)
  then obtain k where k0: "fst w = esp c - of_nat k" "k \<in> {4, 8, 12, 16, 20, 24, 28, 32, 36, 40, 44, 48, 52, 56, 60}"
    by (rule imageE)
  then have k: "fst w = esp c - of_nat k" "4 \<le> k" "k \<le> 60" by auto
  have "unat (fst w) = unat (esp c) - k"
    unfolding k(1) by (rule below_span) (use k assms(2) in \<open>simp_all add: ENTRY_BYTES_def\<close>)
  moreover have "x \<notin> span (esp c - of_nat ENTRY_BYTES) ENTRY_BYTES \<longleftrightarrow>
      \<not> (unat (esp c) - ENTRY_BYTES \<le> unat x \<and> unat x < unat (esp c))"
    using below_span(2) [of ENTRY_BYTES "esp c" x] assms(2) by (simp add: ENTRY_BYTES_def)
  ultimately show "x \<notin> span (fst w) 4" using assms(2,4) k by (auto simp: span_def ENTRY_BYTES_def)
qed

section \<open>The interrupted thread\<close>

text \<open>A thread just entered has its stack to itself.\<close>

lemma entered_free:
  assumes e: "enters_main sy s ti" and hh: "heap_has fl lo hi (ram s) al" and b: "sblk ti \<in> set al" "tinfo_ok ti"
    and n: "n \<le> 4084"
  shows "stack_free s ti n"
proof -
  note a = stack_addr [OF hh b]
  have esp: "esp s = stack_top ti - 12" using e by (simp add: enters_main_def)
  have u: "unat (stack_top ti - 12) = unat (stack_top ti) - 12" using a(2) by (simp add: unat_sub_u32)
  have le: "n \<le> unat (stack_top ti - 12)" using u a(2) n by simp
  have "span (stack_top ti - 12 - of_nat n) n \<subseteq> span (fst (sblk ti) + 12) 4096"
    using below_span(2) [OF le] n a(2) u by (auto simp: span_def)
  moreover have "aligned4 (stack_top ti - 12)" by (rule aligned4_minus [OF a(1)]) (simp add: aligned4_numerals)
  ultimately show ?thesis using a(3) le by (auto simp: stack_free_def esp)
qed

lemma running_stack:
  assumes st: "sched_state sy lo hi s al idl cr tr" and r: "tr \<noteq> []" "\<not> idling idl tr"
    and c: "c \<in> set cr" "taddr c = current_thread s"
  shows "data_bytes (sblk c) \<subseteq> user_bytes al (idl # waiting cr tr)"
proof -
  note e = current_created [OF st r c] and d = sched_stateD [OF st]
  have w: "waiting cr tr = drop (length tr) cr" by (rule sched_state_trace(1) [OF st])
  have "owns al ((take (length tr - 1) cr @ c # drop (length tr) cr) @ [idl])" using d(2) e(3) by simp
  then have "sblk c \<in> set al - set (blocks_of (idl # waiting cr tr))"
    unfolding w owns_def by auto
  then show ?thesis by (auto simp: user_bytes_def)
qed

lemma interrupt_keeps_run:
  assumes run: "sched_run sy lo hi s al idl cr tr" "tr \<noteq> []" "\<not> idling idl tr" "c \<in> set cr" "taddr c = current_thread s"
    and room: "stack_free s c n" "ENTRY_BYTES \<le> n" "n < 4294967296" and p: "esp p = esp s" "ram p = ram s"
    and t: "t = isr_common_call retaddr (isr_stub v (cpu_interrupt (error_of v e) sel tgt p))"
    and main: "\<forall>x \<in> heap_region (sym_free_list sy) lo hi \<union> span (thread_list (run_queue s)) 8.
      x \<notin> span (esp s - of_nat n) n \<longrightarrow> m x = ram t x"
  shows "sched_run sy lo hi (s\<lparr>ram := m\<rparr>) al idl cr tr"
proof (rule sched_run.work [OF run(1)])
  fix x
  assume x: "x \<notin> user_bytes al (idl # waiting cr tr)"
    "x \<in> heap_region (sym_free_list sy) lo hi \<union> span (thread_list (run_queue s)) 8"
  have f: "aligned4 (esp s)" "n \<le> unat (esp s)" "span (esp s - of_nat n) n \<subseteq> data_bytes (sblk c)"
    using room(1) by (simp_all add: stack_free_def)
  have n: "x \<notin> span (esp s - of_nat n) n"
    using x(1) f(3) running_stack [OF sched_run_state [OF run(1)] run(2-5)] by blast
  then have "x \<notin> span (esp s - of_nat ENTRY_BYTES) ENTRY_BYTES"
    using below_span(2) [of n "esp s" x] below_span(2) [of ENTRY_BYTES "esp s" x] f(2) room(2,3)
    by (simp add: ENTRY_BYTES_def)
  then have "ram t x = ram p x"
    using f(1,2) room(2) p(1) by (intro entry_outside [OF _ _ t]) simp_all
  with n x(2) main p(2) show "ram (s\<lparr>ram := m\<rparr>) x = ram s x" by simp
qed simp_all

end
