(* ===== verification/Cpu_Tables.thy ===== *)
theory Cpu_Tables
  imports Storm_Prelude
begin

text \<open>
  The descriptor tables of the processor: \<open>cpu_table_descriptors.h\<close>, \<open>gdt.c\<close>, \<open>idt.c\<close> and the flags
  of \<open>cpu.h\<close>, all under \<open>src/kernel/arch/i386/cpu\<close>. A table is a list of descriptors of two words.
  The lemmas decode the words the way the processor does: base, limit and access bits of a
  segment; target, selector and type of a gate.
\<close>

section \<open>Descriptors\<close>

record cpu_segment_descriptor =
  low :: u32
  high :: u32

record cpu_pseudo_descriptor =
  limit :: u16
  base :: u32

definition cpu_pseudo_descriptor_init ::
  "u32 \<Rightarrow> u16 \<Rightarrow> cpu_pseudo_descriptor \<Rightarrow> cpu_pseudo_descriptor" where
  "cpu_pseudo_descriptor_init addr sz d = d\<lparr>limit := sz - 1, base := addr\<rparr>"

definition CPU_SEG_S_FLAG :: u32 where "CPU_SEG_S_FLAG = push_bit 12 1"
definition CPU_SEG_P_FLAG :: u32 where "CPU_SEG_P_FLAG = push_bit 15 1"
definition CPU_SEG_DB_FLAG :: u32 where "CPU_SEG_DB_FLAG = push_bit 22 1"
definition CPU_SEG_G_FLAG :: u32 where "CPU_SEG_G_FLAG = push_bit 23 1"

section \<open>The segment table\<close>

definition GDT_SEG_DATA_RW :: u32 where "GDT_SEG_DATA_RW = push_bit 9 1"
definition GDT_SEG_CODE_RX :: u32 where "GDT_SEG_CODE_RX = push_bit 9 1 OR push_bit 11 1"
definition GDT_CODE_SEGMENT_SELECTOR :: u32 where "GDT_CODE_SEGMENT_SELECTOR = push_bit 3 1"
definition GDT_DATA_SEGMENT_SELECTOR :: u32 where "GDT_DATA_SEGMENT_SELECTOR = push_bit 3 2"

definition gdt_null_descriptor_init :: "cpu_segment_descriptor \<Rightarrow> cpu_segment_descriptor" where
  "gdt_null_descriptor_init d = d\<lparr>low := 0, high := 0\<rparr>"

definition gdt_code_descriptor_init :: "cpu_segment_descriptor \<Rightarrow> cpu_segment_descriptor" where
  "gdt_code_descriptor_init d = d\<lparr>low := 0xffff, high := push_bit 16 0xf OR CPU_SEG_S_FLAG
     OR CPU_SEG_P_FLAG OR CPU_SEG_DB_FLAG OR CPU_SEG_G_FLAG OR GDT_SEG_CODE_RX\<rparr>"

definition gdt_data_descriptor_init :: "cpu_segment_descriptor \<Rightarrow> cpu_segment_descriptor" where
  "gdt_data_descriptor_init d = d\<lparr>low := 0xffff, high := push_bit 16 0xf OR CPU_SEG_S_FLAG
     OR CPU_SEG_P_FLAG OR CPU_SEG_DB_FLAG OR CPU_SEG_G_FLAG OR GDT_SEG_DATA_RW\<rparr>"

abbreviation (input) GDT_NULL_SEGMENT_INDEX :: nat where "GDT_NULL_SEGMENT_INDEX \<equiv> 0"
abbreviation (input) GDT_CODE_SEGMENT_INDEX :: nat where "GDT_CODE_SEGMENT_INDEX \<equiv> 1"
abbreviation (input) GDT_DATA_SEGMENT_INDEX :: nat where "GDT_DATA_SEGMENT_INDEX \<equiv> 2"

text \<open>The table and what \<open>load_gdt\<close> is given; the address of the table is an argument.\<close>

definition gdt_init :: "u32 \<Rightarrow> cpu_pseudo_descriptor \<Rightarrow> cpu_segment_descriptor list
    \<Rightarrow> cpu_segment_descriptor list \<times> cpu_pseudo_descriptor" where
  "gdt_init addr pd gdt =
     (let gdt = gdt[GDT_NULL_SEGMENT_INDEX := gdt_null_descriptor_init (gdt ! GDT_NULL_SEGMENT_INDEX)];
          gdt = gdt[GDT_CODE_SEGMENT_INDEX := gdt_code_descriptor_init (gdt ! GDT_CODE_SEGMENT_INDEX)];
          gdt = gdt[GDT_DATA_SEGMENT_INDEX := gdt_data_descriptor_init (gdt ! GDT_DATA_SEGMENT_INDEX)]
      in (gdt, cpu_pseudo_descriptor_init addr (of_nat (8 * length gdt)) pd))"

section \<open>The interrupt table\<close>

abbreviation (input) IDT_SIZE :: nat where "IDT_SIZE \<equiv> 256"

definition IDT_SEG_INT_GATE :: u32 where
  "IDT_SEG_INT_GATE = push_bit 9 1 OR push_bit 10 1 OR push_bit 11 1"

definition idt_interrupt_gate_descriptor_init :: "u32 \<Rightarrow> cpu_segment_descriptor \<Rightarrow> cpu_segment_descriptor" where
  "idt_interrupt_gate_descriptor_init entry d =
     d\<lparr>low := (entry AND 0xffff) OR push_bit 16 GDT_CODE_SEGMENT_SELECTOR,
       high := (entry AND 0xffff0000) OR CPU_SEG_P_FLAG OR IDT_SEG_INT_GATE\<rparr>"

definition idt_default_interrupt_handler :: "'s res" where
  "idt_default_interrupt_handler = panic ''Unhandled interrupt!''"

definition INIT_IDT_ENTRY :: "(nat \<Rightarrow> u32) \<Rightarrow> nat \<Rightarrow> cpu_segment_descriptor list
    \<Rightarrow> cpu_segment_descriptor list" where
  "INIT_IDT_ENTRY isr n idt = idt[n := idt_interrupt_gate_descriptor_init (isr n) (idt ! n)]"

text \<open>The service routines the file declares, each the label of a stub in \<open>interrupts_asm.S\<close>.\<close>

definition declared_isrs :: "nat list" where
  "declared_isrs = [0, 1, 2, 3, 4, 5, 6, 7, 8, 9, 10, 11, 12, 13, 14, 15, 16, 17, 18, 19, 20, 21,
     32, 33, 34, 35, 36, 37, 38, 39, 40, 41, 42, 43, 44, 45, 46, 47]"

lemma declared_isrs_range: "declared_isrs = [0..<22] @ [32..<48]"
  by (simp add: declared_isrs_def upt_rec)

lemma declared_isrs_iff: "n \<in> set declared_isrs \<longleftrightarrow> n < 22 \<or> 32 \<le> n \<and> n < 48"
  by (simp only: declared_isrs_range set_append set_upt Un_iff atLeastLessThan_iff) simp

text \<open>\<open>isr n\<close> is the address of the label \<open>isr_n\<close>, \<open>dflt\<close> that of \<open>idt_default_interrupt_handler\<close>.\<close>

definition idt_init :: "(nat \<Rightarrow> u32) \<Rightarrow> u32 \<Rightarrow> u32 \<Rightarrow> cpu_pseudo_descriptor \<Rightarrow> cpu_segment_descriptor list
    \<Rightarrow> cpu_segment_descriptor list \<times> cpu_pseudo_descriptor" where
  "idt_init isr dflt addr pd idt =
     (let idt = fold (INIT_IDT_ENTRY (\<lambda>_. dflt)) [0..<IDT_SIZE] idt;
          idt = fold (INIT_IDT_ENTRY isr) [0..<22] idt;
          idt = fold (INIT_IDT_ENTRY isr) [32..<48] idt
      in (idt, cpu_pseudo_descriptor_init addr (of_nat (8 * length idt)) pd))"

lemmas seg_defs = CPU_SEG_S_FLAG_def CPU_SEG_P_FLAG_def CPU_SEG_DB_FLAG_def CPU_SEG_G_FLAG_def
  GDT_SEG_DATA_RW_def GDT_SEG_CODE_RX_def GDT_CODE_SEGMENT_SELECTOR_def GDT_DATA_SEGMENT_SELECTOR_def
  IDT_SEG_INT_GATE_def

section \<open>Decoding\<close>

definition seg_base :: "cpu_segment_descriptor \<Rightarrow> u32" where
  "seg_base d = drop_bit 16 (low d) OR push_bit 16 (high d AND 0xff) OR (high d AND 0xff000000)"

text \<open>The last offset of a segment, with the granularity bit taken into account.\<close>

definition seg_last :: "cpu_segment_descriptor \<Rightarrow> nat" where
  "seg_last d = (let l = unat ((low d AND 0xffff) OR (high d AND 0xf0000))
     in if bit (high d) 23 then 4096 * l + 4095 else l)"

text \<open>Present, code or data, executable, readable or writable, 32 bits, most privileged.\<close>

definition seg_flat :: "bool \<Rightarrow> cpu_segment_descriptor \<Rightarrow> bool" where
  "seg_flat code d \<longleftrightarrow> seg_base d = 0 \<and> seg_last d = 4294967295 \<and> bit (high d) 15 \<and> bit (high d) 12
     \<and> bit (high d) 11 = code \<and> bit (high d) 9 \<and> bit (high d) 22
     \<and> \<not> bit (high d) 13 \<and> \<not> bit (high d) 14"

definition gate_target :: "cpu_segment_descriptor \<Rightarrow> u32" where
  "gate_target d = (high d AND 0xffff0000) OR (low d AND 0xffff)"

definition gate_selector :: "cpu_segment_descriptor \<Rightarrow> u32" where
  "gate_selector d = drop_bit 16 (low d)"

text \<open>A present gate of the most privileged level, of type 14: a 32-bit interrupt gate.\<close>

definition interrupt_gate :: "cpu_segment_descriptor \<Rightarrow> bool" where
  "interrupt_gate d \<longleftrightarrow> (high d AND 0xff00) = 0x8e00"

lemma masks:
  "(0xffff :: u32) = mask 16" "(0xffff0000 :: u32) = NOT (mask 16)" "(0xff00 :: u32) = push_bit 8 (mask 8)"
  "(0x8e00 :: u32) = push_bit 9 1 OR push_bit 10 1 OR push_bit 11 1 OR push_bit 15 1"
  by (simp_all add: mask_eq_exp_minus_1)

lemmas bit_rules = bit_and_iff bit_or_iff bit_not_iff bit_push_bit_iff bit_drop_bit_eq bit_mask_iff bit_1_iff
  possible_bit_word

lemma gate_decode:
  "gate_target (idt_interrupt_gate_descriptor_init e d) = e"
  "gate_selector (idt_interrupt_gate_descriptor_init e d) = GDT_CODE_SEGMENT_SELECTOR"
  "interrupt_gate (idt_interrupt_gate_descriptor_init e d)"
proof -
  let ?lo = "(e AND 0xffff) OR push_bit 16 GDT_CODE_SEGMENT_SELECTOR"
  let ?hi = "(e AND 0xffff0000) OR CPU_SEG_P_FLAG OR IDT_SEG_INT_GATE"
  have "(?hi AND 0xffff0000) OR (?lo AND 0xffff) = e"
    by (rule bit_word_eqI, unfold masks seg_defs bit_rules) auto
  moreover have "drop_bit 16 ?lo = GDT_CODE_SEGMENT_SELECTOR"
    by (rule bit_word_eqI, unfold masks seg_defs bit_rules o_def) (auto dest: bit_imp_le_length)
  moreover have "?hi AND 0xff00 = 0x8e00"
    by (rule bit_word_eqI, unfold masks seg_defs bit_rules) auto
  moreover have "low (idt_interrupt_gate_descriptor_init e d) = ?lo"
    "high (idt_interrupt_gate_descriptor_init e d) = ?hi"
    by (simp_all add: idt_interrupt_gate_descriptor_init_def)
  ultimately show "gate_target (idt_interrupt_gate_descriptor_init e d) = e"
    "gate_selector (idt_interrupt_gate_descriptor_init e d) = GDT_CODE_SEGMENT_SELECTOR"
    "interrupt_gate (idt_interrupt_gate_descriptor_init e d)"
    by (simp_all only: gate_target_def gate_selector_def interrupt_gate_def)
qed

lemma gdt_flat: "seg_flat True (gdt_code_descriptor_init d)" "seg_flat False (gdt_data_descriptor_init d)"
  by (simp_all add: seg_flat_def seg_base_def seg_last_def Let_def gdt_code_descriptor_init_def
      gdt_data_descriptor_init_def seg_defs bit_numeral_word_iff)

section \<open>The tables after initialisation\<close>

lemma gdt_init_ok:
  assumes "length gdt = 3" "gdt_init addr pd gdt = (gdt', pd')"
  shows "length gdt' = 3" "low (gdt' ! 0) = 0" "high (gdt' ! 0) = 0"
    "seg_flat True (gdt' ! unat (drop_bit 3 GDT_CODE_SEGMENT_SELECTOR))"
    "seg_flat False (gdt' ! unat (drop_bit 3 GDT_DATA_SEGMENT_SELECTOR))"
    "base pd' = addr" "unat (limit pd') = 8 * length gdt' - 1"
  using assms gdt_flat
  by (auto simp: gdt_init_def Let_def seg_defs cpu_pseudo_descriptor_init_def gdt_null_descriptor_init_def)

lemma init_entries:
  assumes "distinct ns" "\<forall>n \<in> set ns. n < length idt"
  shows "length (fold (INIT_IDT_ENTRY isr) ns idt) = length idt"
    "k < length idt \<Longrightarrow> fold (INIT_IDT_ENTRY isr) ns idt ! k =
       (if k \<in> set ns then idt_interrupt_gate_descriptor_init (isr k) (idt ! k) else idt ! k)"
  using assms
  by (induction ns arbitrary: idt) (auto simp: INIT_IDT_ENTRY_def nth_list_update)

lemma init_range:
  assumes "b \<le> length idt" "k < length idt"
  shows "fold (INIT_IDT_ENTRY isr) [a..<b] idt ! k =
     (if a \<le> k \<and> k < b then idt_interrupt_gate_descriptor_init (isr k) (idt ! k) else idt ! k)"
  using init_entries(2) [of "[a..<b]" idt k isr] assms by simp

lemma idt_init_ok:
  assumes "length idt = 256" "idt_init isr dflt addr pd idt = (idt', pd')"
  shows "length idt' = 256" "base pd' = addr" "unat (limit pd') = 8 * length idt' - 1"
    "n < 256 \<Longrightarrow> interrupt_gate (idt' ! n) \<and> gate_selector (idt' ! n) = GDT_CODE_SEGMENT_SELECTOR
       \<and> gate_target (idt' ! n) = (if n < 22 \<or> 32 \<le> n \<and> n < 48 then isr n else dflt)"
proof -
  let ?a = "fold (INIT_IDT_ENTRY (\<lambda>_. dflt)) [0..<256] idt"
  let ?b = "fold (INIT_IDT_ENTRY isr) [0..<22] ?a"
  let ?c = "fold (INIT_IDT_ENTRY isr) [32..<48] ?b"
  have la: "length ?a = 256" using init_entries(1) [of "[0..<256]" idt] assms(1) by simp
  have lb: "length ?b = 256" using init_entries(1) [of "[0..<22]" ?a] la by simp
  have lc: "length ?c = 256" using init_entries(1) [of "[32..<48]" ?b] lb by simp
  have e: "idt' = ?c" "pd' = cpu_pseudo_descriptor_init addr (of_nat (8 * length ?c)) pd"
    using assms(2) [symmetric] unfolding idt_init_def Let_def by (simp_all only: prod.inject)
  show "length idt' = 256" "base pd' = addr" "unat (limit pd') = 8 * length idt' - 1"
    unfolding e cpu_pseudo_descriptor_init_def lc by simp_all
  show "interrupt_gate (idt' ! n) \<and> gate_selector (idt' ! n) = GDT_CODE_SEGMENT_SELECTOR
       \<and> gate_target (idt' ! n) = (if n < 22 \<or> 32 \<le> n \<and> n < 48 then isr n else dflt)" if n: "n < 256"
  proof -
    have "idt' ! n = (if 32 \<le> n \<and> n < 48 then idt_interrupt_gate_descriptor_init (isr n) (?b ! n) else ?b ! n)"
      unfolding e by (rule init_range; unfold lb; use n in simp)
    moreover have "?b ! n = (if 0 \<le> n \<and> n < 22 then idt_interrupt_gate_descriptor_init (isr n) (?a ! n) else ?a ! n)"
      by (rule init_range; unfold la; use n in simp)
    moreover have "?a ! n = (if 0 \<le> n \<and> n < 256 then idt_interrupt_gate_descriptor_init dflt (idt ! n) else idt ! n)"
      by (rule init_range) (use assms(1) n in simp_all)
    ultimately obtain a b where
      "idt' ! n = (if 32 \<le> n \<and> n < 48 then idt_interrupt_gate_descriptor_init (isr n) b else b)"
      "b = (if 0 \<le> n \<and> n < 22 then idt_interrupt_gate_descriptor_init (isr n) a else a)"
      "a = (if 0 \<le> n \<and> n < 256 then idt_interrupt_gate_descriptor_init dflt (idt ! n) else idt ! n)"
      by blast
    with n show ?thesis by (simp add: gate_decode)
  qed
qed

end
