(* ===== verification/Machine_Run.thy ===== *)
theory Machine_Run
  imports Driver_Run Thread_Interrupt Cpu_Tables
begin

text \<open>
  The processor and the devices together, from the arrival of an interrupt to the \<open>iret\<close>: the processor finds
  the gate of the vector in the interrupt table, the stub there builds the frame, \<open>isr_main\<close> reads it, acknowledges
  the interrupt and runs the handler on the state of the drivers. The lemmas show what a whole sequence of
  interrupts leaves behind.
\<close>

section \<open>One interrupt\<close>

text \<open>
  What the compiled \<open>isr_main\<close> does to the processor: it keeps to the calling convention, and of the memory \<open>R\<close>
  writes only the \<open>k\<close> bytes of its own stack frames.
\<close>

definition isr_function :: "u32 set \<Rightarrow> nat \<Rightarrow> (icpu \<Rightarrow> icpu) \<Rightarrow> bool" where
  "isr_function R k main \<longleftrightarrow> (\<forall>t. aligned4 (esp t) \<longrightarrow> k \<le> unat (esp t) \<longrightarrow> keeps_frame main t
     \<and> (\<forall>x \<in> R. x \<notin> span (esp t - of_nat k) k \<longrightarrow> ram (main t) x = ram t x))"

text \<open>
  \<open>isr n\<close> is the address of the stub \<open>isr_n\<close>, \<open>table\<close> the interrupt table; at an address other than that of the
  stub there is no code this model knows. While the interrupt flag is clear the interrupt stays pending.
\<close>

definition take_interrupt :: "u32 \<Rightarrow> (nat \<Rightarrow> u32) \<Rightarrow> cpu_segment_descriptor list \<Rightarrow> u32 \<Rightarrow> u8 \<times> (icpu \<Rightarrow> icpu)
    \<Rightarrow> icpu \<times> timer \<Rightarrow> (icpu \<times> timer) res" where
  "take_interrupt tf isr table retaddr = (\<lambda>(irq, main) (p, d).
     if \<not> bit (flags_reg p) 9 then Inr (p, d)
     else
       let n = 32 + unat irq;
           c = cpu_interrupt (error_of n 0) (gate_selector (table ! n)) (gate_target (table ! n)) p
       in if eip c \<noteq> isr n then Inl OutOfBounds
         else
           let t = isr_common_call retaddr (isr_stub n c)
           in bind_res (isr_main (handler_call tf) (read_frame (ram t) (load32 (ram t) (esp t + 4))) d)
                (\<lambda>d. Inr (isr_common_return (main t), d)))"

fun take_interrupts :: "u32 \<Rightarrow> (nat \<Rightarrow> u32) \<Rightarrow> cpu_segment_descriptor list \<Rightarrow> u32 \<Rightarrow> (u8 \<times> (icpu \<Rightarrow> icpu)) list
    \<Rightarrow> icpu \<times> timer \<Rightarrow> (icpu \<times> timer) res" where
  "take_interrupts tf isr table retaddr [] s = Inr s"
| "take_interrupts tf isr table retaddr (x # xs) s =
     bind_res (take_interrupt tf isr table retaddr x s) (take_interrupts tf isr table retaddr xs)"

text \<open>The gates of the interrupt lines.\<close>

definition irq_gates :: "(nat \<Rightarrow> u32) \<Rightarrow> cpu_segment_descriptor list \<Rightarrow> bool" where
  "irq_gates isr table \<longleftrightarrow> (\<forall>n. 32 \<le> n \<longrightarrow> n < 48 \<longrightarrow> gate_target (table ! n) = isr n)"

lemma idt_init_gates:
  assumes "length table = 256"
  shows "irq_gates isr (fst (idt_init isr dflt addr pd table))"
proof -
  obtain t p where "idt_init isr dflt addr pd table = (t, p)" by fastforce
  from idt_init_ok(4) [OF assms this] this show ?thesis by (simp add: irq_gates_def)
qed

lemma interrupted_cpu:
  assumes a: "aligned4 (esp p)" "ENTRY_BYTES + k \<le> n" "n \<le> unat (esp p)" "n < 4294967296"
    and m: "isr_function R k main"
    and t: "t = isr_common_call retaddr (isr_stub v (cpu_interrupt (error_of v e) sel tgt p))"
  shows "isr_common_return (main t) = p\<lparr>ram := ram (main t)\<rparr>"
    "\<forall>x \<in> R. x \<notin> span (esp p - of_nat n) n \<longrightarrow> ram (main t) x = ram p x"
proof -
  note st = entry_state(2) [OF t]
  have u: "unat (esp t) = unat (esp p) - 60"
    unfolding st by (rule unat_sub_u32 [THEN trans]) (use a in \<open>simp_all add: ENTRY_BYTES_def\<close>)
  have al: "aligned4 (esp t)" "k \<le> unat (esp t)" using a u by (simp_all add: st ENTRY_BYTES_def)
  with m have k: "keeps_frame main t" "\<forall>x \<in> R. x \<notin> span (esp t - of_nat k) k \<longrightarrow> ram (main t) x = ram t x"
    by (simp_all add: isr_function_def)
  show "isr_common_return (main t) = p\<lparr>ram := ram (main t)\<rparr>"
    using interrupt_roundtrip(13) [OF a(1) t k(1) refl] by (simp add: isr_common_def t)
  show "\<forall>x \<in> R. x \<notin> span (esp p - of_nat n) n \<longrightarrow> ram (main t) x = ram p x"
  proof (intro ballI impI)
    fix x assume x: "x \<in> R" "x \<notin> span (esp p - of_nat n) n"
    have s: "x \<notin> span (esp t - of_nat k) k" "x \<notin> span (esp p - of_nat ENTRY_BYTES) ENTRY_BYTES"
      using x(2) below_span(2) [of n "esp p" x] below_span(2) [of ENTRY_BYTES "esp p" x] below_span(2) [of k "esp t" x]
        a u al(2) by (auto simp: ENTRY_BYTES_def)
    then have "ram t x = ram p x" using a by (intro entry_outside [OF _ _ t]) simp_all
    with k(2) s(1) x(1) show "ram (main t) x = ram p x" by simp
  qed
qed

section \<open>Any number of interrupts\<close>

lemma take_interrupt_ok:
  assumes d: "drv_ok tf cs d" and x: "irq < 16" "isr_function R k main" and g: "irq_gates isr table"
    and p: "aligned4 (esp p)" "bit (flags_reg p) 9" "ENTRY_BYTES + k \<le> n" "n \<le> unat (esp p)" "n < 4294967296"
  shows "\<exists>p' d'. take_interrupt tf isr table retaddr (irq, main) (p, d) = Inr (p', d') \<and> p' = p\<lparr>ram := ram p'\<rparr>
    \<and> (\<forall>x \<in> R. x \<notin> span (esp p - of_nat n) n \<longrightarrow> ram p' x = ram p x)
    \<and> drv_ok tf cs d' \<and> handler_of d' = handler_of d \<and> irq_masked d' = irq_masked d \<and> i8254_freq d' = i8254_freq d
    \<and> i8254_tick_count d' = i8254_tick_count d + (if fst (handler_of d irq) = 0 then 0 else 1)
    \<and> master_eois cs d' = master_eois cs d + 1"
proof -
  let ?n = "32 + unat irq"
  let ?c = "cpu_interrupt (error_of ?n 0) (gate_selector (table ! ?n)) (gate_target (table ! ?n)) p"
  define t where "t = isr_common_call retaddr (isr_stub ?n ?c)"
  have lt: "unat irq < 16" using x(1) by (simp add: word_less_nat_alt)
  have e: "error_of ?n 0 = None" by (simp add: error_of_def error_vectors_def)
  have eip: "eip ?c = isr ?n" using g lt by (simp add: cpu_interrupt_def irq_gates_def Let_def)
  let ?f = "read_frame (ram t) (load32 (ram t) (esp t + 4))"
  have "int_no ?f = 32 + ucast irq" using entry_irq [OF p(1)] t_def e by metis
  then have v: "irq_vector irq ?f" using x(1) by (simp add: irq_vector_def)
  obtain d' where d': "isr_main (handler_call tf) ?f d = Inr d'" "drv_ok tf cs d'"
    "handler_of d' = handler_of d" "irq_masked d' = irq_masked d" "i8254_freq d' = i8254_freq d"
    "port_log d' = port_log (i8259_send_eoi irq d)"
    "i8254_tick_count d' = i8254_tick_count d + (if fst (handler_of d irq) = 0 then 0 else 1)"
    using interrupt_step [OF d v] by blast
  have "pics_ok cs d" using d by (simp add: drv_ok_def irqs_ok_def)
  then have m: "master_eois cs d' = master_eois cs d + 1"
    unfolding master_eois_def d'(6) by (rule send_eoi_ok(5))
  note r = interrupted_cpu [OF p(1,3,4,5) x(2) t_def]
  have "take_interrupt tf isr table retaddr (irq, main) (p, d) = Inr (isr_common_return (main t), d')"
    using p(2) eip d'(1) by (simp add: take_interrupt_def Let_def t_def)
  with r d' m show ?thesis by simp
qed

lemma take_interrupts_ok:
  assumes "drv_ok tf cs d" "\<forall>(irq, main) \<in> set xs. irq < 16 \<and> isr_function R k main" "irq_gates isr table"
    and "aligned4 (esp p)" "bit (flags_reg p) 9" "ENTRY_BYTES + k \<le> n" "n \<le> unat (esp p)" "n < 4294967296"
    and "\<forall>irq < 16. fst (handler_of d irq) \<noteq> 0 \<longleftrightarrow> irq = 0"
  shows "\<exists>p' d'. take_interrupts tf isr table retaddr xs (p, d) = Inr (p', d') \<and> p' = p\<lparr>ram := ram p'\<rparr>
    \<and> (\<forall>x \<in> R. x \<notin> span (esp p - of_nat n) n \<longrightarrow> ram p' x = ram p x)
    \<and> drv_ok tf cs d' \<and> handler_of d' = handler_of d \<and> irq_masked d' = irq_masked d \<and> i8254_freq d' = i8254_freq d
    \<and> i8254_tick_count d' = i8254_tick_count d + of_nat (length (filter (\<lambda>x. fst x = 0) xs))
    \<and> master_eois cs d' = master_eois cs d + length xs"
  using assms
proof (induction xs arbitrary: p d)
  case (Cons x xs)
  obtain irq main where x: "x = (irq, main)" by (cases x)
  with Cons.prems(2) have i: "irq < 16" "isr_function R k main" by auto
  obtain p1 d1 where s: "take_interrupt tf isr table retaddr (irq, main) (p, d) = Inr (p1, d1)" "p1 = p\<lparr>ram := ram p1\<rparr>"
    "\<forall>x \<in> R. x \<notin> span (esp p - of_nat n) n \<longrightarrow> ram p1 x = ram p x" "drv_ok tf cs d1"
    "handler_of d1 = handler_of d" "irq_masked d1 = irq_masked d" "i8254_freq d1 = i8254_freq d"
    "i8254_tick_count d1 = i8254_tick_count d + (if fst (handler_of d irq) = 0 then 0 else 1)"
    "master_eois cs d1 = master_eois cs d + 1"
    using take_interrupt_ok [OF Cons.prems(1) i Cons.prems(3-8)] by blast
  have c: "esp p1 = esp p" "flags_reg p1 = flags_reg p" by (subst s(2); simp)+
  have "\<forall>(irq, main) \<in> set xs. irq < 16 \<and> isr_function R k main" using Cons.prems(2) by auto
  from Cons.IH [OF s(4) this Cons.prems(3), of p1] Cons.prems(4-9) c s(5) obtain p' d' where
    r: "take_interrupts tf isr table retaddr xs (p1, d1) = Inr (p', d')" "p' = p1\<lparr>ram := ram p'\<rparr>"
    "\<forall>x \<in> R. x \<notin> span (esp p - of_nat n) n \<longrightarrow> ram p' x = ram p1 x" "drv_ok tf cs d'"
    "handler_of d' = handler_of d1" "irq_masked d' = irq_masked d1" "i8254_freq d' = i8254_freq d1"
    "i8254_tick_count d' = i8254_tick_count d1 + of_nat (length (filter (\<lambda>x. fst x = 0) xs))"
    "master_eois cs d' = master_eois cs d1 + length xs" by auto
  have "p' = p\<lparr>ram := ram p'\<rparr>" using r(2) s(2) by (metis cpu.update_convs(10) cpu.surjective)
  moreover have "fst (handler_of d irq) = 0 \<longleftrightarrow> irq \<noteq> 0" using Cons.prems(9) i(1) by blast
  ultimately show ?case using r s x by simp
qed simp

end
