(* ===== verification/Cpu_Control.thy ===== *)
theory Cpu_Control
  imports Interrupt_Entry Cpu_Tables
begin

text \<open>
  The assembly below \<open>cpu.h\<close>, \<open>io.h\<close>, \<open>gdt.c\<close> and \<open>idt.c\<close>, instruction by instruction: \<open>cpu_asm.S\<close>,
  \<open>io_asm.S\<close>, \<open>gdt_asm.S\<close> and \<open>idt_asm.S\<close> under \<open>src/kernel/arch/i386\<close>; and the loops that only wait, of
  \<open>cpu.c\<close> and \<open>thread.c\<close>. The lemmas show that the routines, called by the convention of C, do what their
  prototypes say, and that the loops never end.
\<close>

section \<open>Flags\<close>

definition CPU_INTERRUPTS_ENABLED_FLAG :: u32 where
  "CPU_INTERRUPTS_ENABLED_FLAG = push_bit 9 1"

definition cpu_get_eflags_asm :: "icpu \<Rightarrow> icpu" where
  "cpu_get_eflags_asm c =
     (let c = push32 (flags_reg c) c;
          c = drop32 (c\<lparr>eax := top32 c\<rparr>)
      in ret_near c)"

definition cpu_enable_interrupts_asm :: "icpu \<Rightarrow> icpu" where
  "cpu_enable_interrupts_asm c = ret_near (c\<lparr>flags_reg := flags_reg c OR CPU_INTERRUPTS_ENABLED_FLAG\<rparr>)"

definition cpu_disable_interrupts_asm :: "icpu \<Rightarrow> icpu" where
  "cpu_disable_interrupts_asm c = ret_near (c\<lparr>flags_reg := flags_reg c AND NOT CPU_INTERRUPTS_ENABLED_FLAG\<rparr>)"

section \<open>Ports\<close>

text \<open>
  The processor with the devices: \<open>out\<close> appends to the log of port writes, \<open>in\<close> reads what the device
  offers, an argument.
\<close>

definition io_write_byte_asm :: "icpu \<times> 'a ports_scheme \<Rightarrow> icpu \<times> 'a ports_scheme" where
  "io_write_byte_asm = (\<lambda>(c, s).
     (let c = push32 (ebp c) c;
          c = c\<lparr>ebp := esp c\<rparr>;
          c = c\<lparr>eax := load32 (ram c) (ebp c + 12)\<rparr>;
          c = c\<lparr>edx := load32 (ram c) (ebp c + 8)\<rparr>;
          s = io_write_byte (ucast (edx c)) (ucast (eax c)) s;
          c = c\<lparr>esp := ebp c\<rparr>;
          c = drop32 (c\<lparr>ebp := top32 c\<rparr>)
      in (ret_near c, s)))"

definition io_read_byte_asm :: "(u16 \<Rightarrow> u8) \<Rightarrow> icpu \<Rightarrow> icpu" where
  "io_read_byte_asm inp c =
     (let c = push32 (ebp c) c;
          c = c\<lparr>ebp := esp c\<rparr>;
          c = c\<lparr>edx := load32 (ram c) (ebp c + 8)\<rparr>;
          c = c\<lparr>eax := (eax c AND NOT 0xff) OR ucast (inp (ucast (edx c)))\<rparr>;
          c = c\<lparr>esp := ebp c\<rparr>;
          c = drop32 (c\<lparr>ebp := top32 c\<rparr>)
      in ret_near c)"

section \<open>Descriptor tables\<close>

text \<open>The segment and table registers; \<open>load16\<close> reads a 16-bit word.\<close>

record sys_cpu = icpu +
  seg_ds :: u16
  seg_es :: u16
  seg_fs :: u16
  seg_gs :: u16
  seg_ss :: u16
  gdt_reg :: cpu_pseudo_descriptor
  idt_reg :: cpu_pseudo_descriptor

definition load16 :: "mem \<Rightarrow> u32 \<Rightarrow> u16" where
  "load16 m a = ucast (m a) OR push_bit 8 (ucast (m (a + 1)))"

text \<open>The packed \<open>struct cpu_pseudo_descriptor\<close> in memory.\<close>

definition read_pseudo :: "mem \<Rightarrow> u32 \<Rightarrow> cpu_pseudo_descriptor" where
  "read_pseudo m a = \<lparr>limit = load16 m a, base = load32 m (a + 2)\<rparr>"

definition load_gdt :: "sys_cpu \<Rightarrow> sys_cpu" where
  "load_gdt c =
     (let c = c\<lparr>eax := load32 (ram c) (esp c + 4)\<rparr>;
          c = c\<lparr>gdt_reg := read_pseudo (ram c) (eax c)\<rparr>;
          c = c\<lparr>eax := (eax c AND NOT 0xffff) OR ucast (ucast GDT_DATA_SEGMENT_SELECTOR :: u16)\<rparr>;
          c = c\<lparr>seg_ds := ucast (eax c)\<rparr>;
          c = c\<lparr>seg_es := ucast (eax c)\<rparr>;
          c = c\<lparr>seg_fs := ucast (eax c)\<rparr>;
          c = c\<lparr>seg_gs := ucast (eax c)\<rparr>;
          c = c\<lparr>seg_ss := ucast (eax c)\<rparr>;
          c = c\<lparr>seg_cs := GDT_CODE_SEGMENT_SELECTOR\<rparr>
      in ret_near c)"

definition load_idt :: "sys_cpu \<Rightarrow> sys_cpu" where
  "load_idt c =
     (let c = c\<lparr>eax := load32 (ram c) (esp c + 4)\<rparr>
      in ret_near (c\<lparr>idt_reg := read_pseudo (ram c) (eax c)\<rparr>))"

section \<open>Loops that wait\<close>

text \<open>
  \<open>wait\<close> is \<open>cpu_wait_for_interrupt\<close>: the state after the \<open>hlt\<close>. The loop of \<open>cpu_halt\<close> and that of
  \<open>idle_thread_fn\<close>.
\<close>

partial_function (option) cpu_halt_loop :: "('s \<Rightarrow> 's) \<Rightarrow> 's \<Rightarrow> 's option" where
  "cpu_halt_loop wait s = cpu_halt_loop wait (wait s)"

partial_function (option) idle_thread_fn :: "('s \<Rightarrow> 's) \<Rightarrow> u32 \<Rightarrow> 's \<Rightarrow> 's option" where
  "idle_thread_fn wait arg s = idle_thread_fn wait arg (wait s)"

lemma halt_loop_none: "cpu_halt_loop wait s = None"
proof (cases "cpu_halt_loop wait s")
  case (Some y)
  then have False by (rule cpu_halt_loop.raw_induct [where P = "\<lambda>_ _ _. False", rotated]) auto
  then show ?thesis ..
qed

lemma idle_loop_none: "idle_thread_fn wait arg s = None"
proof (cases "idle_thread_fn wait arg s")
  case (Some y)
  then have False by (rule idle_thread_fn.raw_induct [where P = "\<lambda>_ _ _ _. False", rotated]) auto
  then show ?thesis ..
qed

section \<open>What the routines do\<close>

text \<open>A routine called with arguments, seen by the caller: the callee-saved registers and the stack.\<close>

definition c_return :: "'a cpu_scheme \<Rightarrow> 'a cpu_scheme \<Rightarrow> u32 \<Rightarrow> u32 list \<Rightarrow> bool" where
  "c_return c c' retaddr args \<longleftrightarrow> eip c' = retaddr \<and> esp c' = esp c - 4 * of_nat (length args) \<and> ebx c' = ebx c
     \<and> ebp c' = ebp c \<and> esi c' = esi c \<and> edi c' = edi c"

lemma get_eflags_returns:
  assumes "aligned4 (esp c)" "c' = cpu_get_eflags_asm (cdecl_call retaddr [] c)"
  shows "c_return c c' retaddr [] \<and> eax c' = flags_reg c \<and> flags_reg c' = flags_reg c"
  using assms by (simp add: cpu_get_eflags_asm_def c_return_def asm_defs)

lemma interrupt_flag_returns:
  assumes "aligned4 (esp c)"
  shows "c' = cpu_enable_interrupts_asm (cdecl_call retaddr [] c) \<Longrightarrow>
      c_return c c' retaddr [] \<and> flags_reg c' = flags_reg c OR CPU_INTERRUPTS_ENABLED_FLAG"
    "c' = cpu_disable_interrupts_asm (cdecl_call retaddr [] c) \<Longrightarrow>
      c_return c c' retaddr [] \<and> flags_reg c' = flags_reg c AND NOT CPU_INTERRUPTS_ENABLED_FLAG"
  using assms
  by (simp_all add: cpu_enable_interrupts_asm_def cpu_disable_interrupts_asm_def c_return_def asm_defs)

lemma io_write_returns:
  assumes "aligned4 (esp c)" "(c', s') = io_write_byte_asm (cdecl_call retaddr [port, byte] c, s)"
  shows "c_return c c' retaddr [port, byte] \<and> s' = io_write_byte (ucast port) (ucast byte) s"
  using assms
  by (simp add: io_write_byte_asm_def c_return_def asm_defs)

lemma io_read_returns:
  assumes "aligned4 (esp c)" "c' = io_read_byte_asm inp (cdecl_call retaddr [port] c)"
  shows "c_return c c' retaddr [port] \<and> ucast (eax c') = inp (ucast port)"
proof -
  have "ucast (eax c') = inp (ucast port)"
    unfolding assms(2) io_read_byte_asm_def Let_def using assms(1) by (simp add: asm_defs low_part)
  moreover have "c_return c c' retaddr [port]"
    using assms by (simp add: io_read_byte_asm_def c_return_def asm_defs)
  ultimately show ?thesis by simp
qed

lemma load_gdt_returns:
  assumes "aligned4 (esp c)" "s = cdecl_call retaddr [p] c" "c' = load_gdt s"
  shows "c_return c c' retaddr [p]" "gdt_reg c' = read_pseudo (ram s) p" "seg_cs c' = GDT_CODE_SEGMENT_SELECTOR"
    "\<forall>r \<in> {seg_ds c', seg_es c', seg_fs c', seg_gs c', seg_ss c'}. r = ucast GDT_DATA_SEGMENT_SELECTOR"
  using assms by (simp_all add: load_gdt_def c_return_def asm_defs low_part)

lemma load_idt_returns:
  assumes "aligned4 (esp c)" "s = cdecl_call retaddr [p] c" "c' = load_idt s"
  shows "c_return c c' retaddr [p]" "idt_reg c' = read_pseudo (ram s) p" "seg_cs c' = seg_cs c" "seg_ds c' = seg_ds c"
  using assms by (simp_all add: load_idt_def c_return_def asm_defs)

end
