(* ===== verification/Printf_Text.thy ===== *)
theory Printf_Text
  imports Port_IO Memory_Model
begin

text \<open>
  The lower half of \<open>src/lib/printf.c\<close>: flags, output functions, strings, padding and the
  conversion of integers. A routine that prints is given the output function \<open>out\<close> (character,
  index, limit, state) and threads the index and the state of the sink. A C string is the list of
  its characters before the terminator; the array \<open>buf\<close> of the conversions with its length \<open>len\<close> is
  the list of its first \<open>len\<close> bytes.
\<close>

section \<open>Flags and characters\<close>

definition FLAGS_ZEROPAD :: u32 where "FLAGS_ZEROPAD = push_bit 0 1"
definition FLAGS_LEFT :: u32 where "FLAGS_LEFT = push_bit 1 1"
definition FLAGS_PLUS :: u32 where "FLAGS_PLUS = push_bit 2 1"
definition FLAGS_SPACE :: u32 where "FLAGS_SPACE = push_bit 3 1"
definition FLAGS_HASH :: u32 where "FLAGS_HASH = push_bit 4 1"
definition FLAGS_UPPERCASE :: u32 where "FLAGS_UPPERCASE = push_bit 5 1"
definition FLAGS_CHAR :: u32 where "FLAGS_CHAR = push_bit 6 1"
definition FLAGS_SHORT :: u32 where "FLAGS_SHORT = push_bit 7 1"
definition FLAGS_LONG :: u32 where "FLAGS_LONG = push_bit 8 1"
definition FLAGS_LONG_LONG :: u32 where "FLAGS_LONG_LONG = push_bit 9 1"
definition FLAGS_PRECISION :: u32 where "FLAGS_PRECISION = push_bit 10 1"
definition FLAGS_ADAPT_EXP :: u32 where "FLAGS_ADAPT_EXP = push_bit 11 1"

definition PRINTF_NTOA_BUFFER_SIZE :: nat where
  "PRINTF_NTOA_BUFFER_SIZE = 32"

abbreviation has_flag :: "u32 \<Rightarrow> u32 \<Rightarrow> bool" where
  "has_flag flags f \<equiv> flags AND f \<noteq> 0"

text \<open>The code of an ASCII character, and the characters of a literal.\<close>

definition chr :: "char \<Rightarrow> u8" where
  "chr c = of_nat (of_char c)"

abbreviation space :: u8 where
  "space \<equiv> chr CHR '' ''"

definition chrs :: "string \<Rightarrow> u8 list" where
  "chrs s = map chr s"

type_synonym 's out_fct = "u8 \<Rightarrow> u32 \<Rightarrow> u32 \<Rightarrow> 's \<Rightarrow> 's"

section \<open>Sinks\<close>

definition out_buffer :: "u32 \<Rightarrow> mem out_fct" where
  "out_buffer buffer character idx maxlen m =
     (if idx < maxlen then store8 m (buffer + idx) character else m)"

definition out_null :: "'s out_fct" where
  "out_null character idx maxlen s = s"

definition out_char :: "'a ports_scheme out_fct" where
  "out_char character idx maxlen s = (if character \<noteq> 0 then putchar character s else s)"

definition out_fct :: "(u8 \<Rightarrow> 's \<Rightarrow> 's) \<Rightarrow> 's out_fct" where
  "out_fct fct character idx maxlen s = (if character \<noteq> 0 then fct character s else s)"

section \<open>Strings and numbers\<close>

text \<open>\<open>*format\<close>: the terminator stands at the end of the list.\<close>

definition peek :: "u8 list \<Rightarrow> u8" where
  "peek fs = (case fs of [] \<Rightarrow> 0 | c # _ \<Rightarrow> c)"

fun strnlen_s :: "u8 list \<Rightarrow> u32 \<Rightarrow> u32" where
  "strnlen_s [] maxsize = 0"
| "strnlen_s (c # cs) maxsize =
     (if c = 0 then 0 else if maxsize = 0 then 0 else strnlen_s cs (maxsize - 1) + 1)"

definition is_digit :: "u8 \<Rightarrow> bool" where
  "is_digit ch \<longleftrightarrow> chr CHR ''0'' \<le> ch \<and> ch \<le> chr CHR ''9''"

fun atoi_loop :: "u8 list \<Rightarrow> u32 \<Rightarrow> u32 \<times> u8 list" where
  "atoi_loop [] i = (i, [])"
| "atoi_loop (c # cs) i =
     (if is_digit c then atoi_loop cs (i * 10 + (ucast c - ucast (chr CHR ''0''))) else (i, c # cs))"

definition atoi :: "u8 list \<Rightarrow> u32 \<times> u8 list" where
  "atoi str = atoi_loop str 0"

text \<open>\<open>out(c, buffer, idx++, maxlen)\<close>.\<close>

definition put_one :: "'s out_fct \<Rightarrow> u32 \<Rightarrow> u8 \<Rightarrow> u32 \<times> 's \<Rightarrow> u32 \<times> 's" where
  "put_one out maxlen c st = (fst st + 1, out c (fst st) maxlen (snd st))"

text \<open>The loops that print spaces: \<open>i\<close> counts up to the width.\<close>

function pad_loop :: "'s out_fct \<Rightarrow> u32 \<Rightarrow> u32 \<Rightarrow> u32 \<Rightarrow> u32 \<times> 's \<Rightarrow> u32 \<times> 's" where
  "pad_loop out maxlen i width (idx, s) =
     (if i < width then pad_loop out maxlen (i + 1) width (idx + 1, out (space) idx maxlen s)
      else (idx, s))"
  by pat_completeness auto

lemma pad_step:
  assumes "i < (width :: u32)"
  shows "unat (i + 1) = unat i + 1" "unat width - unat (i + 1) < unat width - unat i"
proof -
  have "unat i < unat width" using assms by (simp add: word_less_nat_alt)
  then show "unat (i + 1) = unat i + 1" using unat_u32_less [of width] by (intro unat_plus_1) linarith
  then show "unat width - unat (i + 1) < unat width - unat i" using \<open>unat i < unat width\<close> by simp
qed

termination pad_loop
  by (relation "measure (\<lambda>(out, maxlen, i, width, st). unat width - unat i)") (auto simp: pad_step word_less_nat_alt)

function left_loop :: "'s out_fct \<Rightarrow> u32 \<Rightarrow> u32 \<Rightarrow> u32 \<Rightarrow> u32 \<times> 's \<Rightarrow> u32 \<times> 's" where
  "left_loop out maxlen start_idx width (idx, s) =
     (if idx - start_idx < width
      then left_loop out maxlen start_idx width (idx + 1, out (space) idx maxlen s)
      else (idx, s))"
  by pat_completeness auto

termination left_loop
proof (relation "measure (\<lambda>(out, maxlen, start, width, idx, s). unat width - unat (idx - start))", goal_cases)
  case (2 out maxlen start width idx s)
  then show ?case using pad_step(2) [of "idx - start" width] by (simp add: algebra_simps)
qed simp

fun rev_loop :: "'s out_fct \<Rightarrow> u32 \<Rightarrow> u8 list \<Rightarrow> nat \<Rightarrow> u32 \<times> 's \<Rightarrow> u32 \<times> 's" where
  "rev_loop out maxlen buf 0 (idx, s) = (idx, s)"
| "rev_loop out maxlen buf (Suc len) (idx, s) =
     rev_loop out maxlen buf len (idx + 1, out (buf ! len) idx maxlen s)"

definition out_rev :: "'s out_fct \<Rightarrow> u32 \<Rightarrow> u8 list \<Rightarrow> u32 \<Rightarrow> u32 \<Rightarrow> u32 \<times> 's \<Rightarrow> u32 \<times> 's" where
  "out_rev out maxlen buf width flags st =
     (let start_idx = fst st; len = length buf;
          st = (if \<not> has_flag flags FLAGS_LEFT \<and> \<not> has_flag flags FLAGS_ZEROPAD
                then pad_loop out maxlen (of_nat len) width st else st);
          st = rev_loop out maxlen buf len st
      in if has_flag flags FLAGS_LEFT then left_loop out maxlen start_idx width st else st)"

text \<open>\<open>buf[len++] = c\<close> under a guard that holds as long as the array has room.\<close>

definition push_char :: "bool \<Rightarrow> u8 \<Rightarrow> u8 list \<Rightarrow> u8 list" where
  "push_char guard c buf = (if guard \<and> length buf < PRINTF_NTOA_BUFFER_SIZE then buf @ [c] else buf)"

function pad_zeros :: "u32 \<Rightarrow> u8 list \<Rightarrow> u8 list" where
  "pad_zeros n buf =
     (if of_nat (length buf) < n \<and> length buf < PRINTF_NTOA_BUFFER_SIZE
      then pad_zeros n (buf @ [chr CHR ''0'']) else buf)"
  by pat_completeness auto
termination pad_zeros
  by (relation "measure (\<lambda>(n, buf). PRINTF_NTOA_BUFFER_SIZE - length buf)") auto

text \<open>
  \<open>_ntoa_format\<close> adds to \<open>buf\<close>, in reverse, leading zeros (the width may change), the prefix of
  the base and the sign, then prints.
\<close>

definition ntoa_pad :: "u8 list \<Rightarrow> bool \<Rightarrow> u32 \<Rightarrow> u32 \<Rightarrow> u32 \<Rightarrow> u8 list \<times> u32" where
  "ntoa_pad buf negative prec width flags =
     (if \<not> has_flag flags FLAGS_LEFT then
        (let width = (if width \<noteq> 0 \<and> has_flag flags FLAGS_ZEROPAD
                        \<and> (negative \<or> has_flag flags (FLAGS_PLUS OR FLAGS_SPACE)) then width - 1 else width);
             buf = pad_zeros prec buf;
             buf = (if has_flag flags FLAGS_ZEROPAD then pad_zeros width buf else buf)
         in (buf, width))
      else (buf, width))"

definition ntoa_hash :: "u8 list \<Rightarrow> u32 \<Rightarrow> u32 \<Rightarrow> u32 \<Rightarrow> u32 \<Rightarrow> u8 list" where
  "ntoa_hash buf base prec width flags =
     (if has_flag flags FLAGS_HASH then
        (let buf =
           (if \<not> has_flag flags FLAGS_PRECISION \<and> buf \<noteq> []
               \<and> (of_nat (length buf) = prec \<or> of_nat (length buf) = width)
            then (let buf = butlast buf in if buf \<noteq> [] \<and> base = 16 then butlast buf else buf)
            else buf);
         buf =
           (if base = 16 \<and> \<not> has_flag flags FLAGS_UPPERCASE \<and> length buf < PRINTF_NTOA_BUFFER_SIZE
            then buf @ [chr CHR ''x'']
            else if base = 16 \<and> has_flag flags FLAGS_UPPERCASE \<and> length buf < PRINTF_NTOA_BUFFER_SIZE
            then buf @ [chr CHR ''X'']
            else push_char (base = 2) (chr CHR ''b'') buf)
         in push_char True (chr CHR ''0'') buf)
      else buf)"

definition ntoa_sign :: "u8 list \<Rightarrow> bool \<Rightarrow> u32 \<Rightarrow> u8 list" where
  "ntoa_sign buf negative flags =
     (if length buf < PRINTF_NTOA_BUFFER_SIZE then
        (if negative then buf @ [chr CHR ''-'']
         else if has_flag flags FLAGS_PLUS then buf @ [chr CHR ''+'']
         else if has_flag flags FLAGS_SPACE then buf @ [space]
         else buf)
      else buf)"

definition ntoa_format :: "'s out_fct \<Rightarrow> u32 \<Rightarrow> u8 list \<Rightarrow> bool \<Rightarrow> u32 \<Rightarrow> u32 \<Rightarrow> u32 \<Rightarrow> u32
    \<Rightarrow> u32 \<times> 's \<Rightarrow> u32 \<times> 's" where
  "ntoa_format out maxlen buf negative base prec width flags st =
     (let (buf, width) = ntoa_pad buf negative prec width flags;
          buf = ntoa_hash buf base prec width flags;
          buf = ntoa_sign buf negative flags
      in out_rev out maxlen buf width flags st)"

text \<open>The conversion loop of \<open>_ntoa_long\<close> and \<open>_ntoa_long_long\<close>, which differ in the width of a word.\<close>

definition digit_char :: "u32 \<Rightarrow> u8 \<Rightarrow> u8" where
  "digit_char flags digit =
     (if digit < 10 then chr CHR ''0'' + digit
      else (if has_flag flags FLAGS_UPPERCASE then chr CHR ''A'' else chr CHR ''a'') + digit - 10)"

function ntoa_loop :: "u32 \<Rightarrow> 'w::len word \<Rightarrow> 'w word \<Rightarrow> u8 list \<Rightarrow> u8 list" where
  "ntoa_loop flags base val buf =
     (let digit = ucast (val mod base); buf = buf @ [digit_char flags digit]; val = val div base
      in if val \<noteq> 0 \<and> length buf < PRINTF_NTOA_BUFFER_SIZE then ntoa_loop flags base val buf else buf)"
  by pat_completeness auto
termination ntoa_loop
  by (relation "measure (\<lambda>(flags, base, val, buf). PRINTF_NTOA_BUFFER_SIZE - length buf)") auto

definition ntoa_digits :: "u32 \<Rightarrow> 'w::len word \<Rightarrow> 'w word \<Rightarrow> u8 list" where
  "ntoa_digits flags base val =
     (if \<not> has_flag flags FLAGS_PRECISION \<or> val \<noteq> 0 then ntoa_loop flags base val [] else [])"

definition ntoa_long :: "'s out_fct \<Rightarrow> u32 \<Rightarrow> u32 \<Rightarrow> bool \<Rightarrow> u32 \<Rightarrow> u32 \<Rightarrow> u32 \<Rightarrow> u32
    \<Rightarrow> u32 \<times> 's \<Rightarrow> u32 \<times> 's" where
  "ntoa_long out maxlen val negative base prec width flags st =
     (let flags = (if val = 0 then flags AND NOT FLAGS_HASH else flags)
      in ntoa_format out maxlen (ntoa_digits flags base val) negative base prec width flags st)"

definition ntoa_long_long :: "'s out_fct \<Rightarrow> u32 \<Rightarrow> u64 \<Rightarrow> bool \<Rightarrow> u64 \<Rightarrow> u32 \<Rightarrow> u32 \<Rightarrow> u32
    \<Rightarrow> u32 \<times> 's \<Rightarrow> u32 \<times> 's" where
  "ntoa_long_long out maxlen val negative base prec width flags st =
     (let flags = (if val = 0 then flags AND NOT FLAGS_HASH else flags)
      in ntoa_format out maxlen (ntoa_digits flags base val) negative (ucast base) prec width flags st)"

end
