(* ===== verification/Printf_Float.thy ===== *)
theory Printf_Float
  imports Printf_Text "HOL-Library.Signed_Division"
begin

text \<open>
  The floating point conversions of \<open>src/lib/printf.c\<close>, \<open>_ftoa\<close> and \<open>_etoa\<close>. C leaves the format in
  which an expression of type \<open>double\<close> is evaluated to the implementation (the target evaluates in
  the wider format of its floating point unit), so the arithmetic is a parameter: a record of
  operations on the values \<open>'e\<close> of the evaluation format, with the rounding \<open>f_store\<close> where the code
  assigns to a variable of type \<open>double\<close>.
\<close>

section \<open>Arithmetic\<close>

record 'e fpu =
  f_load :: "u64 \<Rightarrow> 'e"
  f_bits :: "'e \<Rightarrow> u64"
  f_store :: "'e \<Rightarrow> 'e"
  f_int :: "int \<Rightarrow> 'e"
  f_trunc :: "'e \<Rightarrow> int"
  f_dec :: "int \<Rightarrow> nat \<Rightarrow> 'e"
  f_add :: "'e \<Rightarrow> 'e \<Rightarrow> 'e"
  f_sub :: "'e \<Rightarrow> 'e \<Rightarrow> 'e"
  f_mul :: "'e \<Rightarrow> 'e \<Rightarrow> 'e"
  f_div :: "'e \<Rightarrow> 'e \<Rightarrow> 'e"
  f_neg :: "'e \<Rightarrow> 'e"
  f_eq :: "'e \<Rightarrow> 'e \<Rightarrow> bool"
  f_less :: "'e \<Rightarrow> 'e \<Rightarrow> bool"
  f_le :: "'e \<Rightarrow> 'e \<Rightarrow> bool"
  f_max :: 'e

text \<open>
  \<open>f_load\<close> and \<open>f_bits\<close> go between a \<open>double\<close> and its bits, \<open>f_int\<close> and \<open>f_trunc\<close> are the
  conversions from and to integers, \<open>f_dec m k\<close> is the constant \<open>m\<close> divided by the power \<open>k\<close> of ten,
  \<open>f_max\<close> is \<open>DBL_MAX\<close>.
\<close>

definition PRINTF_FTOA_BUFFER_SIZE :: nat where
  "PRINTF_FTOA_BUFFER_SIZE = 32"

definition PRINTF_DEFAULT_FLOAT_PRECISION :: u32 where
  "PRINTF_DEFAULT_FLOAT_PRECISION = 6"

definition PRINTF_MAX_FLOAT :: "'e fpu \<Rightarrow> 'e" where
  "PRINTF_MAX_FLOAT F = f_int F 1000000000"

definition pow10 :: "'e fpu \<Rightarrow> 'e list" where
  "pow10 F = map (f_int F) [1, 10, 100, 1000, 10000, 100000, 1000000, 10000000, 100000000, 1000000000]"

abbreviation half :: "'e fpu \<Rightarrow> 'e" where
  "half F \<equiv> f_dec F 5 1"

section \<open>Fixed notation\<close>

text \<open>Precision above 9 is limited, with zeros in its place: the array and what is left of \<open>prec\<close>.\<close>

function limit_prec :: "u32 \<Rightarrow> u8 list \<Rightarrow> u8 list \<times> u32" where
  "limit_prec prec buf =
     (if length buf < PRINTF_FTOA_BUFFER_SIZE \<and> 9 < prec
      then limit_prec (prec - 1) (buf @ [chr CHR ''0'']) else (buf, prec))"
  by pat_completeness auto
termination limit_prec
  by (relation "measure (\<lambda>(prec, buf). PRINTF_FTOA_BUFFER_SIZE - length buf)") auto

text \<open>\<open>whole\<close> and \<open>frac\<close>, rounded; \<open>p10\<close> is \<open>pow10[prec]\<close>.\<close>

definition ftoa_round :: "'e fpu \<Rightarrow> 'e \<Rightarrow> 'e \<Rightarrow> int \<times> u32" where
  "ftoa_round F val p10 =
     (let whole = f_trunc F val;
          tmp = f_store F (f_mul F (f_sub F val (f_int F whole)) p10);
          frac = (word_of_int (f_trunc F tmp) :: u32);
          diff = f_store F (f_sub F tmp (f_int F (uint frac)))
      in if f_less F (half F) diff then
           (let frac = frac + 1 in
            if f_le F p10 (f_int F (uint frac)) then (whole + 1, 0) else (whole, frac))
         else if f_less F diff (half F) then (whole, frac)
         else if frac = 0 \<or> frac AND 1 \<noteq> 0 then (whole, frac + 1)
         else (whole, frac))"

definition ftoa_round_whole :: "'e fpu \<Rightarrow> 'e \<Rightarrow> int \<Rightarrow> int" where
  "ftoa_round_whole F val whole =
     (let diff = f_store F (f_sub F val (f_int F whole))
      in if (\<not> f_less F diff (half F) \<or> f_less F (half F) diff) \<and> whole AND 1 \<noteq> 0 then whole + 1 else whole)"

text \<open>The digits of the fraction with the counter \<open>count\<close>, the zeros that are missing, the point.\<close>

function frac_digits :: "u32 \<Rightarrow> u32 \<Rightarrow> u8 list \<Rightarrow> u8 list \<times> u32" where
  "frac_digits frac count buf =
     (if length buf < PRINTF_FTOA_BUFFER_SIZE then
        (let count = count - 1; buf = buf @ [48 + ucast (frac mod 10)]; frac = frac div 10
         in if frac = 0 then (buf, count) else frac_digits frac count buf)
      else (buf, count))"
  by pat_completeness auto
termination frac_digits
  by (relation "measure (\<lambda>(frac, count, buf). PRINTF_FTOA_BUFFER_SIZE - length buf)") auto

function frac_zeros :: "u32 \<Rightarrow> u8 list \<Rightarrow> u8 list" where
  "frac_zeros count buf =
     (if length buf < PRINTF_FTOA_BUFFER_SIZE \<and> count > 0
      then frac_zeros (count - 1) (buf @ [chr CHR ''0'']) else buf)"
  by pat_completeness auto
termination frac_zeros
  by (relation "measure (\<lambda>(count, buf). PRINTF_FTOA_BUFFER_SIZE - length buf)") auto

definition ftoa_fraction :: "u32 \<Rightarrow> u32 \<Rightarrow> u8 list \<Rightarrow> u8 list" where
  "ftoa_fraction frac prec buf =
     (let (buf, count) = frac_digits frac prec buf;
          buf = frac_zeros count buf
      in if length buf < PRINTF_FTOA_BUFFER_SIZE then buf @ [chr CHR ''.''] else buf)"

function whole_digits :: "int \<Rightarrow> u8 list \<Rightarrow> u8 list" where
  "whole_digits whole buf =
     (if length buf < PRINTF_FTOA_BUFFER_SIZE then
        (let buf = buf @ [word_of_int (48 + whole smod 10)]; whole = whole sdiv 10
         in if whole = 0 then buf else whole_digits whole buf)
      else buf)"
  by pat_completeness auto
termination whole_digits
  by (relation "measure (\<lambda>(whole, buf). PRINTF_FTOA_BUFFER_SIZE - length buf)") auto

declare limit_prec.simps [simp del] frac_digits.simps [simp del] frac_zeros.simps [simp del]
  whole_digits.simps [simp del]

definition ftoa_pad :: "u8 list \<Rightarrow> bool \<Rightarrow> u32 \<Rightarrow> u32 \<Rightarrow> u8 list \<times> u32" where
  "ftoa_pad buf negative width flags =
     (if \<not> has_flag flags FLAGS_LEFT \<and> has_flag flags FLAGS_ZEROPAD then
        (let width = (if width \<noteq> 0 \<and> (negative \<or> has_flag flags (FLAGS_PLUS OR FLAGS_SPACE))
                      then width - 1 else width)
         in (pad_zeros width buf, width))
      else (buf, width))"

text \<open>The conversion array, reversed as in the code, for a value that is not negative.\<close>

definition ftoa_digits :: "'e fpu \<Rightarrow> 'e \<Rightarrow> u32 \<Rightarrow> u8 list \<Rightarrow> u8 list" where
  "ftoa_digits F val prec buf =
     (let (whole, frac) = ftoa_round F val (pow10 F ! unat prec)
      in if prec = 0 then whole_digits (ftoa_round_whole F val whole) buf
         else whole_digits whole (ftoa_fraction frac prec buf))"

text \<open>
  \<open>_ftoa\<close> from the sign test on. The padding and the sign are those of \<open>_ntoa_format\<close>, the two
  arrays have the same size. An index outside \<open>pow10\<close> is a fault.
\<close>

definition ftoa_fixed :: "'e fpu \<Rightarrow> 's out_fct \<Rightarrow> u32 \<Rightarrow> 'e \<Rightarrow> u32 \<Rightarrow> u32 \<Rightarrow> u32 \<Rightarrow> u32 \<times> 's \<Rightarrow> (u32 \<times> 's) res" where
  "ftoa_fixed F out maxlen val prec width flags st =
     (let negative = f_less F val (f_int F 0);
          val = (if negative then f_store F (f_sub F (f_int F 0) val) else val);
          prec = (if \<not> has_flag flags FLAGS_PRECISION then PRINTF_DEFAULT_FLOAT_PRECISION else prec);
          (buf, prec) = limit_prec prec []
      in if length (pow10 F) \<le> unat prec then Inl OutOfBounds
         else
           (let buf = ftoa_digits F val prec buf;
                (buf, width) = ftoa_pad buf negative width flags;
                buf = ntoa_sign buf negative flags
            in Inr (out_rev out maxlen buf width flags st)))"

section \<open>Exponential notation\<close>

text \<open>The decimal exponent of a positive value and the power of ten it is divided by.\<close>

definition etoa_exponent :: "'e fpu \<Rightarrow> 'e \<Rightarrow> int \<times> 'e" where
  "etoa_exponent F val =
     (let U = f_bits F val;
          exp2 = uint (drop_bit 52 U AND 0x07FF) - 1023;
          U = (U AND (push_bit 52 1 - 1)) OR push_bit 52 1023;
          cF = f_load F U;
          expval = f_trunc F (f_add F (f_add F (f_dec F 1760912590558 13)
              (f_mul F (f_int F exp2) (f_dec F 301029995663981 15)))
              (f_mul F (f_sub F cF (f_dec F 15 1)) (f_dec F 289529654602168 15)));
          exp2 = f_trunc F (f_add F (f_mul F (f_int F expval) (f_dec F 3321928094887362 15)) (half F));
          z = f_store F (f_sub F (f_mul F (f_int F expval) (f_dec F 2302585092994046 15))
              (f_mul F (f_int F exp2) (f_dec F 6931471805599453 16)));
          z2 = f_store F (f_mul F z z);
          U = push_bit 52 (word_of_int (exp2 + 1023));
          cF = f_store F (f_mul F (f_load F U) (f_add F (f_int F 1) (f_div F (f_mul F (f_int F 2) z)
              (f_add F (f_sub F (f_int F 2) z) (f_div F z2 (f_add F (f_int F 6)
                (f_div F z2 (f_add F (f_int F 10) (f_div F z2 (f_int F 14))))))))))
      in if f_less F val cF then (expval - 1, f_store F (f_div F cF (f_int F 10))) else (expval, cF))"

text \<open>The adaptation of \<open>%g\<close>: precision, flags, width of the exponent and exponent.\<close>

definition etoa_adapt :: "'e fpu \<Rightarrow> 'e \<Rightarrow> u32 \<Rightarrow> u32 \<Rightarrow> u32 \<Rightarrow> int \<Rightarrow> u32 \<times> u32 \<times> u32 \<times> int" where
  "etoa_adapt F val prec flags minwidth expval =
     (if has_flag flags FLAGS_ADAPT_EXP then
        (if f_le F (f_dec F 1 4) val \<and> f_less F val (f_int F 1000000) then
           (if sint prec > expval then word_of_int (sint prec - expval - 1) else 0,
            flags OR FLAGS_PRECISION, 0, 0)
         else (if prec > 0 \<and> has_flag flags FLAGS_PRECISION then prec - 1 else prec, flags, minwidth, expval))
      else (prec, flags, minwidth, expval))"

definition etoa_width :: "u32 \<Rightarrow> u32 \<Rightarrow> u32 \<Rightarrow> u32" where
  "etoa_width width minwidth flags =
     (let fwidth = (if width > minwidth then width - minwidth else 0)
      in if has_flag flags FLAGS_LEFT \<and> minwidth \<noteq> 0 then 0 else fwidth)"

text \<open>The exponent part; \<open>start_idx\<close> is the index at which the number starts.\<close>

definition etoa_suffix :: "'s out_fct \<Rightarrow> u32 \<Rightarrow> int \<Rightarrow> u32 \<Rightarrow> u32 \<Rightarrow> u32 \<Rightarrow> u32 \<Rightarrow> u32 \<times> 's \<Rightarrow> u32 \<times> 's" where
  "etoa_suffix out maxlen expval minwidth start_idx width flags st =
     (if minwidth \<noteq> 0 then
        (let st = put_one out maxlen (if has_flag flags FLAGS_UPPERCASE then chr CHR ''E'' else chr CHR ''e'') st;
             st = ntoa_long out maxlen (word_of_int \<bar>expval\<bar>) (expval < 0) 10 0 (minwidth - 1)
                    (FLAGS_ZEROPAD OR FLAGS_PLUS) st
         in if has_flag flags FLAGS_LEFT then left_loop out maxlen start_idx width st else st)
      else st)"

section \<open>The two routines\<close>

definition f_special :: "'e fpu \<Rightarrow> 'e \<Rightarrow> bool" where
  "f_special F val \<longleftrightarrow> \<not> f_eq F val val \<or> f_less F (f_max F) val \<or> f_less F val (f_neg F (f_max F))"

text \<open>
  \<open>_ftoa\<close> calls \<open>_etoa\<close> for large values and \<open>_etoa\<close> calls \<open>_ftoa\<close> for the mantissa; \<open>n\<close> bounds the
  depth of the calls.
\<close>

fun ftoa :: "'e fpu \<Rightarrow> nat \<Rightarrow> 's out_fct \<Rightarrow> u32 \<Rightarrow> 'e \<Rightarrow> u32 \<Rightarrow> u32 \<Rightarrow> u32 \<Rightarrow> u32 \<times> 's \<Rightarrow> (u32 \<times> 's) res"
  and etoa :: "'e fpu \<Rightarrow> nat \<Rightarrow> 's out_fct \<Rightarrow> u32 \<Rightarrow> 'e \<Rightarrow> u32 \<Rightarrow> u32 \<Rightarrow> u32 \<Rightarrow> u32 \<times> 's \<Rightarrow> (u32 \<times> 's) res" where
  "ftoa F 0 out maxlen val prec width flags st = Inl Diverges"
| "ftoa F (Suc n) out maxlen val prec width flags st =
     (if \<not> f_eq F val val then Inr (out_rev out maxlen (chrs ''nan'') width flags st)
      else if f_less F val (f_neg F (f_max F)) then Inr (out_rev out maxlen (chrs ''fni-'') width flags st)
      else if f_less F (f_max F) val then
        Inr (out_rev out maxlen (if has_flag flags FLAGS_PLUS then chrs ''fni+'' else chrs ''fni'') width flags st)
      else if f_less F (PRINTF_MAX_FLOAT F) val \<or> f_less F val (f_neg F (PRINTF_MAX_FLOAT F))
      then etoa F n out maxlen val prec width flags st
      else ftoa_fixed F out maxlen val prec width flags st)"
| "etoa F 0 out maxlen val prec width flags st = Inl Diverges"
| "etoa F (Suc n) out maxlen val prec width flags st =
     (if f_special F val then ftoa F n out maxlen val prec width flags st
      else
        (let negative = f_less F val (f_int F 0);
             val = (if negative then f_store F (f_neg F val) else val);
             prec = (if \<not> has_flag flags FLAGS_PRECISION then PRINTF_DEFAULT_FLOAT_PRECISION else prec);
             (expval, cF) = etoa_exponent F val;
             minwidth = (if expval < 100 \<and> expval > - 100 then 4 else 5);
             (prec, flags, minwidth, expval) = etoa_adapt F val prec flags minwidth expval;
             fwidth = etoa_width width minwidth flags;
             val = (if expval \<noteq> 0 then f_store F (f_div F val cF) else val)
         in bind_res (ftoa F n out maxlen (if negative then f_neg F val else val) prec fwidth
                        (flags AND NOT FLAGS_ADAPT_EXP) st)
              (\<lambda>st'. Inr (etoa_suffix out maxlen expval minwidth (fst st) width flags st'))))"

end
