(* ===== verification/Printf_Code.thy ===== *)
theory Printf_Code
  imports Printf_Float
begin

text \<open>
  The upper half of \<open>src/lib/printf.c\<close>: the interpretation of a format and of its arguments by
  \<open>_vsnprintf\<close>, and the entry points. An argument of the variable argument list is a word, a double
  word (the bits of a \<open>double\<close> too) or a string.
\<close>

datatype va = VWord u32 | VLong u64 | VStr "u8 list"

section \<open>The parts of a conversion specification\<close>

text \<open>\<open>va_arg\<close>: reading an argument that is not there, or of another size, is a fault.\<close>

fun va_word :: "va list \<Rightarrow> (u32 \<times> va list) res" where
  "va_word (VWord w # vs) = Inr (w, vs)"
| "va_word _ = Inl OutOfBounds"

fun va_long :: "va list \<Rightarrow> (u64 \<times> va list) res" where
  "va_long (VLong w # vs) = Inr (w, vs)"
| "va_long _ = Inl OutOfBounds"

fun va_str :: "va list \<Rightarrow> (u8 list \<times> va list) res" where
  "va_str (VStr p # vs) = Inr (p, vs)"
| "va_str _ = Inl OutOfBounds"

fun parse_flags :: "u8 list \<Rightarrow> u32 \<Rightarrow> u32 \<times> u8 list" where
  "parse_flags [] flags = (flags, [])"
| "parse_flags (c # fs) flags =
     (if c = chr CHR ''0'' then parse_flags fs (flags OR FLAGS_ZEROPAD)
      else if c = chr CHR ''-'' then parse_flags fs (flags OR FLAGS_LEFT)
      else if c = chr CHR ''+'' then parse_flags fs (flags OR FLAGS_PLUS)
      else if c = space then parse_flags fs (flags OR FLAGS_SPACE)
      else if c = chr CHR ''#'' then parse_flags fs (flags OR FLAGS_HASH)
      else (flags, c # fs))"

text \<open>The results are width, flags, the rest of the format and the rest of the arguments.\<close>

definition parse_width :: "u32 \<Rightarrow> u8 list \<Rightarrow> va list \<Rightarrow> (u32 \<times> u32 \<times> u8 list \<times> va list) res" where
  "parse_width flags fs vs =
     (if is_digit (peek fs) then (let (width, fs) = atoi fs in Inr (width, flags, fs, vs))
      else if peek fs = chr CHR ''*'' then
        bind_res (va_word vs) (\<lambda>(w, vs).
          if sint w < 0 then Inr (- w, flags OR FLAGS_LEFT, tl fs, vs) else Inr (w, flags, tl fs, vs))
      else Inr (0, flags, fs, vs))"

definition parse_precision :: "u32 \<Rightarrow> u8 list \<Rightarrow> va list \<Rightarrow> (u32 \<times> u32 \<times> u8 list \<times> va list) res" where
  "parse_precision flags fs vs =
     (if peek fs = chr CHR ''.'' then
        (let flags = flags OR FLAGS_PRECISION; fs = tl fs in
         if is_digit (peek fs) then (let (precision, fs) = atoi fs in Inr (precision, flags, fs, vs))
         else if peek fs = chr CHR ''*'' then
           bind_res (va_word vs) (\<lambda>(prec, vs). Inr (if sint prec > 0 then prec else 0, flags, tl fs, vs))
         else Inr (0, flags, fs, vs))
      else Inr (0, flags, fs, vs))"

text \<open>
  On the target \<open>ptrdiff_t\<close> and \<open>size_t\<close> have the size of \<open>long\<close>, \<open>intmax_t\<close> does not.
\<close>

definition parse_length :: "u32 \<Rightarrow> u8 list \<Rightarrow> u32 \<times> u8 list" where
  "parse_length flags fs =
     (if peek fs = chr CHR ''l'' then
        (let flags = flags OR FLAGS_LONG; fs = tl fs in
         if peek fs = chr CHR ''l'' then (flags OR FLAGS_LONG_LONG, tl fs) else (flags, fs))
      else if peek fs = chr CHR ''h'' then
        (let flags = flags OR FLAGS_SHORT; fs = tl fs in
         if peek fs = chr CHR ''h'' then (flags OR FLAGS_CHAR, tl fs) else (flags, fs))
      else if peek fs = chr CHR ''t'' then (flags OR FLAGS_LONG, tl fs)
      else if peek fs = chr CHR ''j'' then (flags OR FLAGS_LONG_LONG, tl fs)
      else if peek fs = chr CHR ''z'' then (flags OR FLAGS_LONG, tl fs)
      else (flags, fs))"

section \<open>The conversions\<close>

text \<open>What the conversions return: the rest of the arguments, and index and sink.\<close>

type_synonym 's conv = "(va list \<times> u32 \<times> 's) res"

definition magnitude :: "'w::len word \<Rightarrow> 'w word" where
  "magnitude val = (if sint val > 0 then val else 0 - val)"

definition conv_signed :: "'s out_fct \<Rightarrow> u32 \<Rightarrow> u32 \<Rightarrow> u32 \<Rightarrow> u32 \<Rightarrow> u32 \<Rightarrow> va list \<Rightarrow> u32 \<times> 's \<Rightarrow> 's conv" where
  "conv_signed out maxlen base flags width precision vs st =
     (if has_flag flags FLAGS_LONG_LONG then
        bind_res (va_long vs) (\<lambda>(val, vs).
          Inr (vs, ntoa_long_long out maxlen (magnitude val) (sint val < 0) (ucast base) precision width flags st))
      else if has_flag flags FLAGS_LONG then
        bind_res (va_word vs) (\<lambda>(val, vs).
          Inr (vs, ntoa_long out maxlen (magnitude val) (sint val < 0) base precision width flags st))
      else
        bind_res (va_word vs) (\<lambda>(val, vs).
          let val = (if has_flag flags FLAGS_CHAR then scast (ucast val :: u8)
                     else if has_flag flags FLAGS_SHORT then scast (ucast val :: u16) else val)
          in Inr (vs, ntoa_long out maxlen (magnitude val) (sint val < 0) base precision width flags st)))"

definition conv_unsigned :: "'s out_fct \<Rightarrow> u32 \<Rightarrow> u32 \<Rightarrow> u32 \<Rightarrow> u32 \<Rightarrow> u32 \<Rightarrow> va list \<Rightarrow> u32 \<times> 's \<Rightarrow> 's conv" where
  "conv_unsigned out maxlen base flags width precision vs st =
     (if has_flag flags FLAGS_LONG_LONG then
        bind_res (va_long vs) (\<lambda>(val, vs).
          Inr (vs, ntoa_long_long out maxlen val False (ucast base) precision width flags st))
      else if has_flag flags FLAGS_LONG then
        bind_res (va_word vs) (\<lambda>(val, vs).
          Inr (vs, ntoa_long out maxlen val False base precision width flags st))
      else
        bind_res (va_word vs) (\<lambda>(val, vs).
          let val = (if has_flag flags FLAGS_CHAR then ucast (ucast val :: u8)
                     else if has_flag flags FLAGS_SHORT then ucast (ucast val :: u16) else val)
          in Inr (vs, ntoa_long out maxlen val False base precision width flags st)))"

text \<open>Base and flags of an integer conversion with specifier \<open>c\<close>.\<close>

definition int_base :: "u8 \<Rightarrow> u32" where
  "int_base c =
     (if c = chr CHR ''x'' \<or> c = chr CHR ''X'' then 16
      else if c = chr CHR ''o'' then 8
      else if c = chr CHR ''b'' then 2
      else 10)"

definition int_flags :: "u8 \<Rightarrow> u32 \<Rightarrow> u32" where
  "int_flags c flags =
     (let flags = (if int_base c = 10 then flags AND NOT FLAGS_HASH else flags);
          flags = (if c = chr CHR ''X'' then flags OR FLAGS_UPPERCASE else flags);
          flags = (if c \<noteq> chr CHR ''i'' \<and> c \<noteq> chr CHR ''d'' then flags AND NOT (FLAGS_PLUS OR FLAGS_SPACE) else flags)
      in if has_flag flags FLAGS_PRECISION then flags AND NOT FLAGS_ZEROPAD else flags)"

definition conv_int :: "'s out_fct \<Rightarrow> u32 \<Rightarrow> u8 \<Rightarrow> u32 \<Rightarrow> u32 \<Rightarrow> u32 \<Rightarrow> va list \<Rightarrow> u32 \<times> 's \<Rightarrow> 's conv" where
  "conv_int out maxlen c flags width precision vs st =
     (if c = chr CHR ''i'' \<or> c = chr CHR ''d''
      then conv_signed out maxlen (int_base c) (int_flags c flags) width precision vs st
      else conv_unsigned out maxlen (int_base c) (int_flags c flags) width precision vs st)"

definition conv_char :: "'s out_fct \<Rightarrow> u32 \<Rightarrow> u32 \<Rightarrow> u32 \<Rightarrow> va list \<Rightarrow> u32 \<times> 's \<Rightarrow> 's conv" where
  "conv_char out maxlen flags width vs st =
     (let st = (if \<not> has_flag flags FLAGS_LEFT then pad_loop out maxlen 1 width st else st) in
      bind_res (va_word vs) (\<lambda>(w, vs).
        let st = put_one out maxlen (ucast w) st
        in Inr (vs, if has_flag flags FLAGS_LEFT then pad_loop out maxlen 1 width st else st)))"

fun str_loop :: "'s out_fct \<Rightarrow> u32 \<Rightarrow> u8 list \<Rightarrow> bool \<Rightarrow> u32 \<Rightarrow> u32 \<times> 's \<Rightarrow> u32 \<times> 's" where
  "str_loop out maxlen [] limited precision st = st"
| "str_loop out maxlen (c # cs) limited precision st =
     (if c \<noteq> 0 \<and> (\<not> limited \<or> precision \<noteq> 0)
      then str_loop out maxlen cs limited (if limited then precision - 1 else precision) (put_one out maxlen c st)
      else st)"

definition conv_str :: "'s out_fct \<Rightarrow> u32 \<Rightarrow> u32 \<Rightarrow> u32 \<Rightarrow> u32 \<Rightarrow> va list \<Rightarrow> u32 \<times> 's \<Rightarrow> 's conv" where
  "conv_str out maxlen flags width precision vs st =
     bind_res (va_str vs) (\<lambda>(p, vs).
       let l = strnlen_s p (if precision \<noteq> 0 then precision else - 1);
           l = (if has_flag flags FLAGS_PRECISION then (if l < precision then l else precision) else l);
           st = (if \<not> has_flag flags FLAGS_LEFT then pad_loop out maxlen l width st else st);
           st = str_loop out maxlen p (has_flag flags FLAGS_PRECISION) precision st
       in Inr (vs, if has_flag flags FLAGS_LEFT then pad_loop out maxlen l width st else st))"

definition conv_ptr :: "'s out_fct \<Rightarrow> u32 \<Rightarrow> u32 \<Rightarrow> u32 \<Rightarrow> va list \<Rightarrow> u32 \<times> 's \<Rightarrow> 's conv" where
  "conv_ptr out maxlen flags precision vs st =
     (let width = 4 * 2; flags = flags OR (FLAGS_ZEROPAD OR FLAGS_UPPERCASE) in
      bind_res (va_word vs) (\<lambda>(w, vs).
        Inr (vs, ntoa_long out maxlen w False 16 precision width flags st)))"

text \<open>
  \<open>va_arg(va, double)\<close> takes the bits of a \<open>double\<close>. Four calls deep is enough for \<open>_ftoa\<close> and \<open>_etoa\<close>
  where the division by the power of ten gives a value that is not large.
\<close>

definition FLOAT_DEPTH :: nat where
  "FLOAT_DEPTH = 4"

definition conv_float :: "'e fpu \<Rightarrow> 's out_fct \<Rightarrow> u32 \<Rightarrow> u8 \<Rightarrow> u32 \<Rightarrow> u32 \<Rightarrow> u32 \<Rightarrow> va list \<Rightarrow> u32 \<times> 's \<Rightarrow> 's conv" where
  "conv_float fc out maxlen c flags width precision vs st =
     (if c = chr CHR ''f'' \<or> c = chr CHR ''F'' then
        (let flags = (if c = chr CHR ''F'' then flags OR FLAGS_UPPERCASE else flags) in
         bind_res (va_long vs) (\<lambda>(v, vs).
         bind_res (ftoa fc FLOAT_DEPTH out maxlen (f_load fc v) precision width flags st) (\<lambda>st. Inr (vs, st))))
      else
        (let flags = (if c = chr CHR ''g'' \<or> c = chr CHR ''G'' then flags OR FLAGS_ADAPT_EXP else flags);
             flags = (if c = chr CHR ''E'' \<or> c = chr CHR ''G'' then flags OR FLAGS_UPPERCASE else flags) in
         bind_res (va_long vs) (\<lambda>(v, vs).
         bind_res (etoa fc FLOAT_DEPTH out maxlen (f_load fc v) precision width flags st) (\<lambda>st. Inr (vs, st)))))"

section \<open>The format\<close>

text \<open>
  The switch over the specifier \<open>*format\<close>. In every case the format pointer is advanced; past the
  terminator it points outside the string.
\<close>

definition conv_specifier :: "'e fpu \<Rightarrow> 's out_fct \<Rightarrow> u32 \<Rightarrow> u8 \<Rightarrow> u32 \<Rightarrow> u32 \<Rightarrow> u32 \<Rightarrow> va list
    \<Rightarrow> u32 \<times> 's \<Rightarrow> 's conv" where
  "conv_specifier fc out maxlen c flags width precision vs st =
     (if c \<in> set (chrs ''diuxXob'') then conv_int out maxlen c flags width precision vs st
      else if c \<in> set (chrs ''fFeEgG'') then conv_float fc out maxlen c flags width precision vs st
      else if c = chr CHR ''c'' then conv_char out maxlen flags width vs st
      else if c = chr CHR ''s'' then conv_str out maxlen flags width precision vs st
      else if c = chr CHR ''p'' then conv_ptr out maxlen flags precision vs st
      else if c = chr CHR ''%'' then Inr (vs, put_one out maxlen (chr CHR ''%'') st)
      else Inr (vs, put_one out maxlen c st))"

text \<open>One round of the loop over the format, which is not at its end.\<close>

definition format_step :: "'e fpu \<Rightarrow> 's out_fct \<Rightarrow> u32 \<Rightarrow> u8 list \<Rightarrow> va list \<Rightarrow> u32 \<times> 's
    \<Rightarrow> (u8 list \<times> va list \<times> u32 \<times> 's) res" where
  "format_step fc out maxlen fs vs st =
     (if peek fs \<noteq> chr CHR ''%'' then Inr (tl fs, vs, put_one out maxlen (peek fs) st)
      else
        (let (flags, fs) = parse_flags (tl fs) 0 in
         bind_res (parse_width flags fs vs) (\<lambda>(width, flags, fs, vs).
         bind_res (parse_precision flags fs vs) (\<lambda>(precision, flags, fs, vs).
           let (flags, fs) = parse_length flags fs in
           bind_res (conv_specifier fc out maxlen (peek fs) flags width precision vs st) (\<lambda>(vs, st).
             if fs = [] then Inl OutOfBounds else Inr (tl fs, vs, st))))))"

lemma atoi_loop_length: "length (snd (atoi_loop fs i)) \<le> length fs"
  by (induction fs arbitrary: i) (auto intro: le_SucI)

lemma parse_flags_length: "length (snd (parse_flags fs flags)) \<le> length fs"
  by (induction fs arbitrary: flags) (auto intro: le_SucI)

lemma tl_length: "length (tl fs) \<le> length fs"
  by simp

lemma parse_length_length: "length (snd (parse_length flags fs)) \<le> length fs"
  by (auto simp: parse_length_def Let_def)

lemma parse_width_length:
  "parse_width flags fs vs = Inr (w, flags', fs', vs') \<Longrightarrow> length fs' \<le> length fs"
  using atoi_loop_length [of fs 0]
  by (auto simp: parse_width_def atoi_def bind_res_Inr_iff split: if_splits prod.splits)

lemma parse_precision_length:
  "parse_precision flags fs vs = Inr (w, flags', fs', vs') \<Longrightarrow> length fs' \<le> length fs"
  using atoi_loop_length [of "tl fs" 0] tl_length [of fs]
  by (auto simp: parse_precision_def atoi_def bind_res_Inr_iff Let_def split: if_splits prod.splits)

lemma format_step_shorter:
  assumes "format_step fc out maxlen fs vs st = Inr (fs', vs', st')" "peek fs \<noteq> 0"
  shows "length fs' < length fs"
proof -
  obtain c cs where fs: "fs = c # cs" using assms(2) by (cases fs) (auto simp: peek_def)
  show ?thesis
  proof (cases "c = chr CHR ''%''")
    case False
    with assms(1) fs show ?thesis by (simp add: format_step_def peek_def)
  next
    case True
    obtain fl f1 where 1: "parse_flags cs 0 = (fl, f1)" by fastforce
    with assms(1) fs True obtain w fl2 f2 v2 p fl3 f3 v3 where
      2: "parse_width fl f1 vs = Inr (w, fl2, f2, v2)" and 3: "parse_precision fl2 f2 v2 = Inr (p, fl3, f3, v3)"
      and r: "fs' = tl (snd (parse_length fl3 f3))" "snd (parse_length fl3 f3) \<noteq> []"
      by (auto simp: format_step_def peek_def bind_res_Inr_iff Let_def case_prod_beta split: if_splits)
    have "length fs' < length (snd (parse_length fl3 f3))" using r by (cases "snd (parse_length fl3 f3)") auto
    also have "\<dots> \<le> length f3" by (rule parse_length_length)
    also have "\<dots> \<le> length f2" by (rule parse_precision_length [OF 3])
    also have "\<dots> \<le> length f1" by (rule parse_width_length [OF 2])
    also have "\<dots> \<le> length cs" using parse_flags_length [of cs 0] 1 by simp
    finally show ?thesis using fs by simp
  qed
qed

function format_loop :: "'e fpu \<Rightarrow> 's out_fct \<Rightarrow> u32 \<Rightarrow> u8 list \<Rightarrow> va list \<Rightarrow> u32 \<times> 's \<Rightarrow> (u32 \<times> 's) res" where
  "format_loop fc out maxlen fs vs st =
     (if peek fs = 0 then Inr st
      else case format_step fc out maxlen fs vs st of
          Inl e \<Rightarrow> Inl e
        | Inr (fs', vs', st') \<Rightarrow> format_loop fc out maxlen fs' vs' st')"
  by pat_completeness auto
termination format_loop
  by (relation "measure (\<lambda>(fc, out, maxlen, fs, vs, st). length fs)") (auto dest: format_step_shorter)

declare format_loop.simps [simp del] pad_loop.simps [simp del] left_loop.simps [simp del]
  pad_zeros.simps [simp del] ntoa_loop.simps [simp del]

text \<open>The value returned is \<open>(int)idx\<close>. With a null \<open>buffer\<close> the output function is \<open>out_null\<close>.\<close>

definition vsnprintf_internal :: "'e fpu \<Rightarrow> 's out_fct \<Rightarrow> u32 \<Rightarrow> u32 \<Rightarrow> u8 list \<Rightarrow> va list \<Rightarrow> 's
    \<Rightarrow> (u32 \<times> 's) res" where
  "vsnprintf_internal fc out buffer maxlen format vs s =
     (let out = (if buffer = 0 then out_null else out) in
      bind_res (format_loop fc out maxlen format vs (0, s)) (\<lambda>(idx, s).
        Inr (idx, out 0 (if idx < maxlen then idx else maxlen - 1) maxlen s)))"

text \<open>The one-byte array \<open>buffer\<close> of \<open>printf_\<close> has an address, which is not null.\<close>

definition printf :: "'e fpu \<Rightarrow> u8 list \<Rightarrow> va list \<Rightarrow> 'a ports_scheme \<Rightarrow> (u32 \<times> 'a ports_scheme) res" where
  "printf fc format vs s = vsnprintf_internal fc out_char 1 (- 1) format vs s"

definition vprintf :: "'e fpu \<Rightarrow> u8 list \<Rightarrow> va list \<Rightarrow> 'a ports_scheme \<Rightarrow> (u32 \<times> 'a ports_scheme) res" where
  "vprintf fc format vs s = vsnprintf_internal fc out_char 1 (- 1) format vs s"

definition sprintf :: "'e fpu \<Rightarrow> u32 \<Rightarrow> u8 list \<Rightarrow> va list \<Rightarrow> mem \<Rightarrow> (u32 \<times> mem) res" where
  "sprintf fc buffer format vs m = vsnprintf_internal fc (out_buffer buffer) buffer (- 1) format vs m"

definition snprintf :: "'e fpu \<Rightarrow> u32 \<Rightarrow> u32 \<Rightarrow> u8 list \<Rightarrow> va list \<Rightarrow> mem \<Rightarrow> (u32 \<times> mem) res" where
  "snprintf fc buffer count format vs m = vsnprintf_internal fc (out_buffer buffer) buffer count format vs m"

definition vsnprintf :: "'e fpu \<Rightarrow> u32 \<Rightarrow> u32 \<Rightarrow> u8 list \<Rightarrow> va list \<Rightarrow> mem \<Rightarrow> (u32 \<times> mem) res" where
  "vsnprintf fc buffer count format vs m = vsnprintf_internal fc (out_buffer buffer) buffer count format vs m"

definition fctprintf :: "'e fpu \<Rightarrow> (u8 \<Rightarrow> 's \<Rightarrow> 's) \<Rightarrow> u8 list \<Rightarrow> va list \<Rightarrow> 's \<Rightarrow> (u32 \<times> 's) res" where
  "fctprintf fc fct format vs s = vsnprintf_internal fc (out_fct fct) 1 (- 1) format vs s"

end
