(* ===== verification/Printf_Render.thy ===== *)
theory Printf_Render
  imports Printf_Code
begin

text \<open>
  What \<open>printf\<close> prints, apart from where it prints it: \<open>render\<close> gives the characters of a format
  and its arguments, and every printing routine of \<open>Printf_Code\<close>, with any output function, does
  nothing but pass those characters to it in order. The conversion buffer never overflows.
\<close>

section \<open>Emitting\<close>

definition emit :: "'s out_fct \<Rightarrow> u32 \<Rightarrow> u8 list \<Rightarrow> u32 \<times> 's \<Rightarrow> u32 \<times> 's" where
  "emit out maxlen cs st = fold (put_one out maxlen) cs st"

lemma emit_simps [simp]:
  "emit out maxlen [] st = st"
  "emit out maxlen (c # cs) st = emit out maxlen cs (put_one out maxlen c st)"
  "emit out maxlen (cs @ ds) st = emit out maxlen ds (emit out maxlen cs st)"
  by (simp_all add: emit_def)

lemma emit_index: "fst (emit out maxlen cs st) = fst st + of_nat (length cs)"
  by (induction cs arbitrary: st) (simp_all add: put_one_def)

lemma pad_loop_emit:
  "pad_loop out maxlen i width st = emit out maxlen (replicate (unat width - unat i) (space)) st"
proof (induction out maxlen i width st rule: pad_loop.induct)
  case (1 out maxlen i width idx s)
  show ?case
  proof (cases "i < width")
    case True
    then have "unat width - unat i = Suc (unat width - unat (i + 1))"
      using pad_step(1) [OF True] by (simp add: word_less_nat_alt)
    with 1 True show ?thesis by (simp add: pad_loop.simps [of _ _ i] put_one_def)
  next
    case False
    then show ?thesis by (simp add: pad_loop.simps [of _ _ i] word_less_nat_alt)
  qed
qed

lemma left_loop_emit:
  "left_loop out maxlen start width st =
     emit out maxlen (replicate (unat width - unat (fst st - start)) (space)) st"
proof (induction out maxlen start width st rule: left_loop.induct)
  case (1 out maxlen start width idx s)
  show ?case
  proof (cases "idx - start < width")
    case True
    have "unat (idx + 1 - start) = unat (idx - start) + 1"
      using pad_step(1) [OF True] by (simp add: algebra_simps)
    then have "unat width - unat (idx - start) = Suc (unat width - unat (idx + 1 - start))"
      using True by (simp add: word_less_nat_alt)
    with 1 True show ?thesis by (simp add: left_loop.simps [of _ _ _ _ idx] put_one_def)
  next
    case False
    then show ?thesis by (simp add: left_loop.simps [of _ _ _ _ idx] word_less_nat_alt)
  qed
qed

lemma rev_loop_emit:
  "len \<le> length buf \<Longrightarrow> rev_loop out maxlen buf len st = emit out maxlen (rev (take len buf)) st"
proof (induction len arbitrary: st)
  case 0
  then show ?case by (cases st) simp
next
  case (Suc len)
  then show ?case by (cases st) (simp add: take_Suc_conv_app_nth put_one_def)
qed

definition rev_chars :: "u8 list \<Rightarrow> u32 \<Rightarrow> u32 \<Rightarrow> u8 list" where
  "rev_chars buf width flags =
     (let pad = replicate (unat width - length buf) (space) in
      (if \<not> has_flag flags FLAGS_LEFT \<and> \<not> has_flag flags FLAGS_ZEROPAD then pad else []) @ rev buf
      @ (if has_flag flags FLAGS_LEFT then pad else []))"

lemma out_rev_emit:
  assumes "length buf \<le> 32"
  shows "out_rev out maxlen buf width flags st = emit out maxlen (rev_chars buf width flags) st"
proof -
  have "unat (of_nat (length buf) :: u32) = length buf" using assms by (simp add: unat_of_nat_u32)
  then show ?thesis
    by (simp add: out_rev_def rev_chars_def Let_def pad_loop_emit left_loop_emit rev_loop_emit emit_index)
qed

section \<open>The conversion buffer\<close>

lemma pad_zeros_room: "length buf \<le> 32 \<Longrightarrow> length (pad_zeros n buf) \<le> 32"
proof (induction n buf rule: pad_zeros.induct)
  case (1 n buf)
  then show ?case
    by (subst pad_zeros.simps) (simp add: PRINTF_NTOA_BUFFER_SIZE_def)
qed

lemma ntoa_loop_room: "length buf < 32 \<Longrightarrow> length (ntoa_loop flags base val buf) \<le> 32"
proof (induction flags base val buf rule: ntoa_loop.induct)
  case (1 flags base val buf)
  then show ?case
    by (subst ntoa_loop.simps) (simp add: PRINTF_NTOA_BUFFER_SIZE_def Let_def)
qed

lemma ntoa_digits_room: "length (ntoa_digits flags base val) \<le> 32"
  by (simp add: ntoa_digits_def ntoa_loop_room)

lemma push_char_room: "length buf \<le> 32 \<Longrightarrow> length (push_char g c buf) \<le> 32"
  by (simp add: push_char_def PRINTF_NTOA_BUFFER_SIZE_def)

lemma ntoa_pad_room: "length buf \<le> 32 \<Longrightarrow> length (fst (ntoa_pad buf negative prec width flags)) \<le> 32"
  by (simp add: ntoa_pad_def Let_def pad_zeros_room)

lemma ntoa_hash_room: "length buf \<le> 32 \<Longrightarrow> length (ntoa_hash buf base prec width flags) \<le> 32"
  by (auto simp: ntoa_hash_def Let_def PRINTF_NTOA_BUFFER_SIZE_def intro!: push_char_room)

lemma ntoa_sign_room: "length buf \<le> 32 \<Longrightarrow> length (ntoa_sign buf negative flags) \<le> 32"
  by (simp add: ntoa_sign_def PRINTF_NTOA_BUFFER_SIZE_def)

text \<open>The characters of an integer conversion.\<close>

definition ntoa_chars :: "u8 list \<Rightarrow> bool \<Rightarrow> u32 \<Rightarrow> u32 \<Rightarrow> u32 \<Rightarrow> u32 \<Rightarrow> u8 list" where
  "ntoa_chars buf negative base prec width flags =
     (let (buf, width) = ntoa_pad buf negative prec width flags
      in rev_chars (ntoa_sign (ntoa_hash buf base prec width flags) negative flags) width flags)"

lemma ntoa_format_emit:
  assumes "length buf \<le> 32"
  shows "ntoa_format out maxlen buf negative base prec width flags st =
     emit out maxlen (ntoa_chars buf negative base prec width flags) st"
proof -
  obtain b w where b: "ntoa_pad buf negative prec width flags = (b, w)" by fastforce
  then have "length b \<le> 32" using ntoa_pad_room [OF assms, of negative prec width flags] by simp
  then have "length (ntoa_sign (ntoa_hash b base prec w flags) negative flags) \<le> 32"
    by (intro ntoa_sign_room ntoa_hash_room)
  then show ?thesis by (simp add: ntoa_format_def ntoa_chars_def Let_def b out_rev_emit)
qed

definition clear_hash :: "'w::len word \<Rightarrow> u32 \<Rightarrow> u32" where
  "clear_hash val flags = (if val = 0 then flags AND NOT FLAGS_HASH else flags)"

lemma ntoa_long_emit:
  "ntoa_long out maxlen val negative base prec width flags st =
     emit out maxlen (ntoa_chars (ntoa_digits (clear_hash val flags) base val) negative base prec width
       (clear_hash val flags)) st"
  by (simp add: ntoa_long_def clear_hash_def Let_def ntoa_format_emit ntoa_digits_room)

lemma ntoa_long_long_emit:
  "ntoa_long_long out maxlen val negative base prec width flags st =
     emit out maxlen (ntoa_chars (ntoa_digits (clear_hash val flags) base val) negative (ucast base) prec width
       (clear_hash val flags)) st"
  by (simp add: ntoa_long_long_def clear_hash_def Let_def ntoa_format_emit ntoa_digits_room)

section \<open>Floating point\<close>

lemma limit_prec_room: "length buf \<le> 32 \<Longrightarrow> length (fst (limit_prec prec buf)) \<le> 32"
proof (induction prec buf rule: limit_prec.induct)
  case (1 prec buf)
  then show ?case by (subst limit_prec.simps) (simp add: PRINTF_FTOA_BUFFER_SIZE_def)
qed

lemma frac_digits_room: "length buf \<le> 32 \<Longrightarrow> length (fst (frac_digits frac count buf)) \<le> 32"
proof (induction frac count buf rule: frac_digits.induct)
  case (1 frac count buf)
  then show ?case by (subst frac_digits.simps) (simp add: PRINTF_FTOA_BUFFER_SIZE_def Let_def)
qed

lemma frac_zeros_room: "length buf \<le> 32 \<Longrightarrow> length (frac_zeros count buf) \<le> 32"
proof (induction count buf rule: frac_zeros.induct)
  case (1 count buf)
  then show ?case by (subst frac_zeros.simps) (simp add: PRINTF_FTOA_BUFFER_SIZE_def)
qed

lemma whole_digits_room: "length buf \<le> 32 \<Longrightarrow> length (whole_digits whole buf) \<le> 32"
proof (induction whole buf rule: whole_digits.induct)
  case (1 whole buf)
  then show ?case by (subst whole_digits.simps) (simp add: PRINTF_FTOA_BUFFER_SIZE_def Let_def)
qed

lemma ftoa_fraction_room: "length buf \<le> 32 \<Longrightarrow> length (ftoa_fraction frac prec buf) \<le> 32"
proof -
  assume l: "length buf \<le> 32"
  obtain b c where b: "frac_digits frac prec buf = (b, c)" by fastforce
  have "length (frac_zeros c b) \<le> 32" using frac_zeros_room frac_digits_room [OF l, of frac prec] b by simp
  then show ?thesis by (simp add: ftoa_fraction_def b Let_def PRINTF_FTOA_BUFFER_SIZE_def)
qed

lemma ftoa_digits_room: "length buf \<le> 32 \<Longrightarrow> length (ftoa_digits F val prec buf) \<le> 32"
  by (simp add: ftoa_digits_def Let_def whole_digits_room ftoa_fraction_room split: prod.split)

lemma ftoa_pad_room: "length buf \<le> 32 \<Longrightarrow> length (fst (ftoa_pad buf negative width flags)) \<le> 32"
  by (simp add: ftoa_pad_def Let_def pad_zeros_room)

text \<open>
  The characters of a floating point conversion, as a reference that keeps no index: those of the
  fixed notation, of the exponent after \<open>k\<close> characters, and of the two routines.
\<close>

definition fixed_chars :: "'e fpu \<Rightarrow> 'e \<Rightarrow> u32 \<Rightarrow> u32 \<Rightarrow> u32 \<Rightarrow> u8 list res" where
  "fixed_chars F val prec width flags =
     (let negative = f_less F val (f_int F 0);
          val = (if negative then f_store F (f_sub F (f_int F 0) val) else val);
          (buf, prec) = limit_prec (if has_flag flags FLAGS_PRECISION then prec else 6) []
      in if 10 \<le> unat prec then Inl OutOfBounds
         else
           (let (buf, width) = ftoa_pad (ftoa_digits F val prec buf) negative width flags
            in Inr (rev_chars (ntoa_sign buf negative flags) width flags)))"

definition suffix_chars :: "int \<Rightarrow> u32 \<Rightarrow> u32 \<Rightarrow> u32 \<Rightarrow> u32 \<Rightarrow> u8 list" where
  "suffix_chars expval minwidth width flags k =
     (if minwidth \<noteq> 0 then
        (let v = (word_of_int \<bar>expval\<bar> :: u32); fl = clear_hash v (FLAGS_ZEROPAD OR FLAGS_PLUS);
             cs = (if has_flag flags FLAGS_UPPERCASE then chr CHR ''E'' else chr CHR ''e'')
                    # ntoa_chars (ntoa_digits fl 10 v) (expval < 0) 10 0 (minwidth - 1) fl
         in cs @ (if has_flag flags FLAGS_LEFT then replicate (unat width - unat (k + of_nat (length cs))) (space) else []))
      else [])"

fun ftoa_chars :: "'e fpu \<Rightarrow> nat \<Rightarrow> 'e \<Rightarrow> u32 \<Rightarrow> u32 \<Rightarrow> u32 \<Rightarrow> u8 list res"
  and etoa_chars :: "'e fpu \<Rightarrow> nat \<Rightarrow> 'e \<Rightarrow> u32 \<Rightarrow> u32 \<Rightarrow> u32 \<Rightarrow> u8 list res" where
  "ftoa_chars F 0 val prec width flags = Inl Diverges"
| "ftoa_chars F (Suc n) val prec width flags =
     (if \<not> f_eq F val val then Inr (rev_chars (chrs ''nan'') width flags)
      else if f_less F val (f_neg F (f_max F)) then Inr (rev_chars (chrs ''fni-'') width flags)
      else if f_less F (f_max F) val then
        Inr (rev_chars (if has_flag flags FLAGS_PLUS then chrs ''fni+'' else chrs ''fni'') width flags)
      else if f_less F (PRINTF_MAX_FLOAT F) val \<or> f_less F val (f_neg F (PRINTF_MAX_FLOAT F))
      then etoa_chars F n val prec width flags
      else fixed_chars F val prec width flags)"
| "etoa_chars F 0 val prec width flags = Inl Diverges"
| "etoa_chars F (Suc n) val prec width flags =
     (if f_special F val then ftoa_chars F n val prec width flags
      else
        (let negative = f_less F val (f_int F 0);
             val = (if negative then f_store F (f_neg F val) else val);
             (expval, cF) = etoa_exponent F val;
             (prec, flags, minwidth, expval) =
               etoa_adapt F val (if has_flag flags FLAGS_PRECISION then prec else 6) flags
                 (if expval < 100 \<and> expval > - 100 then 4 else 5) expval;
             val = (if expval \<noteq> 0 then f_store F (f_div F val cF) else val)
         in bind_res (ftoa_chars F n (if negative then f_neg F val else val) prec (etoa_width width minwidth flags)
                        (flags AND NOT FLAGS_ADAPT_EXP))
              (\<lambda>cs. Inr (cs @ suffix_chars expval minwidth width flags (of_nat (length cs))))))"

lemma fixed_chars_emit:
  "ftoa_fixed F out maxlen val prec width flags st =
     bind_res (fixed_chars F val prec width flags) (\<lambda>cs. Inr (emit out maxlen cs st))"
proof -
  define neg where "neg = f_less F val (f_int F 0)"
  define v where "v = (if neg then f_store F (f_sub F (f_int F 0) val) else val)"
  obtain b p where b: "limit_prec (if has_flag flags FLAGS_PRECISION then prec else 6) [] = (b, p)" by fastforce
  obtain d w where d: "ftoa_pad (ftoa_digits F v p b) neg width flags = (d, w)" by fastforce
  have "length d \<le> 32"
    using ftoa_pad_room [OF ftoa_digits_room, of b F v p neg width flags] limit_prec_room [of "[]"] b d
    by (metis fst_conv le0 list.size(3))
  then have "out_rev out maxlen (ntoa_sign d neg flags) w flags st =
      emit out maxlen (rev_chars (ntoa_sign d neg flags) w flags) st"
    by (intro out_rev_emit ntoa_sign_room)
  moreover have "(if \<not> has_flag flags FLAGS_PRECISION then 6 else prec) = (if has_flag flags FLAGS_PRECISION then prec else 6)"
    by simp
  ultimately show ?thesis
    unfolding ftoa_fixed_def fixed_chars_def Let_def neg_def [symmetric] PRINTF_DEFAULT_FLOAT_PRECISION_def
    unfolding v_def [symmetric] by (simp add: b d pow10_def)
qed

lemma etoa_suffix_emit:
  "etoa_suffix out maxlen expval minwidth start width flags st =
     emit out maxlen (suffix_chars expval minwidth width flags (fst st - start)) st"
  by (simp add: etoa_suffix_def suffix_chars_def Let_def ntoa_long_emit left_loop_emit emit_index put_one_def
      algebra_simps)

lemma short_text: "length (chrs s) \<le> 32" if "length s \<le> 32"
  using that by (simp add: chrs_def)

lemma ftoa_etoa_emit:
  "ftoa F n out maxlen val prec width flags st =
     bind_res (ftoa_chars F n val prec width flags) (\<lambda>cs. Inr (emit out maxlen cs st)) \<and>
   etoa F n out maxlen val prec width flags st =
     bind_res (etoa_chars F n val prec width flags) (\<lambda>cs. Inr (emit out maxlen cs st))"
proof (induction n arbitrary: val prec width flags st)
  case (Suc n)
  show ?case
  proof
    show "ftoa F (Suc n) out maxlen val prec width flags st =
        bind_res (ftoa_chars F (Suc n) val prec width flags) (\<lambda>cs. Inr (emit out maxlen cs st))"
      by (simp add: Suc fixed_chars_emit out_rev_emit short_text)
    show "etoa F (Suc n) out maxlen val prec width flags st =
        bind_res (etoa_chars F (Suc n) val prec width flags) (\<lambda>cs. Inr (emit out maxlen cs st))"
    proof (cases "f_special F val")
      case False
      have "bind_res (bind_res r (\<lambda>cs. Inr (emit out maxlen cs st)))
          (\<lambda>st'. Inr (etoa_suffix out maxlen e mw (fst st) width fl st')) =
        bind_res (bind_res r (\<lambda>cs. Inr (cs @ suffix_chars e mw width fl (of_nat (length cs)))))
          (\<lambda>cs. Inr (emit out maxlen cs st))" for r e mw fl
        by (cases r) (simp_all add: etoa_suffix_emit emit_index)
      then show ?thesis
        using False by (simp add: Suc Let_def PRINTF_DEFAULT_FLOAT_PRECISION_def case_prod_beta if_not_P split: if_splits)
    qed (simp add: Suc)
  qed
qed simp

lemmas ftoa_emit = conjunct1 [OF ftoa_etoa_emit]
lemmas etoa_emit = conjunct2 [OF ftoa_etoa_emit]

section \<open>Strings\<close>

lemma str_loop_emit:
  "str_loop out maxlen cs limited precision st =
     emit out maxlen (take (if limited then unat precision else length cs) (takeWhile (\<lambda>c. c \<noteq> 0) cs)) st"
proof (induction cs arbitrary: precision st)
  case (Cons c cs)
  show ?case
  proof (cases "limited \<and> precision = 0")
    case False
    then have "limited \<Longrightarrow> unat precision = Suc (unat (precision - 1))"
      using unat_sub_u32 [of 1 precision] by (simp add: unat_gt_0 Suc_le_eq)
    with False Cons show ?thesis by (cases limited) (auto simp: take_Suc)
  qed (simp add: Cons)
qed simp

section \<open>Any sink receives the same characters\<close>

text \<open>\<open>collect\<close> is the sink that keeps everything.\<close>

definition collect :: "u8 list out_fct" where
  "collect character idx maxlen cs = cs @ [character]"

definition conv_via :: "'s out_fct \<Rightarrow> u32 \<Rightarrow> u32 \<times> 's \<Rightarrow> u8 list conv \<Rightarrow> 's conv" where
  "conv_via out maxlen st r = bind_res r (\<lambda>(vs, i, cs). Inr (vs, emit out maxlen cs st))"

lemma emit_collect: "emit collect maxlen cs (i, ds) = (i + of_nat (length cs), ds @ cs)"
  by (induction cs arbitrary: i ds) (simp_all add: put_one_def collect_def)

lemma put_one_emit: "put_one out maxlen c st = emit out maxlen [c] st"
  by simp

lemma conv_via_simps [simp]:
  "conv_via out maxlen st (Inl e) = Inl e"
  "conv_via out maxlen st (Inr (vs, i, cs)) = Inr (vs, emit out maxlen cs st)"
  by (simp_all add: conv_via_def)

lemmas conv_emit_simps = ntoa_long_emit ntoa_long_long_emit pad_loop_emit str_loop_emit emit_collect

lemma va_word_cases: "(\<exists>w vs'. vs = VWord w # vs') \<or> va_word vs = Inl OutOfBounds"
  by (cases vs rule: va_word.cases) auto

lemma va_long_cases: "(\<exists>w vs'. vs = VLong w # vs') \<or> va_long vs = Inl OutOfBounds"
  by (cases vs rule: va_long.cases) auto

lemma va_str_cases: "(\<exists>p vs'. vs = VStr p # vs') \<or> va_str vs = Inl OutOfBounds"
  by (cases vs rule: va_str.cases) auto

lemma conv_char_via:
  "conv_char out maxlen flags width vs st = conv_via out maxlen st (conv_char collect 0 flags width vs (0, []))"
  using va_word_cases [of vs] by (auto simp: conv_char_def Let_def conv_emit_simps put_one_def [of collect] collect_def)

lemma conv_str_via:
  "conv_str out maxlen flags width precision vs st =
     conv_via out maxlen st (conv_str collect 0 flags width precision vs (0, []))"
  using va_str_cases [of vs] by (auto simp: conv_str_def Let_def conv_emit_simps)

lemma conv_ptr_via:
  "conv_ptr out maxlen flags precision vs st =
     conv_via out maxlen st (conv_ptr collect 0 flags precision vs (0, []))"
  using va_word_cases [of vs] by (auto simp: conv_ptr_def Let_def conv_emit_simps)

lemma conv_float_via:
  "conv_float fc out maxlen c flags width precision vs st =
     conv_via out maxlen st (conv_float fc collect 0 c flags width precision vs (0, []))"
proof -
  have "bind_res (bind_res r (\<lambda>cs. Inr (emit out maxlen cs st))) (\<lambda>st. Inr (vs', st)) =
      conv_via out maxlen st (bind_res (bind_res r (\<lambda>cs. Inr (emit collect 0 cs (0, [])))) (\<lambda>st. Inr (vs', st)))"
    for r :: "u8 list res" and vs'
    by (cases r) (simp_all add: emit_collect)
  then show ?thesis
    using va_long_cases [of vs] by (auto simp: conv_float_def Let_def ftoa_emit etoa_emit)
qed

lemma conv_signed_via:
  "conv_signed out maxlen base flags width precision vs st =
     conv_via out maxlen st (conv_signed collect 0 base flags width precision vs (0, []))"
  using va_long_cases [of vs] va_word_cases [of vs]
  by (cases "has_flag flags FLAGS_LONG_LONG"; cases "has_flag flags FLAGS_LONG")
    (auto simp: conv_signed_def Let_def conv_emit_simps)

lemma conv_unsigned_via:
  "conv_unsigned out maxlen base flags width precision vs st =
     conv_via out maxlen st (conv_unsigned collect 0 base flags width precision vs (0, []))"
  using va_long_cases [of vs] va_word_cases [of vs]
  by (cases "has_flag flags FLAGS_LONG_LONG"; cases "has_flag flags FLAGS_LONG")
    (auto simp: conv_unsigned_def Let_def conv_emit_simps)

lemma conv_int_via:
  "conv_int out maxlen c flags width precision vs st =
     conv_via out maxlen st (conv_int collect 0 c flags width precision vs (0, []))"
  by (simp add: conv_int_def conv_signed_via [symmetric] conv_unsigned_via [symmetric])

lemma conv_specifier_via:
  "conv_specifier fc out maxlen c flags width precision vs st =
     conv_via out maxlen st (conv_specifier fc collect 0 c flags width precision vs (0, []))"
  unfolding conv_specifier_def
  by (auto simp: conv_int_via [of out] conv_float_via [of _ out] conv_char_via [of out] conv_str_via [of out]
      conv_ptr_via [of out] put_one_def [of collect] collect_def)

section \<open>Rendering a format\<close>

definition step_chars :: "'e fpu \<Rightarrow> u8 list \<Rightarrow> va list \<Rightarrow> (u8 list \<times> va list \<times> u8 list) res" where
  "step_chars fc fs vs =
     bind_res (format_step fc collect 0 fs vs (0, [])) (\<lambda>(fs, vs, i, cs). Inr (fs, vs, cs))"

lemma format_step_via:
  "format_step fc out maxlen fs vs st =
     bind_res (step_chars fc fs vs) (\<lambda>(fs, vs, cs). Inr (fs, vs, emit out maxlen cs st))"
proof (cases "peek fs = chr CHR ''%''")
  case False
  then show ?thesis by (simp add: step_chars_def format_step_def put_one_def [of collect] collect_def)
next
  case percent: True
  obtain fl1 f1 where 1: "parse_flags (tl fs) 0 = (fl1, f1)" by fastforce
  show ?thesis
  proof (cases "parse_width fl1 f1 vs")
    case (Inl e)
    then show ?thesis by (simp add: step_chars_def format_step_def percent 1)
  next
    case (Inr r)
    then obtain w fl2 f2 v2 where 2: "parse_width fl1 f1 vs = Inr (w, fl2, f2, v2)" by (cases r) auto
    show ?thesis
    proof (cases "parse_precision fl2 f2 v2")
      case (Inl e)
      then show ?thesis by (simp add: step_chars_def format_step_def percent 1 2)
    next
      case (Inr r')
      then obtain p fl3 f3 v3 where 3: "parse_precision fl2 f2 v2 = Inr (p, fl3, f3, v3)" by (cases r') auto
      obtain fl f where 4: "parse_length fl3 f3 = (fl, f)" by fastforce
      show ?thesis
        by (cases "conv_specifier fc collect 0 (peek f) fl w p v3 (0, [])")
          (auto simp: step_chars_def format_step_def percent 1 2 3 4 conv_specifier_via [of fc out])
    qed
  qed
qed

lemma step_chars_shorter:
  "step_chars fc fs vs = Inr (fs', vs', cs) \<Longrightarrow> peek fs \<noteq> 0 \<Longrightarrow> length fs' < length fs"
  by (auto simp: step_chars_def bind_res_Inr_iff dest: format_step_shorter)

text \<open>The characters of a whole format: those of its parts, one after the other.\<close>

function render :: "'e fpu \<Rightarrow> u8 list \<Rightarrow> va list \<Rightarrow> u8 list res" where
  "render fc fs vs =
     (if peek fs = 0 then Inr []
      else case step_chars fc fs vs of
          Inl e \<Rightarrow> Inl e
        | Inr (fs', vs', cs) \<Rightarrow> bind_res (render fc fs' vs') (\<lambda>ds. Inr (cs @ ds)))"
  by pat_completeness auto
termination render
  by (relation "measure (\<lambda>(fc, fs, vs). length fs)") (auto dest: step_chars_shorter)

declare render.simps [simp del]

lemma format_loop_via:
  "format_loop fc out maxlen fs vs st = bind_res (render fc fs vs) (\<lambda>cs. Inr (emit out maxlen cs st))"
proof (induction fc fs vs arbitrary: st rule: render.induct)
  case (1 fc fs vs)
  show ?case
  proof (cases "peek fs = 0")
    case True
    then show ?thesis by (simp add: format_loop.simps [of _ _ _ fs] render.simps [of _ fs])
  next
    case False
    show ?thesis
    proof (cases "step_chars fc fs vs")
      case (Inl e)
      then show ?thesis
        using False by (simp add: format_loop.simps [of _ _ _ fs] render.simps [of _ fs] format_step_via [of _ out])
    next
      case (Inr r)
      then obtain fs' vs' cs where s: "step_chars fc fs vs = Inr (fs', vs', cs)" by (cases r) auto
      have "format_loop fc out maxlen fs' vs' st' =
          bind_res (render fc fs' vs') (\<lambda>cs. Inr (emit out maxlen cs st'))" for st'
        by (rule 1 [OF False s refl refl])
      then show ?thesis
        using False s
        by (cases "render fc fs' vs'")
          (simp_all add: format_loop.simps [of _ _ _ fs] render.simps [of _ fs] format_step_via [of _ out])
    qed
  qed
qed

lemma vsnprintf_via:
  assumes "buffer \<noteq> 0"
  shows "vsnprintf_internal fc out buffer maxlen fmt vs s =
    bind_res (render fc fmt vs) (\<lambda>cs. let (idx, s') = emit out maxlen cs (0, s) in
      Inr (of_nat (length cs), out 0 (if idx < maxlen then idx else maxlen - 1) maxlen s'))"
  using assms
  by (cases "render fc fmt vs")
    (auto simp: vsnprintf_internal_def Let_def format_loop_via emit_index case_prod_beta)

end
