(* ===== verification/Printf_Sinks.thy ===== *)
theory Printf_Sinks
  imports Printf_Render
begin

text \<open>
  Where the characters go: the buffer of \<open>snprintf\<close> with its limit and terminator, and character
  devices, of which the serial line below \<open>printf\<close> is one.
\<close>

section \<open>The bounded buffer\<close>

lemma unat_succ_index:
  "unat (idx :: u32) + Suc n < 4294967296 \<Longrightarrow> unat (idx + 1) = unat idx + 1"
  by (rule unat_plus_1) simp

lemma emit_buffer:
  assumes "unat idx + length cs < 4294967296"
  shows "snd (emit (out_buffer buf) count cs (idx, m)) x =
    (if unat idx \<le> unat (x - buf) \<and> unat (x - buf) < unat idx + length cs \<and> x - buf < count
     then cs ! (unat (x - buf) - unat idx) else m x)"
  using assms
proof (induction cs arbitrary: idx m)
  case (Cons c cs)
  have s: "unat (idx + 1) = unat idx + 1" using Cons.prems unat_succ_index [of idx "length cs"] by simp
  then have IH: "snd (emit (out_buffer buf) count cs (idx + 1, m')) x =
    (if unat idx + 1 \<le> unat (x - buf) \<and> unat (x - buf) < unat idx + 1 + length cs \<and> x - buf < count
     then cs ! (unat (x - buf) - unat idx - 1) else m' x)" for m'
    using Cons.IH [of "idx + 1" m'] Cons.prems by simp
  have eq: "x = buf + idx \<longleftrightarrow> unat (x - buf) = unat idx"
    unfolding word_unat_eq_iff [symmetric] by auto
  have w: "out_buffer buf c idx count m x = (if x = buf + idx \<and> idx < count then c else m x)"
    by (simp add: out_buffer_def store8_def)
  have e: "snd (emit (out_buffer buf) count (c # cs) (idx, m)) x =
      snd (emit (out_buffer buf) count cs (idx + 1, out_buffer buf c idx count m)) x"
    by (simp add: put_one_def)
  show ?case
  proof (cases "unat (x - buf) = unat idx")
    case True
    then have "x - buf = idx" by (simp add: word_unat_eq_iff)
    with True eq show ?thesis unfolding e IH w by auto
  next
    case False
    then have "x \<noteq> buf + idx" using eq by simp
    with False show ?thesis unfolding e IH w by (auto simp: nth_Cons')
  qed
qed auto

lemma snprintf_memory:
  assumes "buf \<noteq> 0" "render fc fmt vs = Inr cs" "length cs < 4294967296" "count \<noteq> 0"
  shows "\<exists>m'. snprintf fc buf count fmt vs m = Inr (of_nat (length cs), m')
    \<and> (\<forall>x. m' x = (if unat (x - buf) < min (length cs) (unat count - 1) then cs ! unat (x - buf)
        else if unat (x - buf) = min (length cs) (unat count - 1) then 0 else m x))"
proof -
  let ?n = "of_nat (length cs) :: u32" and ?k = "min (length cs) (unat count - 1)"
  have n: "unat ?n = length cs" using assms(3) by (rule unat_of_nat_u32)
  have c: "0 < unat count" using assms(4) by (simp add: unat_gt_0)
  define m1 where "m1 = snd (emit (out_buffer buf) count cs (0, m))"
  define i where "i = (if ?n < count then ?n else count - 1)"
  have i: "unat i = ?k" "i < count"
  proof -
    show i: "unat i = ?k" using n c unat_sub_u32 [of 1 count] by (auto simp: i_def word_less_nat_alt)
    show "i < count" using i c by (auto simp: word_less_nat_alt)
  qed
  have "fst (emit (out_buffer buf) count cs (0, m)) = ?n" by (simp add: emit_index)
  then have "snprintf fc buf count fmt vs m = Inr (?n, out_buffer buf 0 i count m1)"
    using assms(1,2) by (simp add: snprintf_def vsnprintf_via case_prod_beta Let_def m1_def i_def)
  moreover have "out_buffer buf 0 i count m1 x = (if unat (x - buf) < ?k then cs ! unat (x - buf)
      else if unat (x - buf) = ?k then 0 else m x)" for x
  proof -
    have eq: "x = buf + i \<longleftrightarrow> unat (x - buf) = ?k"
      unfolding i(1) [symmetric] word_unat_eq_iff [symmetric] by auto
    have m1: "m1 x = (if unat (x - buf) < length cs \<and> unat (x - buf) < unat count then cs ! unat (x - buf) else m x)"
      using emit_buffer [of 0 cs buf count m x] assms(3) by (simp add: m1_def word_less_nat_alt)
    show ?thesis
    proof (cases "unat (x - buf) = ?k")
      case True
      then have "x = buf + i" using eq by simp
      with True i(2) show ?thesis by (simp add: out_buffer_def store8_def)
    next
      case False
      then have "x \<noteq> buf + i" using eq by simp
      with False i(2) m1 c show ?thesis by (auto simp: out_buffer_def store8_def)
    qed
  qed
  ultimately show ?thesis by blast
qed

text \<open>With a count of zero nothing is written; the length is still returned.\<close>

lemma snprintf_zero:
  assumes "buf \<noteq> 0" "render fc fmt vs = Inr cs"
  shows "snprintf fc buf 0 fmt vs m = Inr (of_nat (length cs), m)"
proof -
  have "snd (emit (out_buffer buf) 0 cs (i, m)) = m" for i
    by (induction cs arbitrary: i) (simp_all add: put_one_def out_buffer_def)
  then show ?thesis
    using assms by (simp add: snprintf_def vsnprintf_via case_prod_beta Let_def out_buffer_def emit_index)
qed

text \<open>With a null buffer nothing is written either.\<close>

lemma snprintf_null:
  assumes "render fc fmt vs = Inr cs"
  shows "snprintf fc 0 count fmt vs m = Inr (of_nat (length cs), m)"
proof -
  have "emit out_null k cs (i, m) = (i + of_nat (length cs), m)" for i k
    by (induction cs arbitrary: i) (simp_all add: put_one_def out_null_def)
  then show ?thesis
    using assms by (simp add: snprintf_def vsnprintf_internal_def Let_def format_loop_via out_null_def)
qed

section \<open>Character devices\<close>

locale char_device =
  fixes put :: "u8 \<Rightarrow> 's \<Rightarrow> 's"
    and sent_by :: "'s \<Rightarrow> u8 list"
    and up :: "'s \<Rightarrow> bool"
  assumes put_law: "up s \<Longrightarrow> up (put c s) \<and> sent_by (put c s) = sent_by s @ [c]"
begin

definition put_text :: "u8 \<Rightarrow> u32 \<Rightarrow> u32 \<Rightarrow> 's \<Rightarrow> 's" where
  "put_text c idx maxlen s = (if c \<noteq> 0 then put c s else s)"

lemma emit_text:
  "up s \<Longrightarrow> up (snd (emit put_text k cs (i, s)))
     \<and> sent_by (snd (emit put_text k cs (i, s))) = sent_by s @ filter (\<lambda>c. c \<noteq> 0) cs"
proof (induction cs arbitrary: i s)
  case (Cons c cs)
  then show ?case using put_law [OF Cons.prems, of c] by (auto simp: put_one_def put_text_def)
qed simp

lemma prints:
  assumes "up s" "render fc fmt vs = Inr cs" "buf \<noteq> 0"
  shows "\<exists>s'. vsnprintf_internal fc put_text buf k fmt vs s = Inr (of_nat (length cs), s')
     \<and> up s' \<and> sent_by s' = sent_by s @ filter (\<lambda>c. c \<noteq> 0) cs"
  using emit_text [OF assms(1), of k cs 0] assms(2,3)
  by (auto simp: vsnprintf_via case_prod_beta Let_def put_text_def [of 0])

end

text \<open>The serial line as the device below \<open>printf\<close>, whatever its state \<open>l\<close> before the log began.\<close>

definition line_up :: "serial_line \<Rightarrow> 'a ports_scheme \<Rightarrow> bool" where
  "line_up l s \<longleftrightarrow> \<not> bit (line_control (serial_run l (port_log s))) 7"

definition line_sent :: "serial_line \<Rightarrow> 'a ports_scheme \<Rightarrow> u8 list" where
  "line_sent l s = sent (serial_run l (port_log s))"

lemma putchar_line:
  assumes "line_up l s"
  shows "line_up l (putchar c s) \<and> line_sent l (putchar c s) = line_sent l s @ [c]"
  using assms by (simp add: line_up_def line_sent_def putchar_def uart_write_byte_def uart_defs)

interpretation uart: char_device putchar "line_sent l" "line_up l" for l
  by unfold_locales (rule putchar_line)

lemma uart_put_text: "uart.put_text = out_char"
  by (simp add: fun_eq_iff uart.put_text_def out_char_def)

end
