(* ===== verification/Printf_Numbers.thy ===== *)
theory Printf_Numbers
  imports Printf_Sinks
begin

text \<open>
  The numbers \<open>printf\<close> prints: the digits of the conversion loop read back as the number, for every
  base and both word sizes, as far as the buffer of 32 characters reaches; and the text of the
  plain conversions within a format.
\<close>

section \<open>Digits\<close>

fun spec_digits :: "nat \<Rightarrow> nat \<Rightarrow> nat \<Rightarrow> nat list" where
  "spec_digits 0 b v = []"
| "spec_digits (Suc n) b v = v mod b # (if v div b \<noteq> 0 then spec_digits n b (v div b) else [])"

definition digit_value :: "u8 \<Rightarrow> nat" where
  "digit_value c = (if c < 58 then unat c - 48 else if c < 91 then unat c - 55 else unat c - 87)"

text \<open>The number a text of digits denotes, most significant digit first.\<close>

definition number_of :: "nat \<Rightarrow> u8 list \<Rightarrow> nat" where
  "number_of b cs = foldl (\<lambda>n c. n * b + digit_value c) 0 cs"

lemma chr_digits: "chr CHR ''0'' = 48" "chr CHR ''9'' = 57" "chr CHR ''a'' = 97" "chr CHR ''A'' = 65"
  "chr CHR ''-'' = 45" "chr CHR ''%'' = 37" "chr CHR '' '' = 32" "chr CHR ''.'' = 46" "chr CHR ''*'' = 42"
  "chr CHR ''+'' = 43" "chr CHR ''#'' = 35"
  by (simp_all add: chr_def)

lemma small_digits:
  assumes "n < 16"
  shows "n \<in> {0, 1, 2, 3, 4, 5, 6, 7, 8, 9, 10, 11, 12, 13, 14, 15 :: nat}"
  using assms by (simp, arith)

lemma digit_value_char:
  assumes "n < 16"
  shows "digit_value (digit_char flags (of_nat n)) = n"
  using small_digits [OF assms]
  by (cases "has_flag flags FLAGS_UPPERCASE")
    (auto simp: digit_char_def digit_value_def chr_digits)

lemma ucast_digit:
  fixes val base :: "'w::len word"
  shows "(ucast (val mod base) :: u8) = of_nat (unat val mod unat base)"
  unfolding unat_mod [symmetric] by simp

lemma ntoa_loop_spec:
  fixes val base :: "'w::len word"
  assumes "length buf < 32"
  shows "ntoa_loop flags base val buf =
    buf @ map (\<lambda>d. digit_char flags (of_nat d)) (spec_digits (32 - length buf) (unat base) (unat val))"
  using assms
proof (induction flags base val buf rule: ntoa_loop.induct)
  case (1 flags base val buf)
  obtain k where k: "32 - length buf = Suc k" using 1(2) by (cases "32 - length buf") auto
  let ?d = "digit_char flags (of_nat (unat val mod unat base))"
  have z: "val div base = 0 \<longleftrightarrow> unat val div unat base = 0"
    unfolding unat_div [symmetric] by (simp only: unsigned_eq_0_iff)
  have e: "ntoa_loop flags base val buf =
    (if unat val div unat base \<noteq> 0 \<and> length (buf @ [?d]) < 32
     then ntoa_loop flags base (val div base) (buf @ [?d]) else buf @ [?d])"
    by (subst ntoa_loop.simps) (simp add: Let_def ucast_digit z PRINTF_NTOA_BUFFER_SIZE_def)
  show ?case
  proof (cases "unat val div unat base \<noteq> 0 \<and> length (buf @ [?d]) < 32")
    case True
    then have "ntoa_loop flags base (val div base) (buf @ [?d]) = (buf @ [?d]) @
        map (\<lambda>d. digit_char flags (of_nat d)) (spec_digits (32 - length (buf @ [?d])) (unat base) (unat (val div base)))"
      by (intro 1(1) [OF refl refl refl, unfolded ucast_digit]) (simp_all add: z PRINTF_NTOA_BUFFER_SIZE_def)
    moreover have "32 - length (buf @ [?d]) = k" using k by simp
    ultimately show ?thesis using True unfolding e by (simp add: k unat_div)
  next
    case False
    have "k = 0" if "\<not> length (buf @ [?d]) < 32" using that k by simp
    with False show ?thesis unfolding e by (auto simp: k)
  qed
qed

lemma spec_digits_value:
  "2 \<le> b \<Longrightarrow> foldr (\<lambda>d n. d + b * n) (spec_digits n b v) 0 = v mod b ^ n"
proof (induction n arbitrary: v)
  case (Suc n)
  have "v mod b ^ Suc n = v mod b + b * (v div b mod b ^ n)" by (simp add: mod_mult2_eq)
  moreover have "v div b mod b ^ n = 0" if "v div b = 0" using that by simp
  ultimately show ?case using Suc by auto
qed simp

lemma spec_digits_less: "0 < b \<Longrightarrow> d \<in> set (spec_digits n b v) \<Longrightarrow> d < b"
  by (induction n arbitrary: v) (auto split: if_splits)

lemma number_of_rev: "number_of b (rev cs) = foldr (\<lambda>c n. digit_value c + b * n) cs 0"
proof -
  have "(\<lambda>x y. y * b + digit_value x) = (\<lambda>c n. digit_value c + b * n)"
    by (simp add: fun_eq_iff)
  then show ?thesis by (simp add: number_of_def foldl_conv_foldr)
qed

lemma digits_number:
  assumes "2 \<le> b" "b \<le> 16"
  shows "number_of b (rev (map (\<lambda>d. digit_char flags (of_nat d)) (spec_digits n b v))) = v mod b ^ n"
proof -
  have "foldr (\<lambda>c n. digit_value c + b * n) (map (\<lambda>d. digit_char flags (of_nat d)) ds) 0 =
      foldr (\<lambda>d n. d + b * n) ds 0" if "\<forall>d \<in> set ds. d < 16" for ds
    using that by (induction ds) (simp_all add: digit_value_char)
  moreover have "\<forall>d \<in> set (spec_digits n b v). d < 16"
    using spec_digits_less [of b _ n v] assms by fastforce
  ultimately show ?thesis using spec_digits_value [OF assms(1), of n v] by (simp add: number_of_rev)
qed

lemma ntoa_digits_value:
  fixes val base :: "'w::len word"
  assumes "2 \<le> unat base" "unat base \<le> 16" "\<not> has_flag flags FLAGS_PRECISION \<or> val \<noteq> 0"
  shows "number_of (unat base) (rev (ntoa_digits flags base val)) = unat val mod unat base ^ 32"
proof -
  have "ntoa_digits flags base val = map (\<lambda>d. digit_char flags (of_nat d)) (spec_digits 32 (unat base) (unat val))"
    using assms(3) ntoa_loop_spec [of "[]" flags base val] by (auto simp: ntoa_digits_def)
  then show ?thesis using digits_number [OF assms(1,2)] by simp
qed

lemma spec_digits_length: "2 \<le> b \<Longrightarrow> v < b ^ k \<Longrightarrow> 0 < k \<Longrightarrow> length (spec_digits n b v) \<le> k"
proof (induction n arbitrary: v k)
  case (Suc n)
  show ?case
  proof (cases "v div b = 0")
    case False
    obtain j where j: "k = Suc j" using Suc.prems(3) by (cases k) auto
    have "v div b < b ^ j" using Suc.prems(1,2) j by (simp add: less_mult_imp_div_less mult.commute)
    moreover have "0 < j" using calculation False by (cases j) auto
    ultimately have "length (spec_digits n b (v div b)) \<le> j" by (rule Suc.IH [OF Suc.prems(1)])
    then show ?thesis using j False by simp
  qed (use Suc.prems in simp)
qed simp

section \<open>Formats\<close>

lemma render_end: "render fc [] vs = Inr []"
  by (simp add: render.simps [of _ "[]"] peek_def)

lemma render_literal:
  assumes "c \<noteq> 0" "c \<noteq> chr CHR ''%''"
  shows "render fc (c # fs) vs = bind_res (render fc fs vs) (\<lambda>ds. Inr (c # ds))"
  using assms
  by (simp add: render.simps [of _ "c # fs"] step_chars_def format_step_def peek_def put_one_def collect_def)

lemma render_text:
  assumes "\<forall>c \<in> set cs. c \<noteq> 0 \<and> c \<noteq> chr CHR ''%''"
  shows "render fc (cs @ fs) vs = bind_res (render fc fs vs) (\<lambda>ds. Inr (cs @ ds))"
  using assms
proof (induction cs)
  case Nil
  then show ?case by (cases "render fc fs vs") simp_all
next
  case (Cons c cs)
  then show ?case by (cases "render fc fs vs") (simp_all add: render_literal)
qed

text \<open>A conversion without flags, width, precision and length.\<close>

definition plain_specifier :: "u8 \<Rightarrow> bool" where
  "plain_specifier c \<longleftrightarrow> c \<in> set (chrs ''diuxXobcsp%'')"

lemma render_plain:
  assumes "plain_specifier c"
  shows "render fc (chr CHR ''%'' # c # fs) vs =
    bind_res (conv_specifier fc collect 0 c 0 0 0 vs (0, [])) (\<lambda>(vs', i, cs).
      bind_res (render fc fs vs') (\<lambda>ds. Inr (cs @ ds)))"
proof -
  have c: "c \<in> {100, 105, 117, 120, 88, 111, 98, 99, 115, 112, 37}"
    using assms by (simp add: plain_specifier_def chrs_def chr_def)
  then have "parse_flags (c # fs) 0 = (0, c # fs)" "\<not> is_digit c" "c \<noteq> chr CHR ''.''" "c \<noteq> chr CHR ''*''"
    "parse_length 0 (c # fs) = (0, c # fs)"
    by (auto simp: chr_digits is_digit_def parse_length_def peek_def chr_def Let_def)
  then have "step_chars fc (chr CHR ''%'' # c # fs) vs =
      bind_res (conv_specifier fc collect 0 c 0 0 0 vs (0, [])) (\<lambda>(vs', i, cs). Inr (fs, vs', cs))"
    by (cases "conv_specifier fc collect 0 c 0 0 0 vs (0, [])")
      (auto simp: step_chars_def format_step_def peek_def parse_width_def parse_precision_def)
  then show ?thesis
    by (cases "conv_specifier fc collect 0 c 0 0 0 vs (0, [])"; subst render.simps)
      (auto simp: peek_def chr_digits)
qed

lemma clear_hash_none [simp]: "clear_hash val 0 = 0"
  by (simp add: clear_hash_def)

lemma ntoa_chars_plain:
  assumes "length buf < 32"
  shows "ntoa_chars buf negative base 0 0 0 = (if negative then [chr CHR ''-''] else []) @ rev buf"
proof -
  have "pad_zeros 0 buf = buf" by (simp add: pad_zeros.simps)
  then show ?thesis
    using assms by (simp add: ntoa_chars_def ntoa_pad_def ntoa_hash_def ntoa_sign_def rev_chars_def Let_def
        PRINTF_NTOA_BUFFER_SIZE_def)
qed

lemma decimal_room:
  fixes val :: u32
  shows "length (ntoa_digits 0 10 val) \<le> 10"
proof -
  have "unat val < 10 ^ 10" by (rule less_trans [OF unat_u32_less]) simp
  then have "length (spec_digits 32 10 (unat val)) \<le> 10" by (intro spec_digits_length) simp_all
  then show ?thesis
    using ntoa_loop_spec [of "[]" 0 10 val] by (simp add: ntoa_digits_def)
qed

lemma render_d:
  "render fc (chrs ''%d'' @ fs) (VWord w # vs) = bind_res (render fc fs vs) (\<lambda>ds.
     Inr ((if sint w < 0 then [chr CHR ''-''] else []) @ rev (ntoa_digits 0 10 (magnitude w)) @ ds))"
proof -
  have d: "chr CHR ''d'' = 100" "int_base 100 = 10" "int_flags 100 0 = 0" "plain_specifier (chr CHR ''d'')"
    by (simp_all add: chr_def int_base_def int_flags_def plain_specifier_def chrs_def)
  have "length (ntoa_digits 0 10 (magnitude w)) < 32" using decimal_room [of "magnitude w"] by simp
  then have "conv_specifier fc collect 0 (chr CHR ''d'') 0 0 0 (VWord w # vs) (0, []) =
    Inr (vs, emit collect 0 ((if sint w < 0 then [chr CHR ''-''] else []) @ rev (ntoa_digits 0 10 (magnitude w))) (0, []))"
    by (simp add: conv_specifier_def chrs_def conv_int_def d conv_signed_def ntoa_long_emit
        ntoa_chars_plain del: emit_simps)
  then show ?thesis
    using render_plain [OF d(4), of fc fs "VWord w # vs"] by (simp add: chrs_def emit_collect del: emit_simps)
qed

lemma render_s:
  "render fc (chrs ''%s'' @ fs) (VStr p # vs) = bind_res (render fc fs vs) (\<lambda>ds.
     Inr (takeWhile (\<lambda>c. c \<noteq> 0) p @ ds))"
proof -
  have s: "chr CHR ''s'' = 115" "plain_specifier (chr CHR ''s'')" by (simp_all add: chr_def plain_specifier_def chrs_def)
  have l: "length (takeWhile (\<lambda>c. c \<noteq> 0) p) \<le> length p" by (rule length_takeWhile_le)
  then have "conv_specifier fc collect 0 (chr CHR ''s'') 0 0 0 (VStr p # vs) (0, []) =
    Inr (vs, emit collect 0 (takeWhile (\<lambda>c. c \<noteq> 0) p) (0, []))"
    by (simp add: conv_specifier_def chrs_def s) (simp add: chr_def conv_str_def Let_def pad_loop_emit str_loop_emit emit_collect)
  then show ?thesis
    using render_plain [OF s(2), of fc fs "VStr p # vs"] by (simp add: chrs_def emit_collect del: emit_simps)
qed

text \<open>A format that ends in \<open>%\<close> sends the format pointer past the terminator.\<close>

lemma render_percent_end: "render fc [chr CHR ''%''] vs = Inl OutOfBounds"
  by (subst render.simps) (simp add: step_chars_def format_step_def peek_def chr_digits
      parse_width_def is_digit_def parse_precision_def parse_length_def conv_specifier_def chrs_def chr_def)

section \<open>Numbers printed and read back\<close>

lemma unat_magnitude:
  fixes w :: "'w::len word"
  shows "unat (magnitude w) = nat \<bar>sint w\<bar>"
proof -
  let ?M = "2 ^ LENGTH('w) :: int"
  have range: "- (2 ^ (LENGTH('w) - 1)) \<le> sint w" "sint w < 2 ^ (LENGTH('w) - 1)"
    by (rule sint_ge, rule sint_lt)
  have M: "?M = 2 * 2 ^ (LENGTH('w) - 1)"
    using power_Suc [of "2 :: int" "LENGTH('w) - 1"] by simp
  have u: "uint (word_of_int k :: 'w word) = k" if "0 \<le> k" "k < ?M" for k
    using that by (simp add: unsigned_of_int take_bit_int_eq_self)
  have r: "w = word_of_int (sint w)" by simp
  show ?thesis
  proof (cases "sint w > 0")
    case True
    have "uint w = sint w" using u [of "sint w"] r True range(2) M by simp
    then have "unat w = nat (sint w)" by (metis nat_uint_eq)
    with True show ?thesis by (simp add: magnitude_def)
  next
    case False
    have "- w = word_of_int (- sint w)" using r by simp
    moreover have "0 < (2 :: int) ^ (LENGTH('w) - 1)" by simp
    then have "0 \<le> - sint w" "- sint w < ?M" using False range(1) M by linarith+
    ultimately have "uint (- w) = - sint w" using u [of "- sint w"] by simp
    then have "unat (- w) = nat (- sint w)" by (metis nat_uint_eq)
    with False show ?thesis by (simp add: magnitude_def)
  qed
qed

definition read_signed :: "u8 list \<Rightarrow> int" where
  "read_signed cs = (if cs \<noteq> [] \<and> hd cs = chr CHR ''-'' then - int (number_of 10 (tl cs)) else int (number_of 10 cs))"

lemma digits_value_u32:
  fixes val base :: u32
  assumes "2 \<le> unat base" "unat base \<le> 16" "\<not> has_flag flags FLAGS_PRECISION"
  shows "number_of (unat base) (rev (ntoa_digits flags base val)) = unat val"
proof -
  have "unat val < 2 ^ 32" by simp
  also have "\<dots> \<le> unat base ^ 32" using assms(1) by (rule power_mono) simp
  finally show ?thesis using ntoa_digits_value [of base flags val] assms by simp
qed

lemma digit_not_minus:
  assumes "c \<in> set (ntoa_digits flags base val)" "2 \<le> unat base" "unat base \<le> 16"
  shows "c \<noteq> chr CHR ''-''"
proof -
  obtain d where d: "c = digit_char flags (of_nat d)" "d < unat base"
    using assms(1,2) ntoa_loop_spec [of "[]" flags base val] spec_digits_less [of "unat base" _ 32 "unat val"]
    by (auto simp: ntoa_digits_def split: if_splits)
  have "d < 16" using d(2) assms(3) by simp
  then show ?thesis unfolding d(1)
    using small_digits [of d] by (cases "has_flag flags FLAGS_UPPERCASE") (auto simp: digit_char_def chr_digits)
qed

lemma read_signed_d:
  "read_signed ((if sint (w :: u32) < 0 then [chr CHR ''-''] else []) @ rev (ntoa_digits 0 10 (magnitude w))) = sint w"
proof -
  let ?ds = "rev (ntoa_digits 0 10 (magnitude w))"
  have v: "number_of 10 ?ds = nat \<bar>sint w\<bar>"
    using digits_value_u32 [of 10 0 "magnitude w"] by (simp add: unat_magnitude)
  have "hd ?ds \<noteq> chr CHR ''-''" if "?ds \<noteq> []"
    using digit_not_minus [of "hd ?ds" 0 10 "magnitude w"] hd_in_set [OF that] by simp
  then show ?thesis using v by (auto simp: read_signed_def)
qed

lemma ntoa_chars_unsigned: "ntoa_chars buf False base 0 0 f = rev buf"
  if "f \<in> {0, FLAGS_LONG OR FLAGS_LONG_LONG}"
proof -
  have "pad_zeros 0 buf = buf" by (simp add: pad_zeros.simps)
  moreover have "\<not> has_flag f FLAGS_LEFT" "\<not> has_flag f FLAGS_ZEROPAD" "\<not> has_flag f FLAGS_HASH"
    "\<not> has_flag f FLAGS_PLUS" "\<not> has_flag f FLAGS_SPACE"
    using that by (auto simp: FLAGS_LONG_def FLAGS_LONG_LONG_def FLAGS_LEFT_def FLAGS_ZEROPAD_def FLAGS_HASH_def
        FLAGS_PLUS_def FLAGS_SPACE_def)
  ultimately show ?thesis
    by (simp add: ntoa_chars_def ntoa_pad_def ntoa_hash_def ntoa_sign_def rev_chars_def Let_def)
qed

definition unsigned_specifier :: "u8 \<Rightarrow> bool" where
  "unsigned_specifier c \<longleftrightarrow> c \<in> set (chrs ''uxob'')"

lemma unsigned_specifiers: "unsigned_specifier c \<longleftrightarrow> c \<in> {117, 120, 111, 98}"
  by (simp add: unsigned_specifier_def chrs_def chr_def)

lemma unsigned_base: "unsigned_specifier c \<Longrightarrow> 2 \<le> unat (int_base c) \<and> unat (int_base c) \<le> 16"
  by (auto simp: unsigned_specifiers int_base_def chr_def)

lemma render_unsigned:
  assumes "unsigned_specifier c"
  shows "render fc (chr CHR ''%'' # c # fs) (VWord w # vs) = bind_res (render fc fs vs) (\<lambda>ds.
     Inr (rev (ntoa_digits 0 (int_base c) w) @ ds))"
proof -
  have c: "c \<in> {117, 120, 111, 98}" using assms by (simp add: unsigned_specifiers)
  then have p: "plain_specifier c" by (auto simp: plain_specifier_def chrs_def chr_def)
  have f: "int_flags c 0 = 0" "c \<noteq> chr CHR ''i''" "c \<noteq> chr CHR ''d''" "c \<in> set (chrs ''diuxXob'')"
    using c by (auto simp: int_flags_def chr_def chrs_def)
  have "conv_specifier fc collect 0 c 0 0 0 (VWord w # vs) (0, []) =
      Inr (vs, emit collect 0 (rev (ntoa_digits 0 (int_base c) w)) (0, []))"
    by (simp add: conv_specifier_def f conv_int_def conv_unsigned_def ntoa_long_emit ntoa_chars_unsigned)
  then show ?thesis using render_plain [OF p, of fc fs "VWord w # vs"] by (simp add: emit_collect)
qed

text \<open>With the length \<open>ll\<close> the number has twice the width, the buffer still 32 characters.\<close>

lemma step_ll:
  assumes "unsigned_specifier c"
  shows "step_chars fc (chrs ''%ll'' @ c # fs) (VLong w # vs) =
    Inr (fs, vs, rev (ntoa_digits (FLAGS_LONG OR FLAGS_LONG_LONG) (ucast (int_base c)) w))"
proof -
  let ?f = "FLAGS_LONG OR FLAGS_LONG_LONG"
  have c: "c \<in> {117, 120, 111, 98}" using assms by (simp add: unsigned_specifiers)
  have h: "clear_hash w ?f = ?f" "int_flags c ?f = ?f" "has_flag ?f FLAGS_LONG_LONG"
    "c \<noteq> chr CHR ''i''" "c \<noteq> chr CHR ''d''" "c \<in> set (chrs ''diuxXob'')" "FLAGS_LONG_LONG \<noteq> 0"
    using c by (auto simp: clear_hash_def int_flags_def Let_def int_base_def FLAGS_LONG_def FLAGS_LONG_LONG_def
        FLAGS_HASH_def FLAGS_PLUS_def FLAGS_SPACE_def FLAGS_PRECISION_def chr_def chrs_def)
  have "conv_specifier fc collect 0 c ?f 0 0 (VLong w # vs) (0, []) =
      Inr (vs, emit collect 0 (rev (ntoa_digits ?f (ucast (int_base c)) w)) (0, []))"
    by (simp add: conv_specifier_def h conv_int_def conv_unsigned_def ntoa_long_long_emit ntoa_chars_unsigned)
  moreover have "parse_flags (chrs ''ll'' @ c # fs) 0 = (0, chrs ''ll'' @ c # fs)"
    "parse_length 0 (chrs ''ll'' @ c # fs) = (?f, c # fs)"
    "parse_width 0 (chrs ''ll'' @ c # fs) vs' = Inr (0, 0, chrs ''ll'' @ c # fs, vs')"
    "parse_precision 0 (chrs ''ll'' @ c # fs) vs' = Inr (0, 0, chrs ''ll'' @ c # fs, vs')" for vs'
    by (simp_all add: chrs_def chr_def parse_length_def parse_width_def parse_precision_def peek_def is_digit_def)
  moreover have "chrs ''%ll'' @ c # fs = chr CHR ''%'' # chrs ''ll'' @ c # fs" by (simp add: chrs_def)
  ultimately show ?thesis
    by (simp add: step_chars_def format_step_def peek_def emit_collect)
qed

lemma render_ll:
  assumes "unsigned_specifier c"
  shows "render fc (chrs ''%ll'' @ [c]) [VLong w] =
    Inr (rev (ntoa_digits (FLAGS_LONG OR FLAGS_LONG_LONG) (ucast (int_base c)) w))"
proof -
  have "peek (chrs ''%ll'' @ [c]) \<noteq> 0" by (simp add: chrs_def chr_def peek_def)
  then show ?thesis using step_ll [OF assms, of fc "[]" w "[]"] by (subst render.simps) (simp add: render_end)
qed

lemma ll_value:
  assumes "unsigned_specifier c"
  shows "number_of (unat (int_base c)) (rev (ntoa_digits (FLAGS_LONG OR FLAGS_LONG_LONG) (ucast (int_base c)) (w :: u64)))
     = unat w mod unat (int_base c) ^ 32"
proof -
  have "unat (ucast (int_base c) :: u64) = unat (int_base c)"
    using assms by (auto simp: unsigned_specifiers int_base_def chr_def)
  moreover have "\<not> has_flag (FLAGS_LONG OR FLAGS_LONG_LONG) FLAGS_PRECISION"
    by (simp add: FLAGS_LONG_def FLAGS_LONG_LONG_def FLAGS_PRECISION_def)
  ultimately show ?thesis
    using ntoa_digits_value [of "ucast (int_base c) :: u64" "FLAGS_LONG OR FLAGS_LONG_LONG" w] unsigned_base [OF assms]
    by simp
qed

text \<open>What 32 characters hold of a 64-bit number.\<close>

lemma base_64:
  fixes v :: u64
  assumes "unsigned_specifier c"
  shows "unat v mod unat (int_base c) ^ 32 = (if int_base c = 2 then unat v mod 4294967296 else unat v)"
proof -
  have b: "int_base c = 2 \<or> 8 \<le> unat (int_base c)"
    using assms by (auto simp: unsigned_specifiers int_base_def chr_def)
  have "unat v < 2 ^ 64" using unsigned_less [of v, where ?'a = nat] by simp
  also have "(2 :: nat) ^ 64 \<le> 8 ^ 32" by simp
  finally have "unat v < unat (int_base c) ^ 32" if "8 \<le> unat (int_base c)"
    using power_mono [OF that, of 32] by linarith
  with b show ?thesis by auto
qed

end
