(* ===== verification/Kernel_Main.thy ===== *)
theory Kernel_Main
  imports Thread_History Machine_Run Cpu_Control Printf_Numbers
begin

text \<open>
  The whole kernel: \<open>src/kernel/main.c\<close> over the components, \<open>cpu_init\<close> and the interrupt flag of
  \<open>cpu.c\<close>. The boot sequence ends with the first thread on its own stack.
\<close>

section \<open>State and code\<close>

record kernel =
  devices :: timer
  tasks :: kstate
  gdt :: "cpu_segment_descriptor list"
  idt :: "cpu_segment_descriptor list"
  gdtr :: cpu_pseudo_descriptor
  idtr :: cpu_pseudo_descriptor
  eflags :: u32

text \<open>Addresses of functions, labels and static arrays.\<close>

record kernel_symbols =
  thread_syms :: symbols
  sym_heap :: u32
  sym_gdt :: u32
  sym_idt :: u32
  sym_timer_fn :: u32
  sym_stack_top :: u32
  sym_default_isr :: u32
  sym_isr :: "nat \<Rightarrow> u32"

definition STORM_TIMER_FREQ :: u32 where
  "STORM_TIMER_FREQ = 100"

definition cpu_interrupts_enabled :: "kernel \<Rightarrow> bool" where
  "cpu_interrupts_enabled k \<longleftrightarrow> eflags k AND CPU_INTERRUPTS_ENABLED_FLAG \<noteq> 0"

text \<open>\<open>sti\<close> and \<open>cli\<close>.\<close>

definition cpu_enable_interrupts :: "kernel \<Rightarrow> kernel" where
  "cpu_enable_interrupts k = k\<lparr>eflags := eflags k OR CPU_INTERRUPTS_ENABLED_FLAG\<rparr>"

definition cpu_disable_interrupts :: "kernel \<Rightarrow> kernel" where
  "cpu_disable_interrupts k = k\<lparr>eflags := eflags k AND NOT CPU_INTERRUPTS_ENABLED_FLAG\<rparr>"

definition cpu_init :: "kernel_symbols \<Rightarrow> kernel \<Rightarrow> kernel" where
  "cpu_init ks k =
     (let (g, gp) = gdt_init (sym_gdt ks) (gdtr k) (gdt k);
          (i, ip) = idt_init (sym_isr ks) (sym_default_isr ks) (sym_idt ks) (idtr k) (idt k)
      in k\<lparr>gdt := g, gdtr := gp, idt := i, idtr := ip, devices := interrupts_init (devices k)\<rparr>)"

definition start_kernel :: "kernel_symbols \<Rightarrow> kernel \<Rightarrow> kernel res" where
  "start_kernel ks k =
     (let sy = thread_syms ks; k = cpu_init ks k in
      bind_res (i8259_init (devices k)) (\<lambda>d.
      bind_res (i8254_init (sym_timer_fn ks) STORM_TIMER_FREQ d) (\<lambda>d.
        let k = k\<lparr>devices := uart_init d\<rparr>;
            t = tasks k;
            t = t\<lparr>ram := heap_init (sym_free_list sy) (sym_heap ks) (ram t)\<rparr>
        in bind_res (thread_init sy t) (\<lambda>(error, t).
           bind_res (kassert (error = 0) ''!thread_init()'') (\<lambda>_.
             let k = cpu_enable_interrupts (k\<lparr>tasks := t\<rparr>)
             in bind_res (thread_start_scheduler sy (tasks k)) (\<lambda>t. Inr (k\<lparr>tasks := t\<rparr>)))))))"

text \<open>
  \<open>boot_start\<close> of \<open>boot_asm.S\<close>: the bootstrap stack and the call of \<open>start_kernel\<close>; \<open>retaddr\<close> is the
  address after the call, the loop that is never reached, since the result of \<open>start_kernel\<close> is the
  state in which the first thread runs.
\<close>

definition boot_entry :: "kernel_symbols \<Rightarrow> u32 \<Rightarrow> kernel \<Rightarrow> kernel" where
  "boot_entry ks retaddr k = k\<lparr>tasks := cdecl_call retaddr [] ((tasks k)\<lparr>esp := sym_stack_top ks\<rparr>)\<rparr>"

definition boot_start :: "kernel_symbols \<Rightarrow> u32 \<Rightarrow> kernel \<Rightarrow> kernel res" where
  "boot_start ks retaddr k = start_kernel ks (boot_entry ks retaddr k)"

text \<open>
  \<open>cpu_halt\<close> of \<open>cpu.c\<close>; \<open>wait\<close> is the state after \<open>cpu_wait_for_interrupt\<close>.
\<close>

definition cpu_halt :: "(kernel \<Rightarrow> kernel) \<Rightarrow> kernel \<Rightarrow> kernel option" where
  "cpu_halt wait k = cpu_halt_loop wait (cpu_disable_interrupts k)"

text \<open>
  \<open>panic.c\<close>: the output of \<open>panic\<close> before it halts the processor. Everywhere else a panic is the
  fault with its message.
\<close>

definition panic_print :: "'e fpu \<Rightarrow> u8 list \<Rightarrow> 'a ports_scheme \<Rightarrow> (u32 \<times> 'a ports_scheme) res" where
  "panic_print fc error s = printf fc (chrs ''Panic: %s'' @ [10]) [VStr error] s"

definition panic_run :: "'e fpu \<Rightarrow> (kernel \<Rightarrow> kernel) \<Rightarrow> u8 list \<Rightarrow> kernel \<Rightarrow> kernel res" where
  "panic_run fc wait error k =
     bind_res (panic_print fc error (devices k)) (\<lambda>(n, d). of_loop (cpu_halt wait (k\<lparr>devices := d\<rparr>)))"

lemma render_panic:
  assumes "\<forall>c \<in> set error. c \<noteq> 0"
  shows "render fc (chrs ''Panic: %s'' @ [10]) [VStr error] = Inr (chrs ''Panic: '' @ error @ [10])"
proof -
  have f: "chrs ''Panic: %s'' @ [10] = chrs ''Panic: '' @ chrs ''%s'' @ [10]" by (simp add: chrs_def)
  have "render fc (chrs ''%s'' @ [10]) [VStr error] = Inr (error @ [10])"
    using render_s [of fc "[10]" error "[]"] assms
    by (simp add: render_literal render_end chr_digits takeWhile_eq_all_conv [THEN iffD2])
  moreover have "\<forall>c \<in> set (chrs ''Panic: ''). c \<noteq> 0 \<and> c \<noteq> chr CHR ''%''"
    by (simp add: chrs_def chr_def)
  ultimately show ?thesis
    unfolding f using render_text [of "chrs ''Panic: ''" fc "chrs ''%s'' @ [10]" "[VStr error]"] by simp
qed

section \<open>The interrupt flag\<close>

lemma flag_bit: "w AND CPU_INTERRUPTS_ENABLED_FLAG \<noteq> 0 \<longleftrightarrow> bit w 9"
proof -
  have "w AND CPU_INTERRUPTS_ENABLED_FLAG = (if bit w 9 then push_bit 9 1 else 0)"
    by (rule bit_word_eqI) (auto simp: CPU_INTERRUPTS_ENABLED_FLAG_def bit_simps simp del: push_bit_of_1)
  then show ?thesis by simp
qed

lemma interrupt_flag [simp]:
  "cpu_interrupts_enabled (cpu_enable_interrupts k)" "\<not> cpu_interrupts_enabled (cpu_disable_interrupts k)"
  by (simp_all add: cpu_interrupts_enabled_def cpu_enable_interrupts_def cpu_disable_interrupts_def flag_bit)
    (simp_all add: CPU_INTERRUPTS_ENABLED_FLAG_def bit_simps)

section \<open>Booting\<close>

text \<open>
  What the linker script, \<open>boot_asm.S\<close> and the initial values of the static variables provide:
  the heap array, the list heads and the bootstrap stack do not overlap, the free list is an
  empty ring, the tables have their sizes.
\<close>

definition heap_lo :: "kernel_symbols \<Rightarrow> nat" where
  "heap_lo ks = unat (sym_heap ks)"

definition heap_hi :: "kernel_symbols \<Rightarrow> nat" where
  "heap_hi ks = unat (sym_heap ks) + 4194304"

definition boot_ok :: "kernel_symbols \<Rightarrow> kernel \<Rightarrow> bool" where
  "boot_ok ks k \<longleftrightarrow>
     (let fl = sym_free_list (thread_syms ks); t = tasks k; h = thread_list (run_queue t) in
       0 < heap_lo ks \<and> heap_hi ks < 4294967296 \<and> head_outside fl (heap_lo ks) (heap_hi ks)
       \<and> dll (ram t) fl [] \<and> node_ok h \<and> span h 8 \<inter> heap_region fl (heap_lo ks) (heap_hi ks) = {}
       \<and> boot_stack_ok (thread_syms ks) (heap_lo ks) (heap_hi ks) t
       \<and> length (gdt k) = 3 \<and> length (idt k) = 256 \<and> length (irq_handlers (devices k)) = 16)"

text \<open>Memory for a thread from a heap with one large free block.\<close>

lemma thread_mallocs:
  assumes inv: "heap_inv fl lo hi m [(a, s)] al" and big: "5000 \<le> unat s"
  obtains m1 m2 where "heap_malloc fl SIZEOF_THREAD m = Some (a + 12, m1)" "a + 12 \<noteq> 0"
    "heap_malloc fl THREAD_DEFAULT_STACK_SIZE m1 = Some (a + 52, m2)" "a + 52 \<noteq> 0"
    "heap_inv fl lo hi m2 [(a + 4148, s - 4148)] ((a + 40, 4096) # (a, 28) # al)"
proof -
  have al: "align_up SIZEOF_THREAD 4 = 28" "align_up THREAD_DEFAULT_STACK_SIZE 4 = 4096"
    by (simp_all add: align_up_def SIZEOF_THREAD_def THREAD_DEFAULT_STACK_SIZE_def)
  have s1: "unat (s - 28) = unat s - 28" "unat (s - 40) = unat s - 40" "unat (s - 4136) = unat s - 4136"
    using big by (simp_all add: unat_sub_u32)
  have "(28 :: u32) \<le> s" "(44 :: u32) \<le> s - 28" "(4096 :: u32) \<le> s - 40" "(44 :: u32) \<le> s - 4136"
    using big s1 by (simp_all add: word_le_nat_alt)
  then have sp: "spec_malloc (align_up SIZEOF_THREAD 4) [(a, s)] = Some ((a, 28), [(a + 40, s - 40)])"
    "spec_malloc (align_up THREAD_DEFAULT_STACK_SIZE 4) [(a + 40, s - 40)] =
       Some ((a + 40, 4096), [(a + 4148, s - 4148)])"
    unfolding al by (simp_all add: ac_simps)
  have pos: "0 < SIZEOF_THREAD" "0 < THREAD_DEFAULT_STACK_SIZE"
    by (simp_all add: SIZEOF_THREAD_def THREAD_DEFAULT_STACK_SIZE_def)
  obtain m1 where m1: "heap_malloc fl SIZEOF_THREAD m = Some (a + 12, m1)"
    "heap_inv fl lo hi m1 [(a + 40, s - 40)] ((a, 28) # al)"
    using heap_malloc_some [OF inv pos(1) sp(1)] by auto
  obtain m2 where m2: "heap_malloc fl THREAD_DEFAULT_STACK_SIZE m1 = Some (a + 40 + 12, m2)"
    "heap_inv fl lo hi m2 [(a + 4148, s - 4148)] ((a + 40, 4096) # (a, 28) # al)"
    using heap_malloc_some [OF m1(2) pos(2) sp(2)] by auto
  have hh: "heap_has fl lo hi m2 ((a + 40, 4096) # (a, 28) # al)" using m2(2) by (auto simp: heap_has_def)
  have "a + 12 \<noteq> 0" "a + 40 + 12 \<noteq> 0"
    using kheap.inv_data [OF hh, of "(a, 28)"] kheap.inv_data [OF hh, of "(a + 40, 4096)"] by simp_all
  moreover have "a + 40 + 12 = a + 52" by simp
  ultimately show thesis using m1(1) m2 by (intro that [of m1 m2]) simp_all
qed

text \<open>The blocks of a thread created from them.\<close>

lemma thread_blocks:
  assumes "heap_inv fl lo hi m2 bs ((a + 40, 4096) # (a, 28) # al)"
    and "heap_has fl lo hi m' (sblk ti # tblk ti # al)" "taddr ti = a + 12" "fst (sblk ti) + 12 = a + 52"
    and same: "\<And>x. x \<notin> (\<Union>b \<in> set (sblk ti # tblk ti # al). data_bytes b) \<Longrightarrow> x \<in> heap_region fl lo hi \<Longrightarrow> m' x = m2 x"
  shows "tblk ti = (a, 28)" "sblk ti = (a + 40, 4096)" "heap_inv fl lo hi m' bs (sblk ti # tblk ti # al)"
proof -
  have f: "fst (tblk ti) = a" "fst (sblk ti) = a + 40"
    using assms(3,4) by (simp_all add: taddr_def eq_diff_eq [symmetric])
  obtain bs' where i: "heap_inv fl lo hi m' bs' (sblk ti # tblk ti # al)" using assms(2) by (auto simp: heap_has_def)
  then have g: "heap_geom lo hi bs' (sblk ti # tblk ti # al)" "head_outside fl lo hi" by (simp_all add: heap_inv_def)
  have hdr: "node_size m' (fst b) = node_size m2 (fst b)" if "b \<in> {tblk ti, sblk ti}" for b
    unfolding node_size_def
  proof (rule load32_cong)
    note e = data_bytes_extent [OF g(1), of b]
    have b: "b \<in> set (sblk ti # tblk ti # al)" using that by auto
    show "aligned4 (fst b + 8)" using g(1) b by (auto simp: heap_geom_def block_ok_def aligned4_plus aligned4_numerals)
    fix x assume x: "x \<in> span (fst b + 8) 4"
    have e1: "unat (fst b + 12) = unat (fst b) + 12" using e(1) b by auto
    have "unat (fst b) + 12 < 4294967296" unfolding e1 [symmetric] by (rule unat_u32_less)
    then have "unat (fst b + 8) = unat (fst b) + 8" by (simp add: addr_simps)
    then have xs: "x \<in> span (fst b) 12" "x \<in> extent b" using x e(1) b by (auto simp: span_def extent_def block_end_def)
    have "x \<notin> data_bytes c" if c: "c \<in> set (sblk ti # tblk ti # al)" for c
    proof (cases "c = b")
      case True
      then show ?thesis using xs(1) e(3) b by auto
    next
      case False
      then have "separate c b" using g(1) b c
        by (intro sorted_wrt_separate_pair [of "bs' @ sblk ti # tblk ti # al"]) (auto simp: heap_geom_def)
      then have "extent c \<inter> extent b = {}" by (rule separate_extents)
      then show ?thesis using data_bytes_extent(2) [OF g(1), of c] c xs(2) by auto
    qed
    moreover have "x \<in> heap_region fl lo hi" using e(5) b xs(2) by (auto simp: heap_region_def)
    ultimately show "m' x = m2 x" by (intro same) auto
  qed
  have "snd (tblk ti) = 28" "snd (sblk ti) = 4096"
    using hdr [of "tblk ti"] hdr [of "sblk ti"] i assms(1) f by (simp_all add: heap_inv_def)
  then show t: "tblk ti = (a, 28)" "sblk ti = (a + 40, 4096)" using f by (auto intro: prod_eqI)
  show "heap_inv fl lo hi m' bs (sblk ti # tblk ti # al)"
    by (rule heap_inv_frame [OF assms(1) [folded t]]) (use same in auto)
qed

text \<open>The drivers, in the order of \<open>start_kernel\<close>.\<close>

lemma uart_init_irqs [simp]:
  "irqs_ok cs (uart_init d) = irqs_ok cs d" "irq_masked (uart_init d) = irq_masked d"
  "handler_of (uart_init d) = handler_of d" "i8254_freq (uart_init u) = i8254_freq u"
  "i8254_tick_count (uart_init u) = i8254_tick_count u"
  by (simp_all add: uart_init_def Let_def uart_defs irqs_other_port)

lemma boot_devices:
  assumes "length (irq_handlers d) = 16" "tf \<noteq> 0"
  obtains d1 d2 where "i8259_init (interrupts_init d) = Inr d1" "i8254_init tf STORM_TIMER_FREQ d1 = Inr d2"
    "drv_ok tf cs (uart_init d2)" "\<forall>n < 16. irq_masked (uart_init d2) n \<longleftrightarrow> n \<noteq> 0 \<and> n \<noteq> 2"
    "\<forall>n < 16. fst (handler_of (uart_init d2) n) = (if n = 0 then tf else 0)"
    "i8254_freq (uart_init d2) = 100" "i8254_tick_count (uart_init d2) = i8254_tick_count d"
proof -
  obtain d1 where d1: "i8259_init (interrupts_init d) = Inr d1" "pics_ok cs d1"
    "\<forall>k < 16. irq_masked d1 k \<longleftrightarrow> k \<noteq> 2"
    using i8259_init_ok [of "interrupts_init d" cs] by auto
  note h1 = i8259_init_handlers [OF d1(1)] and z = interrupts_init_ok [OF assms(1)]
  have t1: "i8254_tick_count d1 = i8254_tick_count d"
    using i8259_init_ticks [OF d1(1)] by (simp add: interrupts_init_def)
  have "irqs_ok cs d1" using d1(2) h1 z(1) by (simp add: irqs_ok_def)
  moreover have "STORM_TIMER_FREQ \<noteq> 0" by (simp add: STORM_TIMER_FREQ_def)
  ultimately obtain d2 where d2: "i8254_init tf STORM_TIMER_FREQ d1 = Inr d2" "irqs_ok cs d2"
    "handler_of d2 0 = (tf, 0)" "i8254_freq d2 = STORM_TIMER_FREQ" "i8254_tick_count d2 = i8254_tick_count d1"
    "\<forall>k < 16. irq_masked d2 k \<longleftrightarrow> irq_masked d1 k \<and> k \<noteq> 0" "\<forall>k < 16. k \<noteq> 0 \<longrightarrow> handler_of d2 k = handler_of d1 k"
    using i8254_init_ok [of STORM_TIMER_FREQ cs d1 tf] by auto
  have "handler_of d1 k = handler_of (interrupts_init d) k" for k by (simp add: handler_of_def h1)
  then have h: "fst (handler_of d2 n) = (if n = 0 then tf else 0)" if "n < 16" for n
    using d2(3,7) z(2) that by simp
  show thesis
  proof (rule that [OF d1(1) d2(1)])
    show "drv_ok tf cs (uart_init d2)" using d2(2) h by (simp add: drv_ok_def)
    show "\<forall>n < 16. irq_masked (uart_init d2) n \<longleftrightarrow> n \<noteq> 0 \<and> n \<noteq> 2" using d2(6) d1(3) by auto
  qed (use h d2(4,5) t1 in \<open>simp_all add: STORM_TIMER_FREQ_def\<close>)
qed

lemma thread_init_frame:
  assumes "thread_init sy s = Inr (0, s')"
  shows "esp s' = esp s" "thread_list (run_queue s') = thread_list (run_queue s)"
proof -
  obtain p s1 where c: "idle_thread_create sy s = Inr (0, p, s1)"
    and s': "esp s' = esp s1" "thread_list (run_queue s') = thread_list (run_queue s1)"
    using assms by (auto simp: thread_init_def bind_res_Inr_iff Let_def thread_run_queue_init_def
        split: if_splits option.splits)
  have "esp s1 = esp s \<and> run_queue s1 = run_queue s"
    using c create_failed_code
    by (auto simp: idle_thread_create_def bind_res_Inr_iff split: if_splits)
  with s' show "esp s' = esp s" "thread_list (run_queue s') = thread_list (run_queue s)" by simp_all
qed

lemma boot_tasks:
  fixes t ks
  defines "sy \<equiv> thread_syms ks"
  defines "t0 \<equiv> t\<lparr>ram := heap_init (sym_free_list sy) (sym_heap ks) (ram t)\<rparr>"
  assumes h: "0 < heap_lo ks" "heap_hi ks < 4294967296" "head_outside (sym_free_list sy) (heap_lo ks) (heap_hi ks)"
    and d: "dll (ram t) (sym_free_list sy) []" and n: "node_ok (thread_list (run_queue t))"
      "span (thread_list (run_queue t)) 8 \<inter> heap_region (sym_free_list sy) (heap_lo ks) (heap_hi ks) = {}"
    and b: "boot_stack_ok sy (heap_lo ks) (heap_hi ks) t"
  obtains idl t1 t2 where "thread_init sy t0 = Inr (0, t1)" "thread_start_scheduler sy t1 = Inr t2"
    "sched_run sy (heap_lo ks) (heap_hi ks) t2 [sblk idl, tblk idl] idl [] [taddr idl]"
    "enters_main sy t2 idl" "tfn idl = sym_idle_thread_fn sy" "targ idl = 0" "current_thread t2 = taddr idl"
proof -
  let ?lo = "heap_lo ks" and ?hi = "heap_hi ks" and ?a = "align_up (sym_heap ks) 4"
  let ?s = "sym_heap ks + HEAP_SIZE - ?a - 12"
  have i: "heap_inv (sym_free_list sy) ?lo ?hi (ram t0) [(?a, ?s)] []"
    using heap_init_inv [of "sym_heap ks" "sym_free_list sy" "ram t"] h d
    by (simp add: heap_lo_def heap_hi_def t0_def)
  then have hh: "heap_has (sym_free_list sy) ?lo ?hi (ram t0) []" by (auto simp: heap_has_def)
  have "5000 \<le> unat ?s"
  proof -
    have a: "unat ?a < unat (sym_heap ks) + 4" "unat (sym_heap ks) \<le> unat ?a"
      using align_up_bounds [of "sym_heap ks"] h(2) by (simp_all add: heap_hi_def)
    have e: "unat (sym_heap ks + HEAP_SIZE) = unat (sym_heap ks) + 4194304"
      using h(2) by (simp add: heap_hi_def HEAP_SIZE_def addr_simps)
    then have "unat (sym_heap ks + HEAP_SIZE - ?a) = unat (sym_heap ks) + 4194304 - unat ?a"
      using a by (simp add: unat_sub_u32)
    then show ?thesis using a by (simp add: unat_sub_u32)
  qed
  then obtain m1 m2 where
    m: "heap_malloc (sym_free_list sy) SIZEOF_THREAD (ram t0) = Some (?a + 12, m1)" "?a + 12 \<noteq> 0"
    "heap_malloc (sym_free_list sy) THREAD_DEFAULT_STACK_SIZE m1 = Some (?a + 52, m2)" "?a + 52 \<noteq> 0"
    by (rule thread_mallocs [OF i])
  have q: "run_queue t0 = run_queue t" "esp t0 = esp t" by (simp_all add: t0_def)
  obtain idl t1 where t1: "thread_init sy t0 = Inr (0, t1)" "tfn idl = sym_idle_thread_fn sy" "targ idl = 0"
    "sched_inv sy ?lo ?hi t1 [sblk idl, tblk idl] idl [] []"
    by (rule thread_init_ok [OF hh _ _ m]) (use n q in auto)
  have r1: "sched_run sy ?lo ?hi t1 [sblk idl, tblk idl] idl [] []"
    by (rule sched_run.init [OF hh _ _ t1(1) _ sched_describes [OF t1(4)]])
      (use n q t1(4) in \<open>auto simp: sched_inv_def\<close>)
  have b1: "boot_stack_ok sy ?lo ?hi t1"
    using b thread_init_frame [OF t1(1)] q by (simp add: boot_stack_ok_def)
  obtain t2 where t2: "thread_start_scheduler sy t1 = Inr t2" "enters_main sy t2 idl"
    "sched_state sy ?lo ?hi t2 [sblk idl, tblk idl] idl [] [current_thread t2]"
    by (rule state_start [OF sched_run_state [OF r1] b1]) simp
  have c: "current_thread t2 = taddr idl" using sched_stateD(3) [OF t2(3)] by simp
  have "sched_run sy ?lo ?hi t2 [sblk idl, tblk idl] idl [] [current_thread t2]"
    by (rule sched_run.start [OF r1 b1 t2(1)])
  with t1 t2 c that show thesis by simp
qed

text \<open>The boot as a whole: the drivers and the threads, side by side.\<close>

lemma start_kernel_ok:
  assumes "boot_ok ks k" "sym_timer_fn ks \<noteq> 0"
  obtains k' idl where "start_kernel ks k = Inr k'"
    "sched_run (thread_syms ks) (heap_lo ks) (heap_hi ks) (tasks k') [sblk idl, tblk idl] idl [] [taddr idl]"
    "enters_main (thread_syms ks) (tasks k') idl" "tfn idl = sym_idle_thread_fn (thread_syms ks)"
    "cpu_interrupts_enabled k'" "drv_ok (sym_timer_fn ks) cs (devices k')"
    "\<forall>n < 16. irq_masked (devices k') n \<longleftrightarrow> n \<noteq> 0 \<and> n \<noteq> 2"
    "\<forall>n < 16. fst (handler_of (devices k') n) = (if n = 0 then sym_timer_fn ks else 0)"
    "i8254_freq (devices k') = 100" "i8254_tick_count (devices k') = i8254_tick_count (devices k)"
    "irq_gates (sym_isr ks) (idt k')"
proof -
  obtain d1 d2 where d: "i8259_init (interrupts_init (devices k)) = Inr d1"
    "i8254_init (sym_timer_fn ks) STORM_TIMER_FREQ d1 = Inr d2" "drv_ok (sym_timer_fn ks) cs (uart_init d2)"
    "\<forall>n < 16. irq_masked (uart_init d2) n \<longleftrightarrow> n \<noteq> 0 \<and> n \<noteq> 2"
    "\<forall>n < 16. fst (handler_of (uart_init d2) n) = (if n = 0 then sym_timer_fn ks else 0)"
    "i8254_freq (uart_init d2) = 100" "i8254_tick_count (uart_init d2) = i8254_tick_count (devices k)"
    by (rule boot_devices [of "devices k" "sym_timer_fn ks" cs]) (use assms in \<open>simp_all add: boot_ok_def Let_def\<close>)
  obtain idl t1 t2 where t: "thread_init (thread_syms ks) ((tasks k)\<lparr>ram := heap_init
      (sym_free_list (thread_syms ks)) (sym_heap ks) (ram (tasks k))\<rparr>) = Inr (0, t1)"
    "thread_start_scheduler (thread_syms ks) t1 = Inr t2"
    "sched_run (thread_syms ks) (heap_lo ks) (heap_hi ks) t2 [sblk idl, tblk idl] idl [] [taddr idl]"
    "enters_main (thread_syms ks) t2 idl" "tfn idl = sym_idle_thread_fn (thread_syms ks)"
    by (rule boot_tasks [of ks "tasks k"]) (use assms(1) in \<open>simp_all add: boot_ok_def Let_def\<close>)
  have c: "devices (cpu_init ks k) = interrupts_init (devices k)" "tasks (cpu_init ks k) = tasks k"
    by (simp_all add: cpu_init_def case_prod_beta Let_def)
  define k1 where "k1 = (cpu_init ks k)\<lparr>devices := uart_init d2, tasks := t1\<rparr>"
  define k' where "k' = (cpu_enable_interrupts k1)\<lparr>tasks := t2\<rparr>"
  have "start_kernel ks k = Inr k'"
    using d(1,2) t(1,2) c by (simp add: start_kernel_def Let_def k1_def k'_def cpu_enable_interrupts_def)
  moreover have "cpu_interrupts_enabled k'"
    using interrupt_flag(1) [of k1] by (simp add: k'_def cpu_interrupts_enabled_def)
  moreover have "irq_gates (sym_isr ks) (idt k')"
    using idt_init_gates [of "idt k"] assms(1)
    by (simp add: k'_def k1_def cpu_enable_interrupts_def cpu_init_def case_prod_beta Let_def boot_ok_def)
  moreover have "devices k' = uart_init d2" "tasks k' = t2"
    by (simp_all add: k'_def k1_def cpu_enable_interrupts_def)
  ultimately show thesis using that [of k' idl] d t by simp
qed

text \<open>The idle thread never gives the processor back to \<open>thread_main\<close>.\<close>

lemma idle_main: "thread_main sy (\<lambda>s. of_loop (idle_thread_fn wait arg s)) s = Inl Diverges"
  by (simp add: thread_main_def idle_loop_none)

section \<open>Interrupts after the boot\<close>

text \<open>The memory whose contents the kernel relies on: the heap with its list, and the head of the run queue.\<close>

definition kernel_memory :: "kernel_symbols \<Rightarrow> kernel \<Rightarrow> u32 set" where
  "kernel_memory ks k = heap_region (sym_free_list (thread_syms ks)) (heap_lo ks) (heap_hi ks)
     \<union> span (thread_list (run_queue (tasks k))) 8"

text \<open>
  The processor at some point of the thread \<open>c\<close>, which has room for \<open>n\<close> bytes of interrupt frames on its stack.
\<close>

definition cpu_in_thread :: "kernel \<Rightarrow> tinfo \<Rightarrow> nat \<Rightarrow> icpu \<Rightarrow> bool" where
  "cpu_in_thread k c n p \<longleftrightarrow> stack_free p c n \<and> n < 4294967296 \<and> ram p = ram (tasks k) \<and> flags_reg p = eflags k"

lemma interrupts_in_thread:
  assumes p: "cpu_in_thread k c n p" "ENTRY_BYTES + m \<le> n" and e: "cpu_interrupts_enabled k"
    and xs: "\<forall>(irq, main) \<in> set xs. irq < 16 \<and> isr_function (kernel_memory ks k) m main"
    and hh: "heap_has (sym_free_list (thread_syms ks)) (heap_lo ks) (heap_hi ks) (ram (tasks k)) al" "sblk c \<in> set al"
    and d: "drv_ok (sym_timer_fn ks) cs (devices k)" "irq_gates (sym_isr ks) (idt k)"
      "\<forall>n < 16. fst (handler_of (devices k) n) = (if n = 0 then sym_timer_fn ks else 0)" "sym_timer_fn ks \<noteq> 0"
  shows "\<exists>p' d. take_interrupts (sym_timer_fn ks) (sym_isr ks) (idt k) retaddr xs (p, devices k) = Inr (p', d)
    \<and> p' = p\<lparr>ram := ram p'\<rparr>
    \<and> heap_has (sym_free_list (thread_syms ks)) (heap_lo ks) (heap_hi ks) (ram p') al
    \<and> (\<forall>x \<in> kernel_memory ks k. x \<notin> span (esp p - of_nat n) n \<longrightarrow> ram p' x = ram p x) \<and> irqs_ok cs d
    \<and> handler_of d = handler_of (devices k) \<and> irq_masked d = irq_masked (devices k) \<and> i8254_freq d = i8254_freq (devices k)
    \<and> i8254_tick_count d = i8254_tick_count (devices k) + of_nat (length (filter (\<lambda>x. fst x = 0) xs))
    \<and> master_eois cs d = master_eois cs (devices k) + length xs"
proof -
  have f: "aligned4 (esp p)" "n \<le> unat (esp p)" "span (esp p - of_nat n) n \<subseteq> data_bytes (sblk c)" "n < 4294967296"
    "ram p = ram (tasks k)" using p(1) by (simp_all add: cpu_in_thread_def stack_free_def)
  have i: "bit (flags_reg p) 9" using e p(1) by (simp add: cpu_interrupts_enabled_def cpu_in_thread_def flag_bit)
  have h: "\<forall>n < 16. fst (handler_of (devices k) n) \<noteq> 0 \<longleftrightarrow> n = 0" using d(3,4) by simp
  obtain p' d' where r: "take_interrupts (sym_timer_fn ks) (sym_isr ks) (idt k) retaddr xs (p, devices k) = Inr (p', d')"
    "p' = p\<lparr>ram := ram p'\<rparr>" "\<forall>x \<in> kernel_memory ks k. x \<notin> span (esp p - of_nat n) n \<longrightarrow> ram p' x = ram p x"
    "drv_ok (sym_timer_fn ks) cs d'" "handler_of d' = handler_of (devices k)" "irq_masked d' = irq_masked (devices k)"
    "i8254_freq d' = i8254_freq (devices k)"
    "i8254_tick_count d' = i8254_tick_count (devices k) + of_nat (length (filter (\<lambda>x. fst x = 0) xs))"
    "master_eois cs d' = master_eois cs (devices k) + length xs"
    using take_interrupts_ok [OF d(1) xs d(2) f(1) i p(2) f(2,4) h] by blast
  have "heap_has (sym_free_list (thread_syms ks)) (heap_lo ks) (heap_hi ks) (ram p') al"
  proof (rule kheap.inv_frame [OF hh(1)])
    fix x assume "x \<notin> (\<Union>b \<in> set al. data_bytes b)"
      "x \<in> heap_region (sym_free_list (thread_syms ks)) (heap_lo ks) (heap_hi ks)"
    then show "ram p' x = ram (tasks k) x" using r(3) f(3,5) hh(2) by (auto simp: kernel_memory_def)
  qed
  with r show ?thesis unfolding drv_ok_def by blast
qed

end
