(* ===== verification/Storm_Example.thy ===== *)
theory Storm_Example
  imports Kernel_Main Thread_Interrupt
begin

text \<open>
  One concrete layout of the kernel in memory, its boot state, and a run of the scheduler on it: the
  instances at which the theorems of the library are applied.
\<close>

definition ex_sy :: symbols where
  "ex_sy = \<lparr>sym_free_list = 0x1000, sym_thread_main = 0x500, sym_idle_thread_fn = 0x600,
     sym_idle_name = 0x700, ret_context_switch = 0x800, ret_load_first = 0x900\<rparr>"

definition ex_ks :: kernel_symbols where
  "ex_ks = \<lparr>thread_syms = ex_sy, sym_heap = 0x200000, sym_gdt = 0x2000, sym_idt = 0x2100,
     sym_timer_fn = 0xA00, sym_stack_top = 0x3004, sym_default_isr = 0xB00, sym_isr = (\<lambda>n. 0xC00 + of_nat (16 * n))\<rparr>"

definition ex_mem :: mem where
  "ex_mem = free_list_static 0x1000 (\<lambda>_. 0)"

definition ex_task :: kstate where
  "ex_task = \<lparr>eax = 0, ecx = 0, edx = 0, ebx = 0, esp = 0x3000, ebp = 0, esi = 0, edi = 0, eip = 0x400,
     ram = ex_mem, run_queue = \<lparr>thread_list = 0x1100, no_threads = 0\<rparr>, idle_thread = 0, current_thread = 0,
     global_id_counter = 0\<rparr>"

definition ex_pic :: i8259_pic where
  "ex_pic = \<lparr>cmd_port = 0, data_port = 0, imr = 0\<rparr>"

definition ex_ports :: ports where
  "ex_ports = \<lparr>port_log = []\<rparr>"

definition ex_timer :: timer where
  "ex_timer = \<lparr>port_log = [], master_pic = ex_pic, slave_pic = ex_pic,
     irq_handlers = replicate 16 \<lparr>hfn = 0, harg = 0\<rparr>, i8254_tick_count = 0, i8254_freq = 0\<rparr>"

definition ex_desc :: cpu_segment_descriptor where
  "ex_desc = \<lparr>low = 0, high = 0\<rparr>"

definition ex_kernel :: kernel where
  "ex_kernel = \<lparr>devices = ex_timer, tasks = ex_task, gdt = replicate 3 ex_desc, idt = replicate 256 ex_desc,
     gdtr = \<lparr>limit = 0, base = 0\<rparr>, idtr = \<lparr>limit = 0, base = 0\<rparr>, eflags = 2\<rparr>"

definition ex_controllers :: "controller \<times> controller" where
  "ex_controllers = (let c = \<lparr>pending = 0, offset = 0, cascade = 0, pmode = 0, mask = 0, eois = 0\<rparr> in (c, c))"

definition ex_line :: serial_line where
  "ex_line = \<lparr>line_control = 0, divisor_low = 0, divisor_high = 0, sent = []\<rparr>"

abbreviation ex_lo :: nat where "ex_lo \<equiv> 2097152"
abbreviation ex_hi :: nat where "ex_hi \<equiv> 6291456"

lemma ex_head: "head_outside 0x1000 ex_lo ex_hi"
  by (simp add: head_outside_def node_ok_def aligned4_def)

lemma ex_dll: "dll ex_mem 0x1000 []"
  unfolding ex_mem_def by (rule free_list_static_dll) (simp add: node_ok_def aligned4_def)

lemma ex_queue_head: "node_ok (0x1100 :: u32)" "span (0x1100 :: u32) 8 \<inter> heap_region 0x1000 ex_lo ex_hi = {}"
  by (auto simp: node_ok_def aligned4_def span_def heap_region_def)

lemma ex_boot_stack: "boot_stack_ok ex_sy ex_lo ex_hi s"
  if "esp s = 0x3000" "thread_list (run_queue s) = 0x1100"
  using that by (auto simp: boot_stack_ok_def ex_sy_def aligned4_def span_def heap_region_def)

lemma ex_boot: "boot_ok ex_ks (boot_entry ex_ks retaddr ex_kernel)"
proof -
  let ?t = "tasks (boot_entry ex_ks retaddr ex_kernel)"
  have t: "esp ?t = 0x3000" "run_queue ?t = run_queue ex_task" "ram ?t = store32 ex_mem 0x3000 retaddr"
    by (simp_all add: boot_entry_def cdecl_call_def push32_def ex_ks_def ex_kernel_def ex_task_def)
  have "dll (ram ?t) 0x1000 []"
    unfolding t(3)
  proof (rule dll_cong [OF _ ex_dll], rule store32_outside)
    fix x assume "x \<in> nodes_span [0x1000 :: u32]"
    then show "x \<notin> span (0x3000 :: u32) 4" by (simp add: nodes_span_def span_def)
  qed (simp add: aligned4_def)
  then show ?thesis
    using ex_head ex_queue_head ex_boot_stack [of ?t] t(1,2)
    by (simp add: boot_ok_def ex_ks_def ex_sy_def boot_entry_def ex_kernel_def ex_task_def ex_timer_def heap_lo_def
        heap_hi_def Let_def)
qed

definition ex_heap :: mem where
  "ex_heap = heap_init 0x1000 0x200000 ex_mem"

lemma ex_heap_inv: "heap_inv 0x1000 ex_lo ex_hi ex_heap [(0x200000, 4194292)] []"
proof -
  have "align_up 0x200000 4 = 0x200000" by (simp add: align_up_def)
  then show ?thesis
    using heap_init_inv [of "0x200000" "0x1000" ex_mem] ex_head ex_dll
    by (simp add: ex_heap_def HEAP_SIZE_def)
qed

lemma ex_heap_has: "heap_has 0x1000 ex_lo ex_hi ex_heap []"
  using ex_heap_inv by (auto simp: heap_has_def)

text \<open>Initialisation, and the creation of one thread.\<close>

lemma ex_init:
  obtains idl s where "thread_init ex_sy (ex_task\<lparr>ram := ex_heap\<rparr>) = Inr (0, s)"
    "sched_run ex_sy ex_lo ex_hi s [sblk idl, tblk idl] idl [] []"
    "heap_inv 0x1000 ex_lo ex_hi (ram s) [(0x201034, 4190144)] [sblk idl, tblk idl]"
    "esp s = 0x3000" "thread_list (run_queue s) = 0x1100"
proof -
  let ?s0 = "ex_task\<lparr>ram := ex_heap\<rparr>"
  have sy: "sym_free_list ex_sy = 0x1000" by (simp add: ex_sy_def)
  have q: "thread_list (run_queue ?s0) = 0x1100" "esp ?s0 = 0x3000" by (simp_all add: ex_task_def)
  have hh: "heap_has (sym_free_list ex_sy) ex_lo ex_hi (ram ?s0) []" using ex_heap_has sy by simp
  obtain m1 m2 where m: "heap_malloc 0x1000 SIZEOF_THREAD ex_heap = Some (0x200000 + 12, m1)" "(0x200000 + 12 :: u32) \<noteq> 0"
    "heap_malloc 0x1000 THREAD_DEFAULT_STACK_SIZE m1 = Some (0x200000 + 52, m2)" "(0x200000 + 52 :: u32) \<noteq> 0"
    "heap_inv 0x1000 ex_lo ex_hi m2 [(0x200000 + 4148, 4194292 - 4148)] [(0x200000 + 40, 4096), (0x200000, 28)]"
    by (rule thread_mallocs [OF ex_heap_inv]) simp
  obtain idl s where s: "thread_init ex_sy ?s0 = Inr (0, s)" "taddr idl = 0x200000 + 12"
    "sched_inv ex_sy ex_lo ex_hi s [sblk idl, tblk idl] idl [] []" "fst (sblk idl) + 12 = 0x200000 + 52"
    "\<And>x. x \<notin> (\<Union>b \<in> set [sblk idl, tblk idl]. data_bytes b) \<Longrightarrow> x \<in> heap_region 0x1000 ex_lo ex_hi \<Longrightarrow> ram s x = m2 x"
    by (rule thread_init_ok [OF hh, of "0x200000 + 12" m1 "0x200000 + 52" m2])
      (use m q ex_queue_head sy in auto)
  have hs: "heap_has 0x1000 ex_lo ex_hi (ram s) [sblk idl, tblk idl]" using s(3) sy by (simp add: sched_inv_def)
  have "heap_inv 0x1000 ex_lo ex_hi (ram s) [(0x200000 + 4148, 4194292 - 4148)] [sblk idl, tblk idl]"
    by (rule thread_blocks(3) [OF m(5) hs s(2,4,5)])
  moreover have "sched_run ex_sy ex_lo ex_hi s [sblk idl, tblk idl] idl [] []"
    by (rule sched_run.init [OF hh _ _ s(1) _ sched_describes [OF s(3)]])
      (use q ex_queue_head sy s(3) in \<open>auto simp: sched_inv_def\<close>)
  ultimately show thesis
    using s(1) thread_init_frame [OF s(1)] q by (intro that [of s idl]) simp_all
qed

lemma ex_create:
  obtains idl ti s where "sched_run ex_sy ex_lo ex_hi s [sblk ti, tblk ti, sblk idl, tblk idl] idl [ti] []"
    "tblk ti = (0x201034, 28)" "sblk ti = (0x20105C, 4096)" "tfn ti = 0xD00" "targ ti = 7"
    "esp s = 0x3000" "thread_list (run_queue s) = 0x1100"
proof -
  obtain idl s where i: "sched_run ex_sy ex_lo ex_hi s [sblk idl, tblk idl] idl [] []"
    "heap_inv 0x1000 ex_lo ex_hi (ram s) [(0x201034, 4190144)] [sblk idl, tblk idl]"
    "esp s = 0x3000" "thread_list (run_queue s) = 0x1100"
    by (rule ex_init)
  have sy: "sym_free_list ex_sy = 0x1000" by (simp add: ex_sy_def)
  have inv: "sched_inv ex_sy ex_lo ex_hi s [sblk idl, tblk idl] idl [] []"
    using sched_stateD(1) [OF sched_run_state [OF i(1)]] by simp
  obtain m1 m2 where m: "heap_malloc 0x1000 SIZEOF_THREAD (ram s) = Some (0x201034 + 12, m1)" "(0x201034 + 12 :: u32) \<noteq> 0"
    "heap_malloc 0x1000 THREAD_DEFAULT_STACK_SIZE m1 = Some (0x201034 + 52, m2)" "(0x201034 + 52 :: u32) \<noteq> 0"
    "heap_inv 0x1000 ex_lo ex_hi m2 [(0x201034 + 4148, 4190144 - 4148)] ((0x201034 + 40, 4096) # (0x201034, 28) # [sblk idl, tblk idl])"
    by (rule thread_mallocs [OF i(2)]) simp
  obtain ti s' where s': "thread_create ex_sy 0xE00 0xD00 7 s = Inr (0, Some (0x201034 + 12), s')"
    "taddr ti = 0x201034 + 12" "tfn ti = 0xD00" "targ ti = 7"
    "sched_inv ex_sy ex_lo ex_hi s' [sblk ti, tblk ti, sblk idl, tblk idl] idl ([] @ [ti]) []"
    "fst (sblk ti) + 12 = 0x201034 + 52"
    "\<And>x. x \<notin> (\<Union>b \<in> set [sblk ti, tblk ti, sblk idl, tblk idl]. data_bytes b) \<Longrightarrow>
       x \<in> heap_region 0x1000 ex_lo ex_hi \<Longrightarrow> ram s' x = m2 x"
    "esp s' = esp s" "thread_list (run_queue s') = thread_list (run_queue s)"
    by (rule thread_create_ok [OF inv, of "0x201034 + 12" m1 "0x201034 + 52" m2 "0xE00" "0xD00" 7])
      (use m sy in auto)
  have hs: "heap_has 0x1000 ex_lo ex_hi (ram s') [sblk ti, tblk ti, sblk idl, tblk idl]"
    using s'(5) sy by (simp add: sched_inv_def)
  note b = thread_blocks [OF m(5) hs s'(2,6,7)]
  have "sched_run ex_sy ex_lo ex_hi s' (sblk ti # tblk ti # [sblk idl, tblk idl]) idl ([] @ [ti]) []"
    by (rule sched_run.create [OF i(1) _ s'(1) [folded s'(2)] sched_describes [OF s'(5)]])
      (simp_all add: idling_def)
  with b s' i that show thesis by simp
qed

lemma stack_room_free: "stack_room s c \<longleftrightarrow> stack_free s c 28"
  by (simp add: stack_room_def stack_free_def)

text \<open>The created thread is running.\<close>

lemma ex_running:
  obtains idl ti s al where "sched_run ex_sy ex_lo ex_hi s al idl [ti] [taddr ti]" "current_thread s = taddr ti"
    "stack_room s ti" "\<not> idling idl [taddr ti]" "tfn ti = 0xD00" "stack_free s ti 4000"
proof -
  obtain idl ti s where i: "sched_run ex_sy ex_lo ex_hi s [sblk ti, tblk ti, sblk idl, tblk idl] idl [ti] []"
    "tfn ti = 0xD00" "esp s = 0x3000" "thread_list (run_queue s) = 0x1100"
    by (rule ex_create)
  let ?al = "[sblk ti, tblk ti, sblk idl, tblk idl]"
  have b: "boot_stack_ok ex_sy ex_lo ex_hi s" using i(3,4) by (rule ex_boot_stack)
  obtain s' where s': "thread_start_scheduler ex_sy s = Inr s'"
    "sched_state ex_sy ex_lo ex_hi s' ?al idl [ti] [current_thread s']" "enters_main ex_sy s' (([ti] @ [idl]) ! 0)"
    by (rule state_start [OF sched_run_state [OF i(1)] b]) simp
  note d = sched_stateD [OF s'(2)]
  have c: "current_thread s' = taddr ti" using d(3) by simp
  have r: "sched_run ex_sy ex_lo ex_hi s' ?al idl [ti] [taddr ti]"
    using sched_run.start [OF i(1) b s'(1)] c by simp
  have f: "stack_free s' ti n" if "n \<le> 4084" for n
    by (rule entered_free [OF _ d(5) owns_member(2,3) [OF d(2)] that]) (use s'(3) in simp_all)
  then have "stack_room s' ti" "stack_free s' ti 4000" by (simp_all add: stack_room_free)
  moreover have "\<not> idling idl [taddr ti]" using d(6) by (simp add: idling_def)
  ultimately show thesis using r c i(2) that by blast
qed

text \<open>A processor interrupted, and a handler that changes the registers a C function may change, and returns.\<close>

definition ex_icpu :: icpu where
  "ex_icpu = \<lparr>eax = 1, ecx = 2, edx = 3, ebx = 4, esp = 0x9000, ebp = 5, esi = 6, edi = 7, eip = 0x400, ram = \<lambda>_. 0,
     seg_cs = 8, flags_reg = 0x202\<rparr>"

definition ex_main :: "icpu \<Rightarrow> icpu" where
  "ex_main c = c\<lparr>eax := 0, ecx := 0, edx := 0, esp := esp c + 4\<rparr>"

end
