(* ===== verification/Thread_Properties.thy ===== *)
theory Thread_Properties
  imports Storm_Example
begin

text \<open>
  The properties of the thread module: order of execution, exit, creation, the run queue and
  context switches, each followed by its instance on the layout of \<open>Storm_Example\<close>.
\<close>



text \<open>
  C2. When a thread returns from its function, the exit path of \<open>thread_main\<close> never panics or
  loops: it loads the next created thread (or the idle thread), which is at the entry of
  \<open>thread_main\<close> with its function and argument on its own stack.
\<close>

theorem thread_exit_switches:
  assumes "sched_run sy lo hi s al idl cr tr" "tr \<noteq> []" "\<not> idling idl tr"
    "c \<in> set cr" "taddr c = current_thread s" "stack_room s c"
  shows "\<exists>s'. thread_main_exit sy (current_thread s) s = Inr s'
     \<and> sched_run sy lo hi s' al idl cr (tr @ [current_thread s'])
     \<and> enters_main sy s' ((cr @ [idl]) ! length tr)"
proof -
  obtain s' where s': "thread_main_exit sy (current_thread s) s = Inr s'"
    "enters_main sy s' ((cr @ [idl]) ! length tr)"
    by (rule state_exit [OF sched_run_state [OF assms(1)] assms(2-6)])
  from s' sched_run.exit [OF assms s'(1)] show ?thesis by blast
qed

theorem thread_exit_switches_witness:
  "\<exists>s al idl ti s'. sched_run ex_sy ex_lo ex_hi s al idl [ti] [taddr ti]
     \<and> thread_main_exit ex_sy (current_thread s) s = Inr s'
     \<and> enters_main ex_sy s' (([ti] @ [idl]) ! length [taddr ti])"
proof -
  obtain idl ti s al where r: "sched_run ex_sy ex_lo ex_hi s al idl [ti] [taddr ti]"
    "current_thread s = taddr ti" "stack_room s ti" "\<not> idling idl [taddr ti]"
    by (rule ex_running)
  from thread_exit_switches [OF r(1) _ r(4) _ _ r(3)] r show ?thesis by fastforce
qed



text \<open>
  C6. \<open>thread_create\<close>, when both allocations succeed, returns 0 and the new thread: it has the
  next identifier and the given name, its structure and stack are heap blocks of its own, it is
  the last of the run queue, and everything the scheduler relies on still holds.
\<close>

theorem thread_create_queues:
  assumes "sched_inv sy lo hi s al idl q run"
    "heap_malloc (sym_free_list sy) SIZEOF_THREAD (ram s) = Some (t, m1)" "t \<noteq> 0"
    "heap_malloc (sym_free_list sy) THREAD_DEFAULT_STACK_SIZE m1 = Some (stack, m2)" "stack \<noteq> 0"
  shows "\<exists>ti s'. thread_create sy name fn arg s = Inr (0, Some t, s')
     \<and> taddr ti = t \<and> tfn ti = fn \<and> targ ti = arg \<and> tblk ti \<notin> set al \<and> sblk ti \<notin> set al
     \<and> sched_inv sy lo hi s' (sblk ti # tblk ti # al) idl (q @ [ti]) run
     \<and> thread_id (ram s') t = global_id_counter s \<and> thread_name (ram s') t = name
     \<and> global_id_counter s' = global_id_counter s + 1 \<and> current_thread s' = current_thread s"
  by (rule thread_create_ok [OF assms]) blast

theorem thread_create_queues_witness:
  "\<exists>s t s' ti. thread_create ex_sy 0xE00 0xD00 7 s = Inr (0, Some t, s') \<and> taddr ti = t \<and> tfn ti = 0xD00"
proof -
  obtain idl s where i: "sched_run ex_sy ex_lo ex_hi s [sblk idl, tblk idl] idl [] []"
    "heap_inv 0x1000 ex_lo ex_hi (ram s) [(0x201034, 4190144)] [sblk idl, tblk idl]"
    by (rule ex_init)
  have inv: "sched_inv ex_sy ex_lo ex_hi s [sblk idl, tblk idl] idl [] []"
    using sched_stateD(1) [OF sched_run_state [OF i(1)]] by simp
  obtain m1 m2 where m: "heap_malloc 0x1000 SIZEOF_THREAD (ram s) = Some (0x201034 + 12, m1)" "(0x201034 + 12 :: u32) \<noteq> 0"
    "heap_malloc 0x1000 THREAD_DEFAULT_STACK_SIZE m1 = Some (0x201034 + 52, m2)" "(0x201034 + 52 :: u32) \<noteq> 0"
    by (rule thread_mallocs [OF i(2)]) simp
  have sy: "sym_free_list ex_sy = 0x1000" by (simp add: ex_sy_def)
  from thread_create_queues [OF inv, unfolded sy, OF m, of "0xE00" "0xD00" 7] show ?thesis by blast
qed






text \<open>
  C9. A switch away from a thread and, after any other code, a switch back to the saved stack
  pointer resumes the thread at its return address with its four callee-saved registers.
\<close>

theorem switch_back_resumes:
  assumes "aligned4 (esp c)" "aligned4 curp" "aligned4 (esp d)" "aligned4 curq"
    "load32 (ram c) (esp c + 4) = curp" "curp \<notin> insert (esp c) (save_slots (esp c))"
    "load32 (ram d) (esp d + 4) = curq"
    "load32 (ram d) (esp d + 8) = load32 (ram (thread_context_switch_asm c)) curp"
    "\<And>a. a \<in> insert (esp c) (save_slots (esp c)) \<Longrightarrow>
        load32 (ram d) a = load32 (ram (thread_context_switch_asm c)) a"
    "insert (esp c) (save_slots (esp c)) \<inter> insert curq (save_slots (esp d)) = {}"
  shows "let e = thread_context_switch_asm d in ebp e = ebp c \<and> ebx e = ebx c \<and> edi e = edi c
     \<and> esi e = esi c \<and> eip e = load32 (ram c) (esp c) \<and> esp e = esp c + 4"
  using switch_roundtrip [OF assms refl] by (simp add: Let_def)

definition ex_cpu :: cpu where
  "ex_cpu = \<lparr>eax = 0, ecx = 0, edx = 0, ebx = 11, esp = 0x1000, ebp = 22, esi = 33, edi = 44, eip = 0x400,
     ram = store32 (store32 (store32 (\<lambda>_. 0) 0x1000 0x42) 0x1004 0x5000) 0x1008 0x3000\<rparr>"

definition ex_other :: cpu where
  "ex_other = (let c = thread_context_switch_asm ex_cpu in c\<lparr>ebx := 0, ebp := 0, esi := 0, edi := 0, esp := 0x2000,
     ram := store32 (store32 (ram c) 0x2004 0x6000) 0x2008 0x0FF0\<rparr>)"

theorem switch_back_resumes_witness:
  "let e = thread_context_switch_asm ex_other in ebp e = 22 \<and> ebx e = 11 \<and> edi e = 44 \<and> esi e = 33
     \<and> eip e = 0x42 \<and> esp e = 0x1004"
proof -
  have al: "aligned4 (esp ex_cpu)" "aligned4 (0x5000 :: u32)" "aligned4 (esp ex_other)" "aligned4 (0x6000 :: u32)"
    by (simp_all add: ex_cpu_def ex_other_def aligned4_def Let_def)
  have w: "aligned4 (0x1000 :: u32)" "aligned4 (0x1004 :: u32)" "aligned4 (0x1008 :: u32)" "aligned4 (0xFFC :: u32)"
    "aligned4 (0xFF8 :: u32)" "aligned4 (0xFF4 :: u32)" "aligned4 (0xFF0 :: u32)" "aligned4 (0x2004 :: u32)"
    "aligned4 (0x2008 :: u32)" "aligned4 (0x5000 :: u32)" "aligned4 (0x6000 :: u32)" "aligned4 (0x2000 :: u32)"
    by (simp_all add: aligned4_def)
  have c: "load32 (ram ex_cpu) (esp ex_cpu + 4) = 0x5000" "0x5000 \<notin> insert (esp ex_cpu) (save_slots (esp ex_cpu))"
    "load32 (ram ex_cpu) (esp ex_cpu) = 0x42"
    using w by (simp_all add: ex_cpu_def save_slots_def)
  have d: "load32 (ram ex_other) (esp ex_other + 4) = 0x6000"
    "load32 (ram ex_other) (esp ex_other + 8) = load32 (ram (thread_context_switch_asm ex_cpu)) 0x5000"
    using switch_saves(1) [OF al(1,2) c(1,2)] w by (simp_all add: ex_other_def Let_def ex_cpu_def)
  have k: "load32 (ram ex_other) a = load32 (ram (thread_context_switch_asm ex_cpu)) a"
    if "a \<in> insert (esp ex_cpu) (save_slots (esp ex_cpu))" for a
    using that w by (auto simp: ex_other_def Let_def save_slots_def ex_cpu_def)
  have e: "insert (esp ex_cpu) (save_slots (esp ex_cpu)) \<inter> insert 0x6000 (save_slots (esp ex_other)) = {}"
    by (simp add: ex_other_def ex_cpu_def save_slots_def Let_def)
  from switch_back_resumes [OF al c(1,2) d k e] c(3) show ?thesis by (simp add: ex_cpu_def Let_def)
qed

end
