(* ===== verification/Heap_Properties.thy ===== *)
theory Heap_Properties
  imports Storm_Example
begin

text \<open>
  The properties of the heap and of the linked list below it, each followed by its instance on
  the layout of \<open>Storm_Example\<close>.
\<close>

text \<open>
  C10. \<open>heap_malloc\<close> implements first fit: on a well-formed heap it always returns; it fails, and
  changes nothing, exactly when no free block is large enough for the request rounded up; and
  otherwise it hands out the block the abstract allocator chooses, split if the rest is worth it,
  writing only to free memory.
\<close>

theorem heap_malloc_refines:
  assumes "heap_inv fl lo hi m bs al" "0 < bytes"
  shows "case spec_malloc (align_up bytes 4) bs of
      None \<Rightarrow> heap_malloc fl bytes m = Some (0, m)
    | Some (b, bs') \<Rightarrow> \<exists>m'. heap_malloc fl bytes m = Some (fst b + 12, m') \<and> heap_inv fl lo hi m' bs' (b # al)
        \<and> agree_outside (free_bytes fl bs) m m'"
  using heap_malloc_none [OF assms] heap_malloc_some [OF assms] by (auto split: option.split)

theorem heap_malloc_refines_witness:
  "\<exists>m'. heap_malloc 0x1000 100 ex_heap = Some (0x20000C, m')
     \<and> heap_inv 0x1000 ex_lo ex_hi m' [(0x200070, 4194180)] [(0x200000, 100)]"
proof -
  have "spec_malloc (align_up 100 4) [(0x200000, 4194292)] = Some ((0x200000, 100), [(0x200070, 4194180)])"
    by (simp add: align_up_def)
  then show ?thesis using heap_malloc_refines [OF ex_heap_inv, of 100] by auto
qed



text \<open>
  C12. \<open>heap_free\<close> of a live block always returns; the free list becomes that of the abstract
  operation (insertion in address order, then merging), and only memory that is now free is written. Each merge
  adds four bytes to what the free list claims beyond the memory given back.
\<close>

theorem heap_free_refines:
  assumes "heap_inv fl lo hi m bs (b # al)"
  shows "\<exists>m'. heap_free fl (fst b + 12) m = Some m' \<and> heap_rep fl m' (map fst (b # bs)) (spec_free b bs)
     \<and> agree_outside (free_bytes fl (b # bs)) m m'
     \<and> (footprint (b # bs) + 4 * Suc (length bs) < 4294967296 \<longrightarrow>
          footprint (spec_free b bs) + 4 * length (spec_free b bs) = footprint (b # bs) + 4 * Suc (length bs))"
proof -
  have "footprint (spec_free b bs) + 4 * length (spec_free b bs) = footprint (b # bs) + 4 * Suc (length bs)"
    if "footprint (b # bs) + 4 * Suc (length bs) < 4294967296"
    using spec_defrag_footprint [of "spec_insert b bs"] that by (simp add: spec_free_def length_spec_insert)
  with heap_free_general [OF assms] show ?thesis by blast
qed

lemma ex_allocated:
  obtains m where "heap_malloc 0x1000 100 ex_heap = Some (0x20000C, m)"
    "heap_inv 0x1000 ex_lo ex_hi m [(0x200070, 4194180)] [(0x200000, 100)]"
proof -
  have "spec_malloc (align_up 100 4) [(0x200000, 4194292)] = Some ((0x200000, 100), [(0x200070, 4194180)])"
    by (simp add: align_up_def)
  with heap_malloc_some [OF ex_heap_inv, of 100] that show thesis by auto
qed

theorem heap_free_refines_witness:
  "\<exists>m m'. heap_malloc 0x1000 100 ex_heap = Some (0x20000C, m) \<and> heap_free 0x1000 0x20000C m = Some m'
     \<and> heap_rep 0x1000 m' [0x200000, 0x200070] [(0x200000, 4194296)]"
proof -
  obtain m where m: "heap_malloc 0x1000 100 ex_heap = Some (0x20000C, m)"
    "heap_inv 0x1000 ex_lo ex_hi m [(0x200070, 4194180)] [(0x200000, 100)]"
    by (rule ex_allocated)
  from heap_free_refines [OF m(2)] m(1) show ?thesis by (auto simp: spec_free_def)
qed



text \<open>
  C14. A defect of \<open>heap_defrag_free_list\<close>: merging adds the size of the whole node (16) where
  the header has 12 bytes. After one allocation and its release the free list claims four bytes
  beyond the end of the heap array.
\<close>

theorem heap_free_overruns_array:
  assumes "0 < unat heap" "unat heap + 4194304 < 4294967292"
    "head_outside fl (unat heap) (unat heap + 4194304)" "dll m fl []"
  shows "\<exists>p m1 m2 hs b. heap_malloc fl 32 (heap_init fl heap m) = Some (p, m1) \<and> heap_free fl p m1 = Some m2
     \<and> heap_rep fl m2 hs [b] \<and> block_end b = unat heap + 4194304 + 4"
proof -
  define a where "a = align_up heap 4"
  define s where "s = heap + HEAP_SIZE - a - 12"
  have i: "heap_inv fl (unat heap) (unat heap + 4194304) (heap_init fl heap m) [(a, s)] []"
    unfolding a_def s_def by (rule heap_init_inv) (use assms in simp_all)
  have a: "unat heap \<le> unat a" "unat a < unat heap + 4"
    using align_up_bounds [of heap] assms(2) by (simp_all add: a_def)
  have "unat (heap + HEAP_SIZE) = unat heap + 4194304"
    using assms(2) by (simp add: HEAP_SIZE_def addr_simps)
  then have "unat (heap + HEAP_SIZE - a) = unat heap + 4194304 - unat a" using a by (simp add: unat_sub_u32)
  then have s: "unat s = unat heap + 4194304 - unat a - 12" using a by (simp add: s_def unat_sub_u32)
  then have s32: "unat (s - 32) = unat s - 32" using a by (simp add: unat_sub_u32)
  have "(32 :: u32) \<le> s" "(44 :: u32) \<le> s - 32" using s s32 a by (simp_all add: word_le_nat_alt)
  moreover have "align_up 32 4 = 32" by (simp add: align_up_def)
  ultimately have sp: "spec_malloc (align_up 32 4) [(a, s)] = Some ((a, 32), [(a + 44, s - 44)])"
    by (simp add: ac_simps)
  obtain m1 where m1: "heap_malloc fl 32 (heap_init fl heap m) = Some (a + 12, m1)"
    "heap_inv fl (unat heap) (unat heap + 4194304) m1 [(a + 44, s - 44)] [(a, 32)]"
    using heap_malloc_some [OF i _ sp] by auto
  have "a < a + 44" using a s assms(2) by (simp add: word_less_nat_alt addr_simps)
  then have "spec_free (a, 32) [(a + 44, s - 44)] = [(a, s + 4)]" by (simp add: spec_free_def ac_simps)
  then obtain m2 where m2: "heap_free fl (a + 12) m1 = Some m2" "heap_rep fl m2 [a, a + 44] [(a, s + 4)]"
    using heap_free_general [OF m1(2)] by auto
  have "unat (s + 4) = unat s + 4" using s a assms(2) by (simp add: addr_simps)
  then have "block_end (a, s + 4) = unat heap + 4194304 + 4" using s a by (simp add: block_end_def)
  with m1(1) m2 show ?thesis by blast
qed

theorem heap_free_overruns_array_witness:
  "\<exists>p m1 m2 hs b. heap_malloc 0x1000 32 ex_heap = Some (p, m1) \<and> heap_free 0x1000 p m1 = Some m2
     \<and> heap_rep 0x1000 m2 hs [b] \<and> block_end b = ex_hi + 4"
  using heap_free_overruns_array [of "0x200000" "0x1000" ex_mem] ex_head ex_dll by (simp add: ex_heap_def)



section \<open>The list\<close>

text \<open>
  C39. On a well-formed ring \<open>list_add\<close> puts a new node first, \<open>list_add_tail\<close> last and
  \<open>list_insert\<close> between the two neighbours it is given; \<open>list_del\<close> takes the node out again and
  leaves it with null links. The ring stays well formed in both directions.
\<close>

theorem list_operations:
  assumes "dll m h (xs @ ys)" "nodes_ok (h # n # xs @ ys)"
    and ins: "m' = list_insert m n (last (h # xs)) (hd (ys @ [h]))"
  shows "dll (list_add m n h) h (n # xs @ ys) \<and> dll (list_add_tail m n h) h ((xs @ ys) @ [n])
     \<and> dll m' h (xs @ n # ys) \<and> dll (list_del m' n) h (xs @ ys)
     \<and> list_next (list_del m' n) n = 0 \<and> list_prev (list_del m' n) n = 0"
proof -
  have ok: "nodes_ok (h # (xs @ ys) @ [n])" "nodes_ok (h # xs @ n # ys)"
    using assms(2) by (auto simp: nodes_ok_def)
  have d: "dll m' h (xs @ n # ys)"
    unfolding ins by (rule list_insert_dll [OF assms(1) ok(2)]) simp_all
  have "list_prev m' n \<in> set (h # xs @ n # ys)" "list_next m' n \<in> set (h # xs @ n # ys)"
    using dll_neighbours [OF d] last_in_ring [of h xs] hd_in_ring [of ys h] by auto
  with list_del_fields [OF ok(2), of n m' n] have
    "list_next (list_del m' n) n = 0" "list_prev (list_del m' n) n = 0" by auto
  with d list_del_dll [OF d] list_add_dll [OF assms(1,2)] list_add_tail_dll [OF assms(1) ok(1)]
  show ?thesis by blast
qed

lemma ex_nodes: "nodes_ok [0x1000, 0x3000]"
  by (auto simp: nodes_ok_def node_ok_def aligned4_def apart_def)

theorem list_operations_witness:
  "dll (list_add_tail ex_mem 0x3000 0x1000) 0x1000 [0x3000]
   \<and> dll (list_del (list_insert ex_mem 0x3000 0x1000 0x1000) 0x3000) 0x1000 []"
  using list_operations [of ex_mem "0x1000" "[]" "[]" "0x3000", OF _ _ refl] ex_dll ex_nodes by simp



end
