(* ===== verification/Device_Properties.thy ===== *)
theory Device_Properties
  imports Storm_Example
begin

text \<open>
  The properties of the drivers and of the descriptor tables: interrupt controllers, dispatch of
  interrupts, timer, segments and gates, serial port.
\<close>

definition ex_pics :: timer where
  "ex_pics = projr (i8259_init ex_timer)"

lemma ex_pics_ok:
  "pics_ok ex_controllers ex_pics" "irqs_ok ex_controllers ex_pics"
  "k < 16 \<Longrightarrow> irq_masked ex_pics k \<longleftrightarrow> k \<noteq> 2"
proof -
  obtain s where s: "i8259_init ex_timer = Inr s" "pics_ok ex_controllers s" "\<forall>k < 16. irq_masked s k \<longleftrightarrow> k \<noteq> 2"
    using i8259_init_ok [of ex_timer ex_controllers] by blast
  have "length (irq_handlers s) = 16"
    using s(1) by (auto simp: i8259_init_def bind_res_Inr_iff Let_def pic_irq_defs ex_timer_def pic_consts)
  with s show "pics_ok ex_controllers ex_pics" "irqs_ok ex_controllers ex_pics"
    "k < 16 \<Longrightarrow> irq_masked ex_pics k \<longleftrightarrow> k \<noteq> 2"
    by (simp_all add: irqs_ok_def ex_pics_def)
qed

section \<open>The interrupt controllers\<close>

text \<open>
  C16. \<open>i8259_init\<close> programs both controllers, whatever state they were in: vectors 32 and 40,
  cascade on line 2, 8086 mode, every interrupt masked except the cascade, and the copies of the
  masks the driver keeps agree with the mask registers.
\<close>

theorem pics_programmed:
  "\<exists>s'. i8259_init s = Inr s' \<and> pics_ok cs s' \<and> (\<forall>k < 16. irq_masked s' k \<longleftrightarrow> k \<noteq> 2)"
  by (rule i8259_init_ok)

theorem pics_programmed_witness:
  "\<exists>s'. i8259_init ex_timer = Inr s' \<and> pics_ok ex_controllers s' \<and> irq_masked s' 0"
proof -
  obtain s' where s': "i8259_init ex_timer = Inr s'" "pics_ok ex_controllers s'"
    "\<forall>k < 16. irq_masked s' k \<longleftrightarrow> k \<noteq> 2"
    using pics_programmed [of ex_timer ex_controllers] by blast
  from spec [OF s'(3), of 0] have "irq_masked s' 0" by simp
  with s'(1,2) show ?thesis by blast
qed

text \<open>
  C17. The type of the drivers' state is sound: from a state of that type, any sequence of their operations
  and of interrupts of the controllers, on numbers in range, neither panics nor indexes past an array nor
  divides by zero, and ends in a state of the type: the table of handlers has its size and holds only the handler
  of the timer, the controllers are programmed and the driver's copies of the masks equal the registers.
\<close>

theorem drivers_type_sound:
  assumes "drv_ok tf cs d" "list_all op_ok xs"
  shows "\<exists>d'. drv_run tf xs d = Inr d' \<and> drv_ok tf cs d'"
  using assms by (rule drv_run_sound)

definition ex_frame :: "u32 \<Rightarrow> interrupt_stack_frame" where
  "ex_frame n = \<lparr>frame_registers = \<lparr>r_edi = 0, r_esi = 0, r_ebp = 0, r_esp = 0, r_ebx = 0, r_edx = 0, r_ecx = 0,
     r_eax = 0\<rparr>, int_no = n, frame_error = 0, frame_eip = 0x400, frame_cs = 8, frame_eflags = 0x202\<rparr>"

lemma ex_pics_drv: "drv_ok 0xA00 ex_controllers ex_pics"
proof -
  obtain s where s: "i8259_init ex_timer = Inr s"
    using i8259_init_ok [of ex_timer ex_controllers] by blast
  then have "irq_handlers ex_pics = irq_handlers ex_timer" by (simp add: ex_pics_def i8259_init_handlers)
  then have "fst (handler_of ex_pics k) = 0" if "k < 16" for k
    using that by (simp add: handler_of_def ex_timer_def word_less_nat_alt)
  with ex_pics_ok(2) show ?thesis by (simp add: drv_ok_def)
qed

theorem drivers_type_sound_witness:
  "\<exists>d'. drv_run 0xA00 [Init_Pics, Init_Timer 100, Init_Uart, Interrupt (ex_frame 32), Put 65, Enable 4,
      Interrupt (ex_frame 36), Disable 0] ex_pics = Inr d' \<and> irqs_ok ex_controllers d'"
proof -
  have "list_all op_ok [Init_Pics, Init_Timer 100, Init_Uart, Interrupt (ex_frame 32), Put 65, Enable 4,
      Interrupt (ex_frame 36), Disable 0]" by (simp add: ex_frame_def)
  from drivers_type_sound [OF ex_pics_drv this] show ?thesis unfolding drv_ok_def by blast
qed

section \<open>Entry and dispatch\<close>



text \<open>
  C19. Once a handler is registered for an interrupt below 16, that interrupt is unmasked, and when the
  processor takes it, the stub of its vector makes \<open>isr_main\<close> acknowledge it and then run exactly that
  handler with the argument registered; other interrupts keep their handlers.
\<close>

theorem registered_handler_runs:
  assumes "irqs_ok cs s" "irq < 16" "f \<noteq> 0" "aligned4 (esp c)"
    "t = isr_common_call retaddr (isr_stub (32 + unat irq) (cpu_interrupt None sel tgt c))"
  shows "\<exists>s'. interrupts_register_irq irq f a s = Inr s' \<and> irqs_ok cs s' \<and> \<not> irq_masked s' irq
     \<and> isr_main call (read_frame (ram t) (load32 (ram t) (esp t + 4))) s' = call f a (i8259_send_eoi irq s')
     \<and> (\<forall>k < 16. k \<noteq> irq \<longrightarrow> handler_of s' k = handler_of s k \<and> irq_masked s' k = irq_masked s k)"
proof -
  obtain s' where s': "interrupts_register_irq irq f a s = Inr s'" "irqs_ok cs s'" "handler_of s' irq = (f, a)"
    "\<forall>k < 16. k \<noteq> irq \<longrightarrow> handler_of s' k = handler_of s k"
    "\<forall>k < 16. irq_masked s' k \<longleftrightarrow> irq_masked s k \<and> k \<noteq> irq"
    using register_irq_ok [OF assms(1,2), of f a] by blast
  have "int_no (read_frame (ram t) (load32 (ram t) (esp t + 4))) = 32 + ucast irq"
    using entry_irq [OF assms(4,5)] .
  from isr_main_irq [OF s'(2) this assms(2), of call] s'(3) assms(3) have
    "isr_main call (read_frame (ram t) (load32 (ram t) (esp t + 4))) s' = call f a (i8259_send_eoi irq s')" by simp
  with s' assms(2) show ?thesis by blast
qed

definition ex_call :: "u32 \<Rightarrow> u32 \<Rightarrow> timer \<Rightarrow> timer res" where
  "ex_call f a s = (if f = 0xA00 then Inr (i8254_irq_handler a s) else Inl OutOfBounds)"

theorem registered_handler_runs_witness:
  "\<exists>s'. interrupts_register_irq 0 0xA00 0 ex_pics = Inr s'
     \<and> (let t = isr_common_call 0x500 (isr_stub 32 (cpu_interrupt None 8 0xE00 ex_icpu)) in
        isr_main ex_call (read_frame (ram t) (load32 (ram t) (esp t + 4))) s' = Inr (i8254_irq_handler 0 (i8259_send_eoi 0 s')))"
proof -
  note s = ex_pics_ok(2)
  have "aligned4 (esp ex_icpu)" by (simp add: ex_icpu_def aligned4_def)
  from registered_handler_runs [OF s _ _ this refl, of 0 "0xA00" 0 ex_call "0x500" 8 "0xE00"] show ?thesis
    by (auto simp: ex_call_def Let_def)
qed

text \<open>
  C20. The assertions of \<open>interrupts_register_irq\<close> and \<open>interrupt_handle_irq\<close> compare the number
  of the interrupt with the size of the array in bytes: numbers 16 to 127 pass and index past the
  sixteen handlers; only from 128 on is there a panic.
\<close>

theorem irq_assertion_too_weak:
  assumes "length (irq_handlers s) = 16" "16 \<le> unat irq"
  shows "interrupts_register_irq irq f a s =
      (if unat irq < 128 then Inl OutOfBounds else Inl (Panic ''Assertion failed: irq < sizeof(irq_handlers)''))
    \<and> interrupt_handle_irq call irq s =
      (if unat irq < 128 then Inl OutOfBounds else Inl (Panic ''Assertion failed: irq < sizeof(irq_handlers)''))"
  using register_irq_beyond [OF assms] handle_irq_beyond [OF assms] by simp

theorem irq_assertion_too_weak_witness:
  "interrupts_register_irq 16 0xA00 0 ex_timer = Inl OutOfBounds \<and> interrupt_handle_irq ex_call 16 ex_timer = Inl OutOfBounds"
  using irq_assertion_too_weak [of ex_timer 16 "0xA00" 0 ex_call] by (simp add: ex_timer_def)

section \<open>The timer\<close>

lemma reload_cases:
  assumes "0 < n" and r: "r = (let d = (1193182 div n) mod 65536 in if d = 0 then 65536 else (d :: nat))"
  shows "if n < 19 then r < 1193182 div n else if n \<le> 1193182 then r = 1193182 div n \<and> n * r \<le> 1193182 else r = 65536"
proof -
  consider (slow) "n < 19" | (range) "19 \<le> n" "n \<le> 1193182" | (fast) "1193182 < n" by linarith
  then show ?thesis
  proof cases
    case slow
    have q: "66287 \<le> 1193182 div n" using slow assms(1) div_le_mono2 [of n 18 1193182] by simp
    have "(1193182 div n) mod 65536 < 65536" by simp
    with q have "r < 1193182 div n" unfolding r Let_def by (simp split: if_split del: mod_less_divisor)
    with slow show ?thesis by simp
  next
    case range
    have "0 < 1193182 div n" using range by (simp add: div_greater_zero_iff)
    moreover have "1193182 div n \<le> 1193182 div 19" using range(1) by (intro div_le_mono2) simp_all
    ultimately have "r = 1193182 div n" unfolding r Let_def by simp
    moreover have "n * (1193182 div n) \<le> 1193182" by (rule times_div_less_eq_dividend)
    ultimately show ?thesis using range by simp
  qed (simp add: r)
qed

text \<open>
  C21. \<open>i8254_init\<close> traps on the division for the frequency zero. For every other frequency it writes
  the command for a rate generator and a divisor, registers its handler and unmasks it. From 19 up to
  the frequency of the oscillator the counter fires every \<open>1193182 div freq\<close> periods of the oscillator,
  so at no less than \<open>freq\<close>; from 1 to 18 the divisor is truncated to 16 bits and the counter fires
  too often; and a frequency above that of the oscillator gives the slowest rate there is.
\<close>

theorem timer_rate:
  assumes "irqs_ok cs s"
  shows "if freq = 0 then i8254_init handler freq s = Inl DivideError
    else \<exists>s' lo hi. i8254_init handler freq s = Inr s' \<and> irqs_ok cs s'
      \<and> port_log s' = port_log s @ [(0x43, 0x34), (0x40, lo), (0x40, hi), (0x21, imr (master_pic s'))]
      \<and> handler_of s' 0 = (handler, 0) \<and> \<not> irq_masked s' 0 \<and> i8254_freq s' = freq
      \<and> (if unat freq < 19 then pit_reload lo hi < 1193182 div unat freq
         else if unat freq \<le> 1193182 then pit_reload lo hi = 1193182 div unat freq \<and> unat freq * pit_reload lo hi \<le> 1193182
         else pit_reload lo hi = 65536)"
proof (cases "freq = 0")
  case True
  then show ?thesis by (simp add: i8254_init_def Let_def io_write_byte_def)
next
  case False
  from i8254_init_ok [OF False assms, of handler] obtain s' lo hi where s': "i8254_init handler freq s = Inr s'"
    "irqs_ok cs s'" "port_log s' = port_log s @ [(0x43, 0x34), (0x40, lo), (0x40, hi), (0x21, imr (master_pic s'))]"
    "pit_reload lo hi = (let d = (1193182 div unat freq) mod 65536 in if d = 0 then 65536 else d)"
    "handler_of s' 0 = (handler, 0)" "i8254_freq s' = freq" "\<forall>k < 16. irq_masked s' k \<longleftrightarrow> irq_masked s k \<and> k \<noteq> 0"
    by blast
  have "0 < unat freq" using False by (simp add: unat_gt_0)
  note r = reload_cases [OF this s'(4)]
  have "\<not> irq_masked s' 0" using spec [OF s'(7), of 0] by simp
  with s'(1-3,5,6) r False show ?thesis by (simp only: if_False) metis
qed

theorem timer_rate_witness:
  "i8254_init 0xA00 0 ex_pics = Inl DivideError
   \<and> (\<exists>s' lo hi. i8254_init 0xA00 100 ex_pics = Inr s' \<and> pit_reload lo hi = 11931
     \<and> port_log s' = port_log ex_pics @ [(0x43, 0x34), (0x40, lo), (0x40, hi), (0x21, imr (master_pic s'))])
   \<and> (\<exists>s' lo hi. i8254_init 0xA00 18 ex_pics = Inr s' \<and> pit_reload lo hi < 66287
     \<and> port_log s' = port_log ex_pics @ [(0x43, 0x34), (0x40, lo), (0x40, hi), (0x21, imr (master_pic s'))])
   \<and> (\<exists>s' lo hi. i8254_init 0xA00 2000000 ex_pics = Inr s' \<and> pit_reload lo hi = 65536
     \<and> port_log s' = port_log ex_pics @ [(0x43, 0x34), (0x40, lo), (0x40, hi), (0x21, imr (master_pic s'))])"
proof -
  note t = timer_rate [OF ex_pics_ok(2), of _ "0xA00"]
  from t [of 0] t [of 100] t [of 18] t [of 2000000] show ?thesis by (simp only: if_True simp_thms) (auto split: if_splits)
qed

text \<open>
  C22. \<open>i8254_sleep\<close> returns exactly when the timer interrupts handled since it was called reach
  \<open>freq * time_s\<close>: not before that wait and not after a later one, as long as the tick counter does
  not wrap.
\<close>

theorem sleep_waits:
  assumes "unat (i8254_freq s) * unat t + unat (i8254_tick_count s) < 4294967296"
    "unat (i8254_tick_count s) + sum_list ws < 4294967296"
  shows "case i8254_sleep ws t s of
      None \<Rightarrow> sum_list ws < unat (i8254_freq s) * unat t
    | Some s' \<Rightarrow> \<exists>k \<le> length ws. unat (i8254_tick_count s') = unat (i8254_tick_count s) + sum_list (take k ws)
        \<and> unat (i8254_freq s) * unat t \<le> sum_list (take k ws)
        \<and> (\<forall>j < k. sum_list (take j ws) < unat (i8254_freq s) * unat t)"
  using assms by (rule sleep_ok)

theorem sleep_waits_witness:
  "\<exists>s'. i8254_sleep [60, 60, 60, 60] 2 (ex_timer\<lparr>i8254_freq := 100\<rparr>) = Some s' \<and> 200 \<le> unat (i8254_tick_count s')"
proof -
  let ?s = "ex_timer\<lparr>i8254_freq := 100\<rparr>"
  have "i8254_freq ?s = 100" "i8254_tick_count ?s = 0" by (simp_all add: ex_timer_def)
  with sleep_waits [of ?s 2 "[60, 60, 60, 60]"] show ?thesis
    by (cases "i8254_sleep [60, 60, 60, 60] 2 ?s") auto
qed

section \<open>Descriptor tables\<close>

text \<open>
  C23. After \<open>gdt_init\<close> the null descriptor is null, the selectors for code and data name present,
  most privileged segments that start at 0 and reach the end of the address space, executable and
  writable respectively, and the table register covers the table exactly. \<open>load_gdt\<close>, called with a pointer to
  the pseudo descriptor, puts it into the table register, the code segment into CS and the data segment into
  every other segment register, and returns to its caller.
\<close>

theorem gdt_flat_segments:
  assumes "length table = 3" "gdt_init addr pd table = (gdt', pd')"
  shows "low (gdt' ! 0) = 0 \<and> high (gdt' ! 0) = 0
    \<and> seg_flat True (gdt' ! unat (drop_bit 3 GDT_CODE_SEGMENT_SELECTOR))
    \<and> seg_flat False (gdt' ! unat (drop_bit 3 GDT_DATA_SEGMENT_SELECTOR))
    \<and> base pd' = addr \<and> unat (limit pd') + 1 = 8 * length gdt'
    \<and> (\<forall>c retaddr p. aligned4 (esp c) \<longrightarrow> read_pseudo (ram (cdecl_call retaddr [p] c)) p = pd' \<longrightarrow>
        (let c' = load_gdt (cdecl_call retaddr [p] c) in
         gdt_reg c' = pd' \<and> c_return c c' retaddr [p] \<and> seg_flat True (gdt' ! unat (drop_bit 3 (seg_cs c')))
         \<and> (\<forall>r \<in> {seg_ds c', seg_es c', seg_fs c', seg_gs c', seg_ss c'}. seg_flat False (gdt' ! unat (drop_bit 3 r)))))"
proof -
  note g = gdt_init_ok [OF assms]
  have "gdt_reg c' = pd' \<and> c_return c c' retaddr [p] \<and> seg_flat True (gdt' ! unat (drop_bit 3 (seg_cs c')))
      \<and> (\<forall>r \<in> {seg_ds c', seg_es c', seg_fs c', seg_gs c', seg_ss c'}. seg_flat False (gdt' ! unat (drop_bit 3 r)))"
    if a: "aligned4 (esp c)" "read_pseudo (ram (cdecl_call retaddr [p] c)) p = pd'"
      and c': "c' = load_gdt (cdecl_call retaddr [p] c)" for c retaddr p c'
  proof -
    have "unat (drop_bit 3 (ucast GDT_DATA_SEGMENT_SELECTOR :: u16)) = unat (drop_bit 3 GDT_DATA_SEGMENT_SELECTOR)"
      by (simp add: GDT_DATA_SEGMENT_SELECTOR_def)
    with load_gdt_returns [OF a(1) refl c'] a(2) g(4,5) show ?thesis by auto
  qed
  then show ?thesis unfolding Let_def using g by (intro conjI allI impI) (blast | simp)+
qed

text \<open>A processor before the tables are loaded, with pseudo descriptors at 0x100 and 0x200 in its memory.\<close>

definition ex_scpu :: sys_cpu where
  "ex_scpu = \<lparr>eax = 0, ecx = 0, edx = 0, ebx = 0, esp = 0x9000, ebp = 0, esi = 0, edi = 0, eip = 0x400,
     ram = (\<lambda>_. 0)(0x100 := 23, 0x103 := 0x20, 0x200 := 0xFF, 0x201 := 7, 0x203 := 0x21), seg_cs = 0, flags_reg = 2,
     seg_ds = 0, seg_es = 0, seg_fs = 0, seg_gs = 0, seg_ss = 0, gdt_reg = \<lparr>limit = 0, base = 0\<rparr>,
     idt_reg = \<lparr>limit = 0, base = 0\<rparr>\<rparr>"

lemma ex_scpu_call:
  "aligned4 (esp ex_scpu)" "read_pseudo (ram (cdecl_call 0x500 [0x100] ex_scpu)) 0x100 = \<lparr>limit = 23, base = 0x2000\<rparr>"
  "read_pseudo (ram (cdecl_call 0x500 [0x200] ex_scpu)) 0x200 = \<lparr>limit = 2047, base = 0x2100\<rparr>"
proof -
  have r: "ram (cdecl_call 0x500 [p] ex_scpu) x = ram ex_scpu x" if "unat x < 0x300" for p x
  proof -
    have "ram (cdecl_call 0x500 [p] ex_scpu) = store32 (store32 (ram ex_scpu) 0x8FFC p) 0x8FF8 0x500"
      by (simp add: asm_defs ex_scpu_def)
    moreover have "x \<notin> span 0x8FFC 4" "x \<notin> span 0x8FF8 4" using that by (simp_all add: span_def)
    ultimately show ?thesis by (simp add: store32_outside aligned4_def)
  qed
  show "aligned4 (esp ex_scpu)" by (simp add: ex_scpu_def aligned4_def)
  show "read_pseudo (ram (cdecl_call 0x500 [0x100] ex_scpu)) 0x100 = \<lparr>limit = 23, base = 0x2000\<rparr>"
    "read_pseudo (ram (cdecl_call 0x500 [0x200] ex_scpu)) 0x200 = \<lparr>limit = 2047, base = 0x2100\<rparr>"
    by (simp_all add: read_pseudo_def load16_def load32_def r) (simp_all add: ex_scpu_def)
qed

theorem gdt_flat_segments_witness:
  "(case gdt_init 0x2000 \<lparr>limit = 0, base = 0\<rparr> (replicate 3 ex_desc) of (g, pd) \<Rightarrow>
      let c' = load_gdt (cdecl_call 0x500 [0x100] ex_scpu) in
      gdt_reg c' = pd \<and> seg_flat True (g ! unat (drop_bit 3 (seg_cs c'))) \<and> seg_flat False (g ! unat (drop_bit 3 (seg_ss c'))))"
proof -
  obtain g pd where g: "gdt_init 0x2000 \<lparr>limit = 0, base = 0\<rparr> (replicate 3 ex_desc) = (g, pd)" by fastforce
  then have pd: "\<lparr>limit = 23, base = 0x2000\<rparr> = pd"
    by (auto simp: gdt_init_def Let_def cpu_pseudo_descriptor_init_def)
  have "length (replicate 3 ex_desc) = 3" by simp
  from gdt_flat_segments [OF this g] ex_scpu_call(1) ex_scpu_call(2) [unfolded pd] show ?thesis
    unfolding g by (simp add: Let_def)
qed

text \<open>
  C24. After \<open>idt_init\<close> each of the 256 vectors is a present 32-bit interrupt gate into the code
  segment: the vectors of the declared service routines, 0 to 21 and 32 to 47, lead to them, the rest to
  the default one, and the table register covers the table exactly. \<open>load_idt\<close>, called with a pointer to the pseudo
  descriptor, puts it into the table register, touches no segment register and returns to its caller.
\<close>

theorem idt_gates:
  assumes "length table = 256" "idt_init isr dflt addr pd table = (idt', pd')"
  shows "length idt' = 256 \<and> base pd' = addr \<and> unat (limit pd') + 1 = 8 * length idt'
    \<and> (\<forall>n < 256. interrupt_gate (idt' ! n) \<and> gate_selector (idt' ! n) = GDT_CODE_SEGMENT_SELECTOR
       \<and> gate_target (idt' ! n) = (if n \<in> set declared_isrs then isr n else dflt))
    \<and> (\<forall>c retaddr p. aligned4 (esp c) \<longrightarrow> read_pseudo (ram (cdecl_call retaddr [p] c)) p = pd' \<longrightarrow>
        (let c' = load_idt (cdecl_call retaddr [p] c) in
         idt_reg c' = pd' \<and> c_return c c' retaddr [p] \<and> seg_cs c' = seg_cs c \<and> seg_ds c' = seg_ds c))"
proof -
  have "idt_reg c' = pd' \<and> c_return c c' retaddr [p] \<and> seg_cs c' = seg_cs c \<and> seg_ds c' = seg_ds c"
    if a: "aligned4 (esp c)" "read_pseudo (ram (cdecl_call retaddr [p] c)) p = pd'"
      and c': "c' = load_idt (cdecl_call retaddr [p] c)" for c retaddr p c'
    using load_idt_returns [OF a(1) refl c'] a(2) by simp
  moreover have "unat (limit pd') + 1 = 8 * length idt'" using idt_init_ok(1,3) [OF assms] by simp
  ultimately show ?thesis
    unfolding Let_def declared_isrs_iff using idt_init_ok [OF assms] by blast
qed

theorem idt_gates_witness:
  "(case idt_init (sym_isr ex_ks) 0xB00 0x2100 \<lparr>limit = 0, base = 0\<rparr> (replicate 256 ex_desc) of (t, pd) \<Rightarrow>
      gate_target (t ! 13) = 0xCD0 \<and> gate_target (t ! 22) = 0xB00 \<and> gate_target (t ! 32) = 0xE00
      \<and> idt_reg (load_idt (cdecl_call 0x500 [0x200] ex_scpu)) = pd)"
proof -
  obtain t pd where t: "idt_init (sym_isr ex_ks) 0xB00 0x2100 \<lparr>limit = 0, base = 0\<rparr> (replicate 256 ex_desc) = (t, pd)"
    by fastforce
  have "length (replicate 256 ex_desc) = 256" by simp
  note i = idt_gates [OF this t]
  then have "length t = 256" "base pd = 0x2100" "unat (limit pd) + 1 = 8 * length t" by simp_all
  then have "limit pd = 2047" "base pd = 0x2100" by (simp_all add: word_unat_eq_iff)
  then have pd: "\<lparr>limit = 2047, base = 0x2100\<rparr> = pd" by simp
  have "\<forall>n < 256. gate_target (t ! n) = (if n \<in> set declared_isrs then sym_isr ex_ks n else 0xB00)"
    using i by blast
  then have "gate_target (t ! 13) = sym_isr ex_ks 13" "gate_target (t ! 22) = 0xB00"
    "gate_target (t ! 32) = sym_isr ex_ks 32" by (simp_all add: declared_isrs_iff)
  moreover have "idt_reg (load_idt (cdecl_call 0x500 [0x200] ex_scpu)) = pd"
    using i ex_scpu_call(1) ex_scpu_call(3) [unfolded pd] by (simp add: Let_def)
  ultimately show ?thesis unfolding t by (simp add: ex_ks_def)
qed

section \<open>The serial port\<close>

text \<open>
  C25. After \<open>uart_init\<close> the serial line is set to 115200 baud (divisor 1), eight data bits, no
  parity, one stop bit, and transmits exactly the bytes then written with \<open>_putchar\<close>, in order.
\<close>

theorem uart_transmits:
  "(let l' = serial_run l (port_log (uart_init s)) in
      line_control l' = 3 \<and> divisor_low l' = 1 \<and> divisor_high l' = 0)
   \<and> sent (serial_run l (port_log (fold putchar cs (uart_init s)))) = sent (serial_run l (port_log s)) @ cs"
proof -
  have "\<not> bit (line_control (serial_run l (port_log (uart_init s)))) 7"
    by (simp add: uart_init_line bit_numeral_word_iff)
  from putchars_sent [OF this, of cs] show ?thesis by (simp add: uart_init_line Let_def)
qed

end
