(* ===== verification/Fpu_X87.thy ===== *)
theory Fpu_X87
  imports Complex_Main Printf_Float "HOL-Library.Log_Nat"
begin

text \<open>
  One arithmetic for the floating point conversions, that of the target: expressions are evaluated
  with 64 significant bits, as its floating point unit does, and an assignment to a \<open>double\<close> rounds to
  53. Values are rational numbers; the range of the exponents is not limited, so that the only
  value beyond \<open>DBL_MAX\<close> a load gives is the infinity of the format, and there is no NaN.
\<close>

section \<open>Rounding\<close>

definition binade :: "rat \<Rightarrow> int" where
  "binade x = (let (n, d) = quotient_of x; e = bitlen n - bitlen d
     in if 2 powi e \<le> x then e else e - 1)"

definition round_even :: "rat \<Rightarrow> int" where
  "round_even y = (let n = \<lfloor>y\<rfloor>; r = y - of_int n
     in if r < 1 / 2 then n else if r > 1 / 2 then n + 1 else if even n then n else n + 1)"

definition round_bits :: "int \<Rightarrow> rat \<Rightarrow> rat" where
  "round_bits p x = (if x = 0 then 0
     else (let ulp = 2 powi (binade \<bar>x\<bar> - (p - 1)) in of_int (round_even (x / ulp)) * ulp))"

section \<open>The format \<open>double\<close>\<close>

definition double_load :: "u64 \<Rightarrow> rat" where
  "double_load w = (let s = (if bit w 63 then - 1 else 1); e = uint (drop_bit 52 w AND 0x7FF);
       m = uint (w AND (push_bit 52 1 - 1))
     in if e = 2047 then s * 2 powi 1024
        else if e = 0 then s * of_int m * 2 powi (- 1074)
        else s * of_int (2 ^ 52 + m) * 2 powi (e - 1075))"

definition double_bits :: "rat \<Rightarrow> u64" where
  "double_bits x = (let e = binade \<bar>x\<bar>;
       (f, m) = (if \<bar>x\<bar> < 2 powi (- 1022) then (0, \<lfloor>\<bar>x\<bar> / 2 powi (- 1074)\<rfloor>)
                 else (e + 1023, \<lfloor>\<bar>x\<bar> / 2 powi (e - 52)\<rfloor> - 2 ^ 52))
     in word_of_int ((if x < 0 then 2 ^ 63 else 0) + 2 ^ 52 * f + m))"

definition rat_trunc :: "rat \<Rightarrow> int" where
  "rat_trunc x = (if 0 \<le> x then \<lfloor>x\<rfloor> else - \<lfloor>- x\<rfloor>)"

definition x87 :: "rat fpu" where
  "x87 = \<lparr>f_load = double_load, f_bits = double_bits, f_store = round_bits 53,
     f_int = of_int, f_trunc = rat_trunc,
     f_dec = (\<lambda>m k. round_bits 53 (of_int m / 10 ^ k)),
     f_add = (\<lambda>x y. round_bits 64 (x + y)), f_sub = (\<lambda>x y. round_bits 64 (x - y)),
     f_mul = (\<lambda>x y. round_bits 64 (x * y)), f_div = (\<lambda>x y. round_bits 64 (x / y)),
     f_neg = uminus, f_eq = (=), f_less = (<), f_le = (\<le>), f_max = 2 powi 1024 - 2 powi 971\<rparr>"

section \<open>Exact results\<close>

lemma powi_less_cancel: "(2 :: rat) powi a < 2 powi b \<Longrightarrow> a < b"
  using power_int_increasing [of b a "2 :: rat"] by (meson linorder_not_less one_le_numeral)

lemma powi_int_nat: "0 \<le> k \<Longrightarrow> (2 :: rat) powi k = of_int (2 ^ nat k)"
  by (simp add: power_int_def)

lemma bitlen_pow:
  assumes "0 < n"
  shows "2 powi (bitlen n - 1) \<le> (of_int n :: rat)" "(of_int n :: rat) < 2 powi bitlen n"
proof -
  have "2 ^ nat (bitlen n - 1) \<le> n" "n < 2 ^ nat (bitlen n)" using bitlen_bounds [OF assms] by simp_all
  moreover have "0 \<le> bitlen n - 1"
    using bitlen_bounds [OF assms] assms by (cases "bitlen n \<le> 0") auto
  ultimately show "2 powi (bitlen n - 1) \<le> (of_int n :: rat)" "(of_int n :: rat) < 2 powi bitlen n"
    using bitlen_nonneg [of n] by (simp_all only: powi_int_nat of_int_le_iff of_int_less_iff)
qed

lemma binade_bounds:
  assumes "0 < x"
  shows "2 powi binade x \<le> x" "x < 2 powi (binade x + 1)"
proof -
  obtain n d where q: "quotient_of x = (n, d)" by fastforce
  then have x: "x = of_int n / of_int d" and d: "0 < d" by (simp_all add: quotient_of_div quotient_of_denom_pos)
  then have n: "0 < n" using assms by (simp add: zero_less_divide_iff)
  let ?e = "bitlen n - bitlen d"
  have p: "2 powi (a + b) = (2 :: rat) powi a * 2 powi b" for a b by (simp add: power_int_add)
  note bn = bitlen_pow [OF n] and bd = bitlen_pow [OF d]
  have dp: "(0 :: rat) < of_int d" using d by simp
  have "x < 2 powi (?e + 1)"
  proof -
    have "2 powi (?e + 1) * 2 powi (bitlen d - 1) = (2 :: rat) powi bitlen n"
      unfolding p [symmetric] by simp
    moreover have "2 powi (?e + 1) * 2 powi (bitlen d - 1) \<le> (2 :: rat) powi (?e + 1) * of_int d"
      using bd(1) by (intro mult_left_mono) simp_all
    ultimately show ?thesis using bn(2) dp unfolding x by (simp add: divide_less_eq)
  qed
  moreover have "2 powi (?e - 1) \<le> x"
  proof -
    have "2 powi (?e - 1) * 2 powi bitlen d = (2 :: rat) powi (bitlen n - 1)"
      unfolding p [symmetric] by simp
    moreover have "2 powi (?e - 1) * of_int d \<le> (2 :: rat) powi (?e - 1) * 2 powi bitlen d"
      using bd(2) by (intro mult_left_mono) simp_all
    ultimately show ?thesis using bn(1) dp unfolding x by (simp add: le_divide_eq)
  qed
  ultimately show "2 powi binade x \<le> x" "x < 2 powi (binade x + 1)"
    by (auto simp: binade_def q Let_def)
qed

lemma binade_eq:
  assumes "2 powi e \<le> x" "x < 2 powi (e + 1)"
  shows "binade x = e"
proof -
  have "0 < x" using assms(1) by (rule less_le_trans [rotated]) simp
  note b = binade_bounds [OF this]
  have "binade x < e + 1" using b(1) assms(2) by (intro powi_less_cancel) (rule le_less_trans)
  moreover have "e < binade x + 1" using assms(1) b(2) by (intro powi_less_cancel) (rule le_less_trans)
  ultimately show ?thesis by simp
qed

lemma round_even_int: "round_even (of_int n) = n"
  by (simp add: round_even_def)

text \<open>A number with at most \<open>p\<close> significant bits is not changed by the rounding.\<close>

lemma round_bits_exact:
  assumes "x = of_int m * 2 powi k" "\<bar>m\<bar> < 2 ^ nat p" "0 < p"
  shows "round_bits p x = x"
proof (cases "x = 0")
  case False
  let ?e = "binade \<bar>x\<bar>"
  have b: "2 powi ?e \<le> \<bar>x\<bar>" using binade_bounds(1) [of "\<bar>x\<bar>"] False by simp
  have "of_int \<bar>m\<bar> < (of_int (2 ^ nat p) :: rat)" using assms(2) by (simp only: of_int_less_iff)
  also have "\<dots> = 2 powi p" using assms(3) by (simp add: powi_int_nat)
  finally have "\<bar>x\<bar> < 2 powi p * 2 powi k" unfolding assms(1) by (simp add: abs_mult)
  also have "\<dots> = 2 powi (p + k)" by (simp add: power_int_add)
  finally have "?e < p + k" using b by (intro powi_less_cancel) (rule le_less_trans)
  define j where "j = ?e - (p - 1)"
  then have j: "0 \<le> k - j" using \<open>?e < p + k\<close> by simp
  have "2 powi k = (2 :: rat) powi j * 2 powi (k - j)" by (simp add: power_int_add [symmetric])
  then have pk: "2 powi k = (2 :: rat) powi j * of_int (2 ^ nat (k - j))" unfolding powi_int_nat [OF j] .
  have x: "x = of_int (m * 2 ^ nat (k - j)) * 2 powi j" unfolding assms(1) pk by (simp only: of_int_mult mult_ac)
  then have "x / 2 powi j = of_int (m * 2 ^ nat (k - j))" by (simp add: nonzero_divide_eq_eq)
  then have "round_even (x / 2 powi j) = m * 2 ^ nat (k - j)" by (simp only: round_even_int)
  moreover have "round_bits p x = of_int (round_even (x / 2 powi j)) * 2 powi j"
    using False by (simp only: round_bits_def Let_def j_def if_False)
  ultimately show ?thesis using x by simp
qed (simp add: round_bits_def)

section \<open>The error of a rounding\<close>

lemma round_even_err: "\<bar>of_int (round_even y) - y\<bar> \<le> 1 / 2"
  by (auto simp: round_even_def Let_def abs_if) linarith+

text \<open>Numbers with at most \<open>p\<close> significant bits.\<close>

definition significant :: "int \<Rightarrow> rat \<Rightarrow> bool" where
  "significant p x \<longleftrightarrow> (\<exists>m k. x = of_int m * 2 powi k \<and> \<bar>m\<bar> < 2 ^ nat p)"

lemma round_bits_ulp:
  assumes "x \<noteq> 0"
  shows "\<bar>round_bits p x - x\<bar> \<le> 2 powi (binade \<bar>x\<bar> - p)"
proof -
  define u where "u = (2 :: rat) powi (binade \<bar>x\<bar> - (p - 1))"
  have u: "0 < u" by (simp add: u_def)
  have "\<bar>of_int (round_even (x / u)) * u - x\<bar> = \<bar>of_int (round_even (x / u)) - x / u\<bar> * u"
    using u by (simp add: abs_mult_pos' algebra_simps)
  also have "\<dots> \<le> 1 / 2 * u" using round_even_err [of "x / u"] u by (intro mult_right_mono) simp_all
  also have "\<dots> = 2 powi (binade \<bar>x\<bar> - p)"
    by (simp add: u_def power_int_diff power_int_add field_simps)
  finally show ?thesis using assms by (simp add: round_bits_def Let_def u_def)
qed

lemma round_bits_err: "\<bar>round_bits p x - x\<bar> \<le> \<bar>x\<bar> * 2 powi (- p)"
proof (cases "x = 0")
  case False
  have "(2 :: rat) powi (binade \<bar>x\<bar> - p) = 2 powi binade \<bar>x\<bar> * 2 powi (- p)" by (simp add: power_int_add [symmetric])
  also have "\<dots> \<le> \<bar>x\<bar> * 2 powi (- p)"
    using binade_bounds(1) [of "\<bar>x\<bar>"] False by (intro mult_right_mono) simp_all
  finally show ?thesis using round_bits_ulp [OF False, of p] by simp
qed (simp add: round_bits_def)

lemma round_bits_err_below:
  assumes "\<bar>x\<bar> < 2 powi b"
  shows "\<bar>round_bits p x - x\<bar> \<le> 2 powi (b - 1 - p)"
proof (cases "x = 0")
  case False
  have "binade \<bar>x\<bar> < b"
    using binade_bounds(1) [of "\<bar>x\<bar>"] False assms by (intro powi_less_cancel) (rule le_less_trans, simp_all)
  then have "(2 :: rat) powi (binade \<bar>x\<bar> - p) \<le> 2 powi (b - 1 - p)" by (intro power_int_increasing) simp_all
  with round_bits_ulp [OF False, of p] show ?thesis by simp
qed (simp add: round_bits_def)

lemma round_nonneg:
  assumes "0 \<le> x" "0 < p"
  shows "0 \<le> round_bits p x"
proof -
  have "2 powi (- p) \<le> (1 :: rat)" using assms(2) power_int_increasing [of "- p" 0 "2 :: rat"] by simp
  then have "\<bar>x\<bar> * 2 powi (- p) \<le> x" using assms(1) mult_left_mono [of "2 powi (- p)" 1 x] by simp
  with round_bits_err [of p x] show ?thesis by linarith
qed

lemma significant_round:
  assumes "0 < p"
  shows "significant p (round_bits p x)"
proof (cases "x = 0")
  case False
  define k where "k = binade \<bar>x\<bar> - (p - 1)"
  define m where "m = round_even (x / 2 powi k)"
  have r: "round_bits p x = of_int m * 2 powi k" using False by (simp add: round_bits_def Let_def k_def m_def)
  have "\<bar>x\<bar> < 2 powi p * 2 powi k"
    using binade_bounds(2) [of "\<bar>x\<bar>"] False by (simp add: k_def power_int_add [symmetric])
  then have "\<bar>x / 2 powi k\<bar> < of_int (2 ^ nat p)" using assms by (simp add: abs_divide divide_less_eq powi_int_nat)
  then have le: "\<bar>m\<bar> \<le> 2 ^ nat p" using round_even_err [of "x / 2 powi k"] unfolding m_def [symmetric] by linarith
  have "significant p (of_int m * 2 powi k)"
  proof (cases "\<bar>m\<bar> < 2 ^ nat p")
    case True
    then show ?thesis by (auto simp: significant_def)
  next
    case False
    with le have m: "m = sgn m * 2 ^ nat p" by (auto simp: sgn_if abs_if split: if_splits)
    have "of_int m * 2 powi k = of_int (sgn m) * (2 :: rat) powi (k + p)"
      using assms by (subst m) (simp add: power_int_add powi_int_nat)
    moreover have "\<bar>sgn m\<bar> < 2 ^ nat p" using assms by (simp add: sgn_if)
    ultimately show ?thesis unfolding significant_def by blast
  qed
  with r show ?thesis by simp
qed (auto simp: round_bits_def significant_def intro: exI [of _ 0])

lemma round_significant:
  assumes "significant p x" "p \<le> q" "0 < p"
  shows "round_bits q x = x"
proof -
  obtain m k where m: "x = of_int m * 2 powi k" "\<bar>m\<bar> < 2 ^ nat p" using assms(1) by (auto simp: significant_def)
  have "(2 :: int) ^ nat p \<le> 2 ^ nat q" using assms(2,3) by (intro power_increasing) simp_all
  with m round_bits_exact [of x m k q] assms(2,3) show ?thesis by simp
qed

lemma significant_minus: "significant p x \<Longrightarrow> significant p (- x)"
  unfolding significant_def by (metis abs_minus_cancel mult_minus_left of_int_minus)

text \<open>The fraction of a number has no more significant bits than the number.\<close>

lemma fraction_bits:
  fixes x :: rat
  assumes "x = of_int m * 2 powi (- int n)"
  shows "x - of_int \<lfloor>x\<rfloor> = of_int (m mod 2 ^ n) * 2 powi (- int n)"
proof -
  have x: "x = of_int m / of_int (2 ^ n)" using assms by (simp add: power_int_minus field_simps)
  have "of_int m = of_int (m div 2 ^ n) * of_int (2 ^ n) + (of_int (m mod 2 ^ n) :: rat)"
    by (simp only: of_int_mult [symmetric] of_int_add [symmetric] div_mult_mod_eq)
  moreover have "\<lfloor>x\<rfloor> = m div 2 ^ n" unfolding x by (rule floor_divide_of_int_eq)
  ultimately show ?thesis unfolding x by (simp add: power_int_minus field_simps)
qed

lemma significant_fraction:
  assumes "significant p x" "0 \<le> x"
  shows "significant p (x - of_int \<lfloor>x\<rfloor>)" "p = 53 \<Longrightarrow> x - of_int \<lfloor>x\<rfloor> \<le> 1 - 1 / 2 ^ 53"
proof -
  obtain m k where m: "x = of_int m * 2 powi k" "\<bar>m\<bar> < 2 ^ nat p" using assms(1) by (auto simp: significant_def)
  have m0: "0 \<le> m"
  proof (rule ccontr)
    assume "\<not> 0 \<le> m"
    then have "of_int m * (2 :: rat) powi k < 0" by (intro mult_neg_pos) simp_all
    with assms(2) m(1) show False by simp
  qed
  have int: "x - of_int \<lfloor>x\<rfloor> = 0" if "0 \<le> k"
    using m(1) that by (simp add: powi_int_nat flip: of_int_mult)
  have frac: "x - of_int \<lfloor>x\<rfloor> = of_int (m mod 2 ^ nat (- k)) * 2 powi k" if "k < 0"
    using fraction_bits [of x m "nat (- k)"] m(1) that by simp
  have "m mod 2 ^ nat (- k) \<le> m" using m0 by (intro zmod_le_nonneg_dividend) simp_all
  then have "\<bar>m mod 2 ^ nat (- k)\<bar> < 2 ^ nat p" using m(2) by simp
  then show "significant p (x - of_int \<lfloor>x\<rfloor>)"
    using int frac by (cases "k < 0") (auto simp: significant_def intro: exI [of _ 0])
  assume p: "p = 53"
  consider "0 \<le> k" | "- 53 \<le> k" "k < 0" | "k < - 53" by linarith
  then show "x - of_int \<lfloor>x\<rfloor> \<le> 1 - 1 / 2 ^ 53"
  proof cases
    case 1
    then show ?thesis using int by simp
  next
    case 2
    have "m mod 2 ^ nat (- k) \<le> 2 ^ nat (- k) - 1" by simp
    then have "of_int (m mod 2 ^ nat (- k)) * (2 :: rat) powi k \<le> of_int (2 ^ nat (- k) - 1) * 2 powi k"
      by (intro mult_right_mono) (simp_all only: of_int_le_iff, simp)
    also have "of_int (2 ^ nat (- k)) = (2 :: rat) powi (- k)" using 2 by (simp add: powi_int_nat)
    then have "of_int (2 ^ nat (- k) - 1) * (2 :: rat) powi k = 1 - 2 powi k"
      by (simp add: power_int_minus left_diff_distrib)
    also have "\<dots> \<le> 1 - 1 / 2 ^ 53" using power_int_increasing [OF 2(1), of "2 :: rat"] by simp
    finally show ?thesis using frac 2 by simp
  next
    case 3
    have "m \<le> 2 ^ 53" using m(2) p by simp
    then have "of_int m \<le> (of_int (2 ^ 53) :: rat)" by (simp only: of_int_le_iff)
    moreover have "(2 :: rat) powi k \<le> 2 powi (- 54)" using 3 by (intro power_int_increasing) simp_all
    ultimately have "of_int m * 2 powi k \<le> of_int (2 ^ 53) * (2 :: rat) powi (- 54)"
      by (intro mult_mono) simp_all
    then have "x \<le> 1 / 2" unfolding m(1) by simp
    then have "\<lfloor>x\<rfloor> = 0" using assms(2) by (simp add: floor_eq_iff)
    with \<open>x \<le> 1 / 2\<close> show ?thesis by simp
  qed
qed

lemma significant_load: "significant 53 (double_load w)"
proof -
  let ?m = "uint (w AND (push_bit 52 1 - 1))"
  have "?m < 2 ^ 52"
    using uint_lt2p [of "w"]
    by (simp add: uint_and mask_eq_exp_minus_1 [symmetric] take_bit_eq_mask [symmetric])
  then have m: "0 \<le> ?m" "?m < 2 ^ 52" by simp_all
  have s: "significant 53 (s * of_int n * 2 powi k)" if "s = 1 \<or> s = - 1" "0 \<le> n" "n < 2 ^ 53" for s n k
    using that unfolding significant_def
    by (intro exI [of _ "if s = 1 then n else - n"] exI [of _ k]) auto
  show ?thesis
    using s [of _ 1 1024] s [of _ ?m "- 1074"] s [of _ "2 ^ 52 + ?m"] m
    by (auto simp: double_load_def Let_def)
qed

end
