(* ===== verification/Printf_Float_Text.thy ===== *)
theory Printf_Float_Text
  imports Printf_Numbers Fpu_X87
begin

text \<open>
  What the floating point conversions print: the loops of \<open>_ftoa\<close> as digits of numbers, the rounding
  to the precision where the arithmetic is exact, and the two cases in which the code goes wrong.
\<close>

section \<open>The loops\<close>

lemma min_step: "0 < a \<Longrightarrow> l < n \<Longrightarrow> min a (n - l) = Suc (min (a - 1) (n - Suc l :: nat))"
  by (simp add: min_def) linarith

lemma limit_prec_spec:
  assumes "length buf \<le> 32"
  shows "limit_prec prec buf = (let k = min (unat prec - 9) (32 - length buf)
    in (buf @ replicate k (chr CHR ''0''), prec - of_nat k))"
  using assms
proof (induction prec buf rule: limit_prec.induct)
  case (1 prec buf)
  show ?case
  proof (cases "length buf < 32 \<and> 9 < prec")
    case True
    then have p: "9 < unat prec" by (simp add: word_less_nat_alt)
    then have u: "unat (prec - 1) = unat prec - 1" by (simp add: unat_sub_u32)
    let ?k = "min (unat (prec - 1) - 9) (32 - Suc (length buf))"
    have k: "min (unat prec - 9) (32 - length buf) = Suc ?k"
      using min_step [of "unat prec - 9" "length buf" 32] True p by (simp add: u)
    have "limit_prec (prec - 1) (buf @ [chr CHR ''0'']) =
        ((buf @ [chr CHR ''0'']) @ replicate ?k (chr CHR ''0''), prec - 1 - of_nat ?k)"
      using 1 True by (simp add: PRINTF_FTOA_BUFFER_SIZE_def Let_def)
    moreover have "prec - 1 - of_nat ?k = prec - of_nat (Suc ?k)" by (simp add: algebra_simps)
    ultimately show ?thesis using True unfolding Let_def k
      by (subst limit_prec.simps) (simp only: PRINTF_FTOA_BUFFER_SIZE_def simp_thms if_True replicate_Suc append_assoc append_Cons append_Nil)
  next
    case False
    then have "min (unat prec - 9) (32 - length buf) = 0" using 1(2) by (auto simp: word_less_nat_alt)
    with False show ?thesis by (subst limit_prec.simps) (auto simp: PRINTF_FTOA_BUFFER_SIZE_def)
  qed
qed

lemma frac_zeros_spec:
  assumes "length buf \<le> 32"
  shows "frac_zeros count buf = buf @ replicate (min (unat count) (32 - length buf)) (chr CHR ''0'')"
  using assms
proof (induction count buf rule: frac_zeros.induct)
  case (1 count buf)
  show ?case
  proof (cases "length buf < 32 \<and> 0 < count")
    case True
    then have p: "0 < unat count" by (simp add: word_less_nat_alt)
    then have u: "unat (count - 1) = unat count - 1" by (simp add: unat_sub_u32)
    have k: "min (unat count) (32 - length buf) = Suc (min (unat (count - 1)) (32 - Suc (length buf)))"
      using min_step [of "unat count" "length buf" 32] True p by (simp add: u)
    have "frac_zeros (count - 1) (buf @ [chr CHR ''0'']) =
        (buf @ [chr CHR ''0'']) @ replicate (min (unat (count - 1)) (32 - Suc (length buf))) (chr CHR ''0'')"
      using 1 True by (simp add: PRINTF_FTOA_BUFFER_SIZE_def)
    then show ?thesis using True unfolding k
      by (subst frac_zeros.simps) (simp add: PRINTF_FTOA_BUFFER_SIZE_def)
  next
    case False
    then have "min (unat count) (32 - length buf) = 0" using 1(2) by (auto simp: word_less_nat_alt)
    with False show ?thesis by (subst frac_zeros.simps) (auto simp: PRINTF_FTOA_BUFFER_SIZE_def)
  qed
qed

abbreviation decimals :: "nat list \<Rightarrow> u8 list" where
  "decimals ds \<equiv> map (\<lambda>d. digit_char 0 (of_nat d)) ds"

lemma decimal_char: "n < 10 \<Longrightarrow> digit_char 0 (of_nat n) = 48 + of_nat n"
  using small_digits [of n] by (auto simp: digit_char_def chr_digits)

lemma frac_digits_spec:
  assumes "length buf \<le> 32"
  shows "frac_digits fr count buf = (let ds = spec_digits (32 - length buf) 10 (unat fr)
    in (buf @ decimals ds, count - of_nat (length ds)))"
  using assms
proof (induction fr count buf rule: frac_digits.induct)
  case (1 fr count buf)
  show ?case
  proof (cases "length buf < 32")
    case True
    then obtain k where k: "32 - length buf = Suc k" by (cases "32 - length buf") auto
    let ?d = "48 + ucast (fr mod 10) :: u8"
    have "(ucast (fr mod 10) :: u8) = of_nat (unat fr mod 10)" using ucast_digit [of fr 10] by simp
    then have d: "?d = digit_char 0 (of_nat (unat fr mod 10))" by (simp add: decimal_char)
    have u: "unat (fr div 10) = unat fr div 10" by (simp add: unat_div)
    have z: "fr div 10 = 0 \<longleftrightarrow> unat fr div 10 = 0" unfolding u [symmetric] by (simp only: unsigned_eq_0_iff)
    have e: "frac_digits fr count buf = (if fr div 10 = 0 then (buf @ [?d], count - 1)
        else frac_digits (fr div 10) (count - 1) (buf @ [?d]))"
      using True by (subst frac_digits.simps) (simp add: PRINTF_FTOA_BUFFER_SIZE_def Let_def)
    show ?thesis
    proof (cases "fr div 10 = 0")
      case False
      have "32 - length (buf @ [?d]) = k" using k by simp
      with 1(1) [OF _ refl refl refl False] True have
        "frac_digits (fr div 10) (count - 1) (buf @ [?d]) = (let ds = spec_digits k 10 (unat fr div 10)
          in (buf @ [?d] @ decimals ds, count - 1 - of_nat (length ds)))"
        by (simp add: PRINTF_FTOA_BUFFER_SIZE_def u)
      with False z show ?thesis unfolding e k by (simp add: Let_def d algebra_simps)
    qed (simp add: e k z [symmetric] Let_def d)
  next
    case False
    then show ?thesis by (subst frac_digits.simps) (simp add: PRINTF_FTOA_BUFFER_SIZE_def Let_def)
  qed
qed

lemma signed_div_10: "0 \<le> a \<Longrightarrow> a sdiv 10 = a div 10" "0 \<le> a \<Longrightarrow> a smod 10 = a mod (10 :: int)"
  by (simp_all add: signed_divide_int_def signed_modulo_int_def sgn_if minus_mult_div_eq_mod [symmetric])

lemma whole_digits_spec:
  assumes "length buf \<le> 32" "0 \<le> whole"
  shows "whole_digits whole buf = buf @ decimals (spec_digits (32 - length buf) 10 (nat whole))"
  using assms
proof (induction whole buf rule: whole_digits.induct)
  case (1 whole buf)
  show ?case
  proof (cases "length buf < 32")
    case True
    then obtain k where k: "32 - length buf = Suc k" by (cases "32 - length buf") auto
    let ?d = "word_of_int (48 + whole smod 10) :: u8"
    have m: "whole mod 10 = int (nat whole mod 10)" "nat (whole div 10) = nat whole div 10"
      using 1(3) zmod_int [of "nat whole" 10] by (simp_all add: nat_div_distrib)
    have d: "?d = digit_char 0 (of_nat (nat whole mod 10))"
      using 1(3) by (simp add: signed_div_10 m(1) decimal_char)
    have z: "whole sdiv 10 = 0 \<longleftrightarrow> nat whole div 10 = 0"
      using 1(3) m(2) by (simp add: signed_div_10 nat_eq_iff div_int_pos_iff)
    have e: "whole_digits whole buf = (if whole sdiv 10 = 0 then buf @ [?d]
        else whole_digits (whole sdiv 10) (buf @ [?d]))"
      using True by (subst whole_digits.simps) (simp add: PRINTF_FTOA_BUFFER_SIZE_def Let_def)
    show ?thesis
    proof (cases "whole sdiv 10 = 0")
      case False
      have "32 - length (buf @ [?d]) = k" "0 \<le> whole sdiv 10" using k 1(3) by (simp_all add: signed_div_10)
      with 1(1) [OF _ refl refl False] True have
        "whole_digits (whole sdiv 10) (buf @ [?d]) = buf @ [?d] @ decimals (spec_digits k 10 (nat whole div 10))"
        using 1(3) m(2) by (simp add: PRINTF_FTOA_BUFFER_SIZE_def signed_div_10)
      with False z d show ?thesis unfolding e k by simp
    qed (use d in \<open>simp add: e k z [symmetric]\<close>)
  next
    case False
    then show ?thesis by (subst whole_digits.simps) (simp add: PRINTF_FTOA_BUFFER_SIZE_def)
  qed
qed

section \<open>The text of a number\<close>

lemma number_of_zeros: "number_of 10 (replicate k (chr CHR ''0'') @ cs) = number_of 10 cs"
proof -
  have "foldl (\<lambda>n c. n * 10 + digit_value c) 0 (replicate k (chr CHR ''0'')) = 0"
    by (induction k) (simp_all add: digit_value_def chr_digits)
  then show ?thesis by (simp add: number_of_def)
qed

text \<open>The fraction: exactly \<open>p\<close> digits that denote it, with the point before them.\<close>

lemma fraction_text:
  assumes "0 < p" "p \<le> 9" "unat fr < 10 ^ p"
  shows "\<exists>fs. ftoa_fraction fr (of_nat p) [] = rev fs @ [chr CHR ''.''] \<and> length fs = p \<and> number_of 10 fs = unat fr"
proof -
  let ?ds = "spec_digits 32 10 (unat fr)"
  let ?fs = "replicate (p - length ?ds) (chr CHR ''0'') @ rev (decimals ?ds)"
  have l: "length ?ds \<le> p" by (rule spec_digits_length) (use assms in simp_all)
  have "unat (of_nat p - of_nat (length ?ds) :: u32) = p - length ?ds"
    using l assms(2) by (simp add: unat_sub_u32 unat_of_nat_u32)
  then have z: "frac_zeros (of_nat p - of_nat (length ?ds)) (decimals ?ds) =
      decimals ?ds @ replicate (p - length ?ds) (chr CHR ''0'')"
    using l assms(2) frac_zeros_spec [of "decimals ?ds" "of_nat p - of_nat (length ?ds)"] by (simp add: min_def)
  have "ftoa_fraction fr (of_nat p) [] = rev ?fs @ [chr CHR ''.'']"
    using frac_digits_spec [of "[]" fr "of_nat p"] l assms(2)
    by (simp add: ftoa_fraction_def Let_def z PRINTF_FTOA_BUFFER_SIZE_def)
  moreover have "number_of 10 ?fs = unat fr"
  proof -
    have "unat fr < 10 ^ 32" by (rule less_trans [OF unat_u32_less]) simp
    then show ?thesis using digits_number [of 10 0 32 "unat fr"] by (simp add: number_of_zeros)
  qed
  moreover have "length ?fs = p" using l by simp
  ultimately show ?thesis by blast
qed

lemma whole_text:
  assumes "0 \<le> whole" "whole < 10 ^ 10" "length buf \<le> 21"
  shows "\<exists>ws. whole_digits whole buf = buf @ rev ws \<and> length ws \<le> 10 \<and> number_of 10 ws = nat whole"
proof -
  let ?ds = "spec_digits (32 - length buf) 10 (nat whole)"
  have n: "nat whole < 10 ^ 10" using assms(1,2) by (simp add: nat_less_iff)
  have "length ?ds \<le> 10" by (rule spec_digits_length) (use n in simp_all)
  moreover have "nat whole < 10 ^ (32 - length buf)"
    using n power_increasing [of 10 "32 - length buf" "10 :: nat"] assms(3) by linarith
  then have "number_of 10 (rev (decimals ?ds)) = nat whole" by (subst digits_number) simp_all
  moreover have "whole_digits whole buf = buf @ rev (rev (decimals ?ds))"
    using whole_digits_spec [of buf whole] assms(1,3) by simp
  ultimately show ?thesis by (intro exI [of _ "rev (decimals ?ds)"]) simp
qed

lemma precision_flags:
  "\<not> has_flag FLAGS_PRECISION FLAGS_LEFT" "\<not> has_flag FLAGS_PRECISION FLAGS_ZEROPAD"
  "\<not> has_flag FLAGS_PRECISION FLAGS_PLUS" "\<not> has_flag FLAGS_PRECISION FLAGS_SPACE"
  "has_flag FLAGS_PRECISION FLAGS_PRECISION"
  by (simp_all add: FLAGS_PRECISION_def FLAGS_LEFT_def FLAGS_ZEROPAD_def FLAGS_PLUS_def FLAGS_SPACE_def)

lemma fixed_chars_plain:
  assumes "\<not> f_less F val (f_int F 0)" "p \<le> 9"
  shows "fixed_chars F val (of_nat p) 0 FLAGS_PRECISION = Inr (rev (ftoa_digits F val (of_nat p) []))"
proof -
  have "unat (of_nat p :: u32) = p" using assms(2) by (simp add: unat_of_nat_u32)
  then have "limit_prec (of_nat p) [] = ([], of_nat p)"
    using limit_prec_spec [of "[]" "of_nat p"] assms(2) by simp
  then show ?thesis
    using assms \<open>unat (of_nat p :: u32) = p\<close> precision_flags
    by (simp add: fixed_chars_def ftoa_pad_def ntoa_sign_def rev_chars_def Let_def)
qed

section \<open>The format \<open>%.pf\<close>\<close>

definition float_format :: "nat \<Rightarrow> u8 list" where
  "float_format p = chrs ''%.'' @ [chr CHR ''0'' + of_nat p] @ chrs ''f''"

text \<open>A number that is printed in fixed notation.\<close>

definition ordinary :: "'e fpu \<Rightarrow> 'e \<Rightarrow> bool" where
  "ordinary F v \<longleftrightarrow> f_eq F v v \<and> \<not> f_less F v (f_neg F (f_max F)) \<and> \<not> f_less F (f_max F) v
     \<and> \<not> f_less F (PRINTF_MAX_FLOAT F) v \<and> \<not> f_less F v (f_neg F (PRINTF_MAX_FLOAT F))"

lemma ftoa_chars_ordinary:
  "ordinary F v \<Longrightarrow> ftoa_chars F (Suc n) v prec width flags = fixed_chars F v prec width flags"
  by (simp add: ordinary_def)

lemma precision_digit:
  assumes "p \<le> 9"
  shows "is_digit (48 + of_nat p)" "atoi [48 + of_nat p, 102] = (of_nat p, [102])"
proof -
  have "p \<in> {0, 1, 2, 3, 4, 5, 6, 7, 8, 9}" using assms by (simp, arith)
  then show "is_digit (48 + of_nat p)" "atoi [48 + of_nat p, 102] = (of_nat p, [102])"
    by (auto simp: is_digit_def atoi_def chr_digits)
qed

lemma conv_f:
  "conv_specifier F collect 0 102 flags width precision [VLong bits] (0, []) =
     bind_res (ftoa_chars F 4 (f_load F bits) precision width flags)
       (\<lambda>cs. Inr ([], of_nat (length cs), cs))"
proof -
  have "bind_res (bind_res r (\<lambda>cs. Inr (emit collect 0 cs (0, [])))) (\<lambda>st. Inr ([], st)) =
      bind_res r (\<lambda>cs. Inr ([], of_nat (length cs), cs))" for r :: "u8 list res"
    by (cases r) (simp_all add: emit_collect)
  then show ?thesis
    by (simp add: conv_specifier_def conv_float_def chrs_def chr_def ftoa_emit FLOAT_DEPTH_def)
qed

lemma bind_res_append_nil: "bind_res r (\<lambda>cs. Inr (cs @ [])) = r" for r :: "'a list res"
  by (cases r) simp_all

lemma render_single:
  assumes "peek fs \<noteq> 0" "step_chars F fs vs = bind_res r (\<lambda>cs. Inr ([], [], cs))"
  shows "render F fs vs = r"
  using assms by (subst render.simps) (cases r, simp_all add: render_end)

lemma render_float:
  assumes "p \<le> 9"
  shows "render F (float_format p) [VLong bits] =
    ftoa_chars F 4 (f_load F bits) (of_nat p) 0 FLAGS_PRECISION"
proof (rule render_single)
  have f: "float_format p = 37 # 46 # (48 + of_nat p) # [102]"
    by (simp add: float_format_def chrs_def chr_def)
  show "peek (float_format p) \<noteq> 0" by (simp add: f peek_def)
  have "parse_flags (46 # (48 + of_nat p) # [102]) 0 = (0, 46 # (48 + of_nat p) # [102])"
    by (simp add: chr_def)
  moreover have "parse_width 0 (46 # (48 + of_nat p) # [102]) vs = Inr (0, 0, 46 # (48 + of_nat p) # [102], vs)" for vs
    by (simp add: parse_width_def peek_def is_digit_def chr_def)
  moreover have "parse_precision 0 (46 # (48 + of_nat p) # [102]) vs = Inr (of_nat p, FLAGS_PRECISION, [102], vs)" for vs
    using precision_digit [OF assms] by (simp add: parse_precision_def peek_def chr_digits)
  moreover have "parse_length FLAGS_PRECISION [102] = (FLAGS_PRECISION, [102])"
    by (simp add: parse_length_def peek_def chr_def)
  ultimately show "step_chars F (float_format p) [VLong bits] =
      bind_res (ftoa_chars F 4 (f_load F bits) (of_nat p) 0 FLAGS_PRECISION) (\<lambda>cs. Inr ([], [], cs))"
    unfolding f
    by (cases "ftoa_chars F 4 (f_load F bits) (of_nat p) 0 FLAGS_PRECISION")
      (simp_all add: step_chars_def format_step_def peek_def chr_digits conv_f del: ftoa_chars.simps)
qed

section \<open>Rounding\<close>

text \<open>
  \<open>frac_part\<close> is what the code computes for \<open>tmp\<close> and \<open>frac_diff\<close> for \<open>diff\<close>. \<open>computes\<close> says that for a value \<open>v\<close>, which
  stands for the number \<open>x\<close>, the arithmetic gets the whole part right, that \<open>tmp\<close> stands for \<open>t\<close>, and that
  the comparisons of the rounding are those of numbers.
\<close>

definition frac_part :: "'e fpu \<Rightarrow> 'e \<Rightarrow> nat \<Rightarrow> 'e" where
  "frac_part F v p = f_store F (f_mul F (f_sub F v (f_int F (f_trunc F v))) (pow10 F ! p))"

definition frac_diff :: "'e fpu \<Rightarrow> 'e \<Rightarrow> nat \<Rightarrow> 'e" where
  "frac_diff F v p = f_store F (f_sub F (frac_part F v p) (f_int F (f_trunc F (frac_part F v p))))"

definition scaled :: "rat \<Rightarrow> nat \<Rightarrow> rat" where
  "scaled x p = (x - of_int \<lfloor>x\<rfloor>) * 10 ^ p"

definition computes :: "'e fpu \<Rightarrow> 'e \<Rightarrow> rat \<Rightarrow> nat \<Rightarrow> rat \<Rightarrow> bool" where
  "computes F v x p t \<longleftrightarrow> f_trunc F v = \<lfloor>x\<rfloor> \<and> f_trunc F (frac_part F v p) = \<lfloor>t\<rfloor>
     \<and> (f_less F (half F) (frac_diff F v p) \<longleftrightarrow> 1 / 2 < t - of_int \<lfloor>t\<rfloor>)
     \<and> (f_less F (frac_diff F v p) (half F) \<longleftrightarrow> t - of_int \<lfloor>t\<rfloor> < 1 / 2)
     \<and> (\<forall>n. f_le F (pow10 F ! p) (f_int F n) \<longleftrightarrow> 10 ^ p \<le> n) \<and> 0 \<le> t \<and> t < 10 ^ p"

lemma scaled_range: "0 \<le> scaled x p" "scaled x p < 10 ^ p"
proof -
  have f: "0 \<le> x - of_int \<lfloor>x\<rfloor>" "x - of_int \<lfloor>x\<rfloor> < 1" by linarith+
  show "0 \<le> scaled x p" using f(1) by (simp add: scaled_def)
  show "scaled x p < 10 ^ p" using mult_strict_right_mono [OF f(2), of "10 ^ p"] by (simp add: scaled_def)
qed

lemma computes_floor:
  assumes "computes F v x p t"
  shows "0 \<le> \<lfloor>t\<rfloor>" "\<lfloor>t\<rfloor> < 10 ^ p"
proof -
  show "0 \<le> \<lfloor>t\<rfloor>" using assms by (simp add: computes_def)
  have "t < of_int (10 ^ p)" using assms by (simp add: computes_def)
  then show "\<lfloor>t\<rfloor> < 10 ^ p" by (simp only: floor_less_iff)
qed

lemma uint_small: "0 \<le> n \<Longrightarrow> n < 1000000000 \<Longrightarrow> uint (word_of_int n :: u32) = n"
  by (simp add: uint_word_of_int_eq take_bit_int_eq_self)

lemma power_small: "p \<le> 9 \<Longrightarrow> (10 :: int) ^ p \<le> 1000000000"
  using power_increasing [of p 9 "10 :: int"] by simp

text \<open>The rounding in terms of the numbers computed.\<close>

lemma ftoa_round_cases:
  assumes ex: "computes F v x p t" and p: "p \<le> 9"
  defines "n \<equiv> \<lfloor>t\<rfloor>" and "d \<equiv> t - of_int \<lfloor>t\<rfloor>"
  shows "ftoa_round F v (pow10 F ! p) =
    (if 1 / 2 < d then (if 10 ^ p \<le> n + 1 then (\<lfloor>x\<rfloor> + 1, 0) else (\<lfloor>x\<rfloor>, word_of_int (n + 1)))
     else if d < 1 / 2 then (\<lfloor>x\<rfloor>, word_of_int n)
     else if n = 0 \<or> odd n then (\<lfloor>x\<rfloor>, word_of_int (n + 1))
     else (\<lfloor>x\<rfloor>, word_of_int n))"
proof -
  have n: "0 \<le> n" "n < 1000000000"
    unfolding n_def
    by (rule computes_floor [OF ex], rule less_le_trans [OF computes_floor(2) [OF ex] power_small [OF p]])
  let ?w = "word_of_int n :: u32"
  have u: "uint ?w = n" "uint (?w + 1) = n + 1"
    using n by (simp_all add: uint_word_of_int_eq take_bit_int_eq_self uint_plus_if' word_size)
  have z: "?w = 0 \<longleftrightarrow> n = 0" using u(1) by auto
  have "odd ?w \<longleftrightarrow> odd n" using bit_uint_iff [of ?w 0] u(1) by (simp add: bit_0)
  then have o: "?w AND 1 \<noteq> 0 \<longleftrightarrow> odd n" by (simp add: and_one_eq mod2_eq_if)
  have t: "f_trunc F v = \<lfloor>x\<rfloor>" "f_trunc F (frac_part F v p) = n"
    "f_less F (half F) (frac_diff F v p) \<longleftrightarrow> 1 / 2 < d" "f_less F (frac_diff F v p) (half F) \<longleftrightarrow> d < 1 / 2"
    "\<And>k. f_le F (pow10 F ! p) (f_int F k) \<longleftrightarrow> 10 ^ p \<le> k"
    using ex by (simp_all add: computes_def n_def d_def)
  have fd: "f_store F (f_sub F (frac_part F v p) (f_int F n)) = frac_diff F v p"
    by (simp add: frac_diff_def t(2))
  have fp: "f_store F (f_mul F (f_sub F v (f_int F \<lfloor>x\<rfloor>)) (pow10 F ! p)) = frac_part F v p"
    by (simp add: frac_part_def t(1))
  show ?thesis
    unfolding ftoa_round_def Let_def t(1) fp t(2) u(1) fd t(3,4,5) u(2) z o by simp
qed

lemma ftoa_round_nearest:
  assumes ex: "computes F v x p t" and p: "p \<le> 9"
    and tie: "t \<noteq> of_int (10 ^ p - 1) + 1 / 2"
  shows "\<exists>w fr. ftoa_round F v (pow10 F ! p) = (w, fr) \<and> unat fr < 10 ^ p
    \<and> (w = \<lfloor>x\<rfloor> \<or> w = \<lfloor>x\<rfloor> + 1)
    \<and> \<bar>of_int w * 10 ^ p + of_nat (unat fr) - (of_int \<lfloor>x\<rfloor> * 10 ^ p + t)\<bar> \<le> 1 / 2"
proof -
  define n where "n = \<lfloor>t\<rfloor>"
  define d where "d = t - of_int n"
  have n: "0 \<le> n" "n < 10 ^ p" unfolding n_def by (rule computes_floor [OF ex])+
  have d: "0 \<le> d" "d < 1" unfolding d_def n_def by linarith+
  have v: "t = of_int n + d" by (simp add: d_def)
  have u: "unat (word_of_int k :: u32) = nat k" if "0 \<le> k" "k \<le> 10 ^ p" for k
    using that power_small [OF p] by (simp add: unsigned_of_int take_bit_int_eq_self)
  have lt: "nat k < 10 ^ p" if "0 \<le> k" "k < 10 ^ p" for k :: int
    using that by (simp add: nat_less_iff)
  note r = ftoa_round_cases [OF ex p, folded n_def, folded d_def]
  have near: ?thesis if e: "ftoa_round F v (pow10 F ! p) = (\<lfloor>x\<rfloor>, word_of_int k)" and k: "0 \<le> k" "k < 10 ^ p"
      "\<bar>of_int k - (of_int n + d)\<bar> \<le> 1 / 2" for k
  proof -
    have "unat (word_of_int k :: u32) = nat k" using u k by simp
    moreover have e': "of_int \<lfloor>x\<rfloor> * 10 ^ p + of_int k - (of_int \<lfloor>x\<rfloor> * 10 ^ p + t) = of_int k - (of_int n + d)"
      unfolding v by simp
    have "\<bar>of_int \<lfloor>x\<rfloor> * 10 ^ p + of_int k - (of_int \<lfloor>x\<rfloor> * 10 ^ p + t)\<bar> \<le> 1 / 2" unfolding e' by (rule k(3))
    ultimately show ?thesis
      using e k lt by (intro exI [of _ "\<lfloor>x\<rfloor>"] exI [of _ "word_of_int k"]) simp
  qed
  consider "1 / 2 < d" "10 ^ p \<le> n + 1" | "1 / 2 < d" "n + 1 < 10 ^ p" | "d < 1 / 2"
    | "d = 1 / 2" "n = 0 \<or> odd n" | "d = 1 / 2" "\<not> (n = 0 \<or> odd n)" by linarith
  then show ?thesis
  proof cases
    case 1
    then have "n + 1 = 10 ^ p" using n by simp
    then have "(of_int n + 1 :: rat) = 10 ^ p" by (metis of_int_add of_int_1 of_int_power of_int_numeral)
    with 1 d v show ?thesis by (intro exI conjI, subst r) (auto simp: algebra_simps)
  next
    case 2
    then show ?thesis using n d by (intro near [of "n + 1"]) (simp_all add: r)
  next
    case 3
    then show ?thesis using n d by (intro near [of n]) (simp_all add: r)
  next
    case 4
    have "n + 1 \<noteq> 10 ^ p"
    proof
      assume "n + 1 = 10 ^ p"
      then have "n = 10 ^ p - 1" by simp
      with tie 4(1) show False by (simp add: d_def)
    qed
    then show ?thesis using 4 n d by (intro near [of "n + 1"]) (simp_all add: r)
  next
    case 5
    then show ?thesis using n d by (intro near [of n]) (simp_all add: r)
  qed
qed

section \<open>What is printed\<close>

lemma ftoa_digits_text:
  assumes "0 < p" "p \<le> 9" "ftoa_round F v (pow10 F ! p) = (w, fr)" "unat fr < 10 ^ p" "0 \<le> w" "w < 10 ^ 10"
  shows "\<exists>ws fs. rev (ftoa_digits F v (of_nat p) []) = ws @ chr CHR ''.'' # fs
    \<and> length fs = p \<and> number_of 10 ws = nat w \<and> number_of 10 fs = unat fr"
proof -
  have p: "unat (of_nat p :: u32) = p" "(of_nat p :: u32) \<noteq> 0"
    using assms(1,2) unat_of_nat_u32 [of p] by (auto simp: word_unat_eq_iff)
  obtain fs where f: "ftoa_fraction fr (of_nat p) [] = rev fs @ [chr CHR ''.'']" "length fs = p"
    "number_of 10 fs = unat fr" using fraction_text [OF assms(1,2,4)] by blast
  obtain ws where "whole_digits w (rev fs @ [chr CHR ''.'']) = (rev fs @ [chr CHR ''.'']) @ rev ws"
    "number_of 10 ws = nat w" using whole_text [OF assms(5,6), of "rev fs @ [chr CHR ''.'']"] f(2) assms(2) by auto
  then show ?thesis using f p assms(3) by (intro exI [of _ ws] exI [of _ fs]) (simp add: ftoa_digits_def)
qed

lemma render_float_fixed:
  assumes "p \<le> 9" "ordinary F (f_load F bits)" "\<not> f_less F (f_load F bits) (f_int F 0)"
  shows "render F (float_format p) [VLong bits] = Inr (rev (ftoa_digits F (f_load F bits) (of_nat p) []))"
proof -
  have "(4 :: nat) = Suc 3" by simp
  then show ?thesis
    using render_float [OF assms(1), of F bits] ftoa_chars_ordinary [OF assms(2), of 3] fixed_chars_plain [OF assms(3,1)]
    by metis
qed

lemma float_nearest:
  assumes "0 < p" "p \<le> 9" "ordinary F (f_load F bits)" "\<not> f_less F (f_load F bits) (f_int F 0)"
    "computes F (f_load F bits) x p t" "0 \<le> x" "x \<le> 1000000000" "t \<noteq> of_int (10 ^ p - 1) + 1 / 2"
  shows "\<exists>ws fs. render F (float_format p) [VLong bits] = Inr (ws @ chr CHR ''.'' # fs) \<and> length fs = p
    \<and> \<bar>of_nat (number_of 10 ws) * 10 ^ p + of_nat (number_of 10 fs) - (of_int \<lfloor>x\<rfloor> * 10 ^ p + t)\<bar> \<le> 1 / 2"
proof -
  let ?v = "f_load F bits"
  obtain w fr where r: "ftoa_round F ?v (pow10 F ! p) = (w, fr)" "unat fr < 10 ^ p" "w = \<lfloor>x\<rfloor> \<or> w = \<lfloor>x\<rfloor> + 1"
    "\<bar>of_int w * 10 ^ p + of_nat (unat fr) - (of_int \<lfloor>x\<rfloor> * 10 ^ p + t)\<bar> \<le> 1 / 2"
    using ftoa_round_nearest [OF assms(5,2,8)] by blast
  have fl: "0 \<le> \<lfloor>x\<rfloor>" "\<lfloor>x\<rfloor> \<le> 1000000000" using assms(6,7) by linarith+
  then have w: "0 \<le> w" "w < 10 ^ 10" using r(3) by auto
  obtain ws fs where s: "rev (ftoa_digits F ?v (of_nat p) []) = ws @ chr CHR ''.'' # fs" "length fs = p"
    "number_of 10 ws = nat w" "number_of 10 fs = unat fr"
    using ftoa_digits_text [OF assms(1,2) r(1,2) w] by blast
  have "(of_nat (number_of 10 ws) :: rat) = of_int w" using s(3) w(1) by simp
  with render_float_fixed [OF assms(2,3,4)] s r(4) show ?thesis by (intro exI [of _ ws] exI [of _ fs]) simp
qed

section \<open>A tie below a power of ten\<close>

text \<open>
  When the fraction lies exactly half way between \<open>10\<^sup>p - 1\<close> and \<open>10\<^sup>p\<close> the branch of the tie rounds up
  without the carry into the whole part: \<open>p + 1\<close> digits are produced, the counter wraps, and zeros fill
  the rest of the array.
\<close>

lemma spec_digits_power: "p < n \<Longrightarrow> spec_digits n 10 (10 ^ p) = replicate p 0 @ [1]"
proof (induction p arbitrary: n)
  case 0
  then show ?case by (cases n) simp_all
next
  case (Suc p)
  then obtain m where "n = Suc m" "p < m" by (cases n) auto
  with Suc.IH show ?case by simp
qed

lemma tie_digits:
  assumes "0 < p" "p \<le> 9" "ftoa_round F v (pow10 F ! p) = (w, 10 ^ p)"
  shows "rev (ftoa_digits F v (of_nat p) []) =
    replicate (31 - p) (chr CHR ''0'') @ chr CHR ''1'' # replicate p (chr CHR ''0'')"
proof -
  have p: "unat (of_nat p :: u32) = p" "(of_nat p :: u32) \<noteq> 0"
    using assms(1,2) unat_of_nat_u32 [of p] by (auto simp: word_unat_eq_iff)
  have "(10 :: nat) ^ p < 4294967296" using power_increasing [of p 9 "10 :: nat"] assms(2) by simp
  then have u: "unat (10 ^ p :: u32) = 10 ^ p" by (metis of_nat_numeral of_nat_power unat_of_nat_u32)
  let ?z = "chr CHR ''0''"
  have c: "decimals (replicate p 0 @ [1]) = replicate p ?z @ [chr CHR ''1'']"
    by (simp add: digit_char_def chr_def map_replicate_const [symmetric])
  have "of_nat p - of_nat (Suc p) = (- 1 :: u32)" by simp
  moreover have "frac_digits (10 ^ p) (of_nat p) [] = (replicate p ?z @ [chr CHR ''1''], of_nat p - of_nat (Suc p))"
    using frac_digits_spec [of "[]" "10 ^ p" "of_nat p"] spec_digits_power [of p 32] assms(2) c
    by (simp add: u Let_def)
  moreover have "frac_zeros (- 1) (replicate p ?z @ [chr CHR ''1'']) =
      replicate p ?z @ [chr CHR ''1''] @ replicate (31 - p) ?z"
    using frac_zeros_spec [of "replicate p ?z @ [chr CHR ''1'']" "- 1"] assms(2)
    by (simp add: unsigned_minus_1_eq_mask mask_eq_exp_minus_1 min_def)
  ultimately have "ftoa_fraction (10 ^ p) (of_nat p) [] = replicate p ?z @ [chr CHR ''1''] @ replicate (31 - p) ?z"
    using assms(2) by (simp add: ftoa_fraction_def PRINTF_FTOA_BUFFER_SIZE_def)
  moreover have "whole_digits w (replicate p ?z @ [chr CHR ''1''] @ replicate (31 - p) ?z) =
      replicate p ?z @ [chr CHR ''1''] @ replicate (31 - p) ?z"
    using assms(2) by (subst whole_digits.simps) (simp add: PRINTF_FTOA_BUFFER_SIZE_def)
  ultimately show ?thesis using p assms(3) by (simp add: ftoa_digits_def)
qed

lemma tie_round:
  assumes "p \<le> 9" "0 < p" "f_trunc F (frac_part F v p) = 10 ^ p - 1"
    "\<not> f_less F (half F) (frac_diff F v p)" "\<not> f_less F (frac_diff F v p) (half F)"
  shows "ftoa_round F v (pow10 F ! p) = (f_trunc F v, 10 ^ p)"
proof -
  let ?n = "10 ^ p - 1 :: int"
  have n: "0 \<le> ?n" "?n < 1000000000" using power_small [OF assms(1)] by simp_all
  let ?w = "word_of_int ?n :: u32"
  have u: "uint ?w = ?n" by (rule uint_small [OF n])
  have "odd ?n" using assms(2) by simp
  then have "odd ?w" using bit_uint_iff [of ?w 0] u by (simp add: bit_0)
  then have o: "?w = 0 \<or> ?w AND 1 \<noteq> 0" by (simp add: and_one_eq mod2_eq_if)
  have s: "?w + 1 = 10 ^ p" by simp
  have fd: "f_store F (f_sub F (frac_part F v p) (f_int F ?n)) = frac_diff F v p"
    by (simp add: frac_diff_def assms(3))
  show ?thesis
    unfolding ftoa_round_def Let_def frac_part_def [symmetric] assms(3) u fd using assms(4,5) o s by simp
qed

lemma float_tie:
  assumes "0 < p" "p \<le> 9" "ordinary F (f_load F bits)" "\<not> f_less F (f_load F bits) (f_int F 0)"
    "f_trunc F (frac_part F (f_load F bits) p) = 10 ^ p - 1"
    "\<not> f_less F (half F) (frac_diff F (f_load F bits) p)" "\<not> f_less F (frac_diff F (f_load F bits) p) (half F)"
  shows "render F (float_format p) [VLong bits] =
    Inr (replicate (31 - p) (chr CHR ''0'') @ chr CHR ''1'' # replicate p (chr CHR ''0''))"
  using render_float_fixed [OF assms(2-4)] tie_digits [OF assms(1,2) tie_round [OF assms(2,1,5-7)]] by simp

section \<open>A large precision\<close>

text \<open>From 42 on, the loop that limits the precision ends with the array full and the precision above 9.\<close>

lemma fixed_chars_beyond:
  assumes "42 \<le> unat prec" "has_flag flags FLAGS_PRECISION"
  shows "fixed_chars F v prec width flags = Inl OutOfBounds"
proof -
  have "min (unat prec - 9) 32 = 32" using assms(1) by simp
  then have "limit_prec prec [] = (replicate 32 (chr CHR ''0''), prec - 32)"
    using limit_prec_spec [of "[]" prec] by simp
  moreover have "unat (prec - 32) = unat prec - 32" using assms(1) by (simp add: unat_sub_u32)
  moreover have "10 \<le> unat prec - 32" using assms(1) by simp
  ultimately show ?thesis using assms(2) by (simp add: fixed_chars_def Let_def)
qed

lemma render_star:
  assumes "0 < sint w"
  shows "render F (chrs ''%.*f'') [VWord w, VLong bits] = ftoa_chars F 4 (f_load F bits) w 0 FLAGS_PRECISION"
proof (rule render_single)
  have f: "chrs ''%.*f'' = [37, 46, 42, 102]" by (simp add: chrs_def chr_def)
  show "peek (chrs ''%.*f'') \<noteq> 0" by (simp add: f peek_def)
  have "parse_flags [46, 42, 102] 0 = (0, [46, 42, 102])" by (simp add: chr_def)
  moreover have "parse_width 0 [46, 42, 102] vs = Inr (0, 0, [46, 42, 102], vs)" for vs
    by (simp add: parse_width_def peek_def is_digit_def chr_def)
  moreover have "parse_precision 0 [46, 42, 102] [VWord w, VLong bits] = Inr (w, FLAGS_PRECISION, [102], [VLong bits])"
    using assms by (simp add: parse_precision_def peek_def is_digit_def chr_def)
  moreover have "parse_length FLAGS_PRECISION [102] = (FLAGS_PRECISION, [102])"
    by (simp add: parse_length_def peek_def chr_def)
  ultimately show "step_chars F (chrs ''%.*f'') [VWord w, VLong bits] =
      bind_res (ftoa_chars F 4 (f_load F bits) w 0 FLAGS_PRECISION) (\<lambda>cs. Inr ([], [], cs))"
    unfolding f
    by (cases "ftoa_chars F 4 (f_load F bits) w 0 FLAGS_PRECISION")
      (simp_all add: step_chars_def format_step_def peek_def chr_digits conv_f del: ftoa_chars.simps)
qed

lemma float_precision_fault:
  assumes "ordinary F (f_load F bits)" "42 \<le> sint w"
  shows "render F (chrs ''%.*f'') [VWord w, VLong bits] = Inl OutOfBounds"
proof -

  have "42 \<le> unat w" using unat_magnitude [of w] assms(2) by (simp add: magnitude_def)
  moreover have "(4 :: nat) = Suc 3" by simp
  ultimately show ?thesis
    using render_star [of w F bits] ftoa_chars_ordinary [OF assms(1), of 3 w 0 FLAGS_PRECISION]
      fixed_chars_beyond [of w FLAGS_PRECISION F "f_load F bits" 0] assms(2) precision_flags(5) by simp
qed

section \<open>The depth of the calls\<close>

text \<open>A deeper bound does not change a result; the mantissa of an exponential conversion needs one call.\<close>

lemma float_depth_mono:
  "(ftoa_chars F n v prec width flags \<noteq> Inl Diverges \<longrightarrow>
      ftoa_chars F (Suc n) v prec width flags = ftoa_chars F n v prec width flags) \<and>
   (etoa_chars F n v prec width flags \<noteq> Inl Diverges \<longrightarrow>
      etoa_chars F (Suc n) v prec width flags = etoa_chars F n v prec width flags)"
proof (induction n arbitrary: v prec width flags)
  case (Suc n)
  have b: "bind_res (ftoa_chars F n v p w f) g \<noteq> Inl Diverges \<Longrightarrow>
      bind_res (ftoa_chars F (Suc n) v p w f) g = bind_res (ftoa_chars F n v p w f) g" for v p w f and g :: "u8 list \<Rightarrow> u8 list res"
    using Suc [of v p w f] by (cases "ftoa_chars F n v p w f = Inl Diverges") auto
  have e: "etoa_chars F n v p w f \<noteq> Inl Diverges \<Longrightarrow> etoa_chars F (Suc n) v p w f = etoa_chars F n v p w f"
    and f: "ftoa_chars F n v p w f \<noteq> Inl Diverges \<Longrightarrow> ftoa_chars F (Suc n) v p w f = ftoa_chars F n v p w f"
    for v p w f using Suc by blast+
  show ?case
  proof
    show "ftoa_chars F (Suc n) v prec width flags \<noteq> Inl Diverges \<longrightarrow>
        ftoa_chars F (Suc (Suc n)) v prec width flags = ftoa_chars F (Suc n) v prec width flags"
      unfolding ftoa_chars.simps(2) [where n = n] ftoa_chars.simps(2) [where n = "Suc n"]
      by (simp add: e del: ftoa_chars.simps etoa_chars.simps)
    show "etoa_chars F (Suc n) v prec width flags \<noteq> Inl Diverges \<longrightarrow>
        etoa_chars F (Suc (Suc n)) v prec width flags = etoa_chars F (Suc n) v prec width flags"
      unfolding etoa_chars.simps(2) [where n = n] etoa_chars.simps(2) [where n = "Suc n"] Let_def
      by (cases "f_special F v") (simp_all add: f b del: ftoa_chars.simps etoa_chars.simps split: prod.split)
  qed
qed simp

end
