(* ===== verification/Printf_Float_X87.thy ===== *)
theory Printf_Float_X87
  imports Printf_Float_Text
begin

text \<open>
  The fixed notation on the arithmetic of the target: the rounding of \<open>_ftoa\<close> with its error, for every
  double it is used on; and the fields of the bits of a double.
\<close>

lemma x87_simps [simp]:
  "f_load x87 = double_load" "f_bits x87 = double_bits" "f_store x87 = round_bits 53" "f_int x87 = of_int"
  "f_trunc x87 = rat_trunc" "f_dec x87 m k = round_bits 53 (of_int m / 10 ^ k)"
  "f_add x87 x y = round_bits 64 (x + y)" "f_sub x87 x y = round_bits 64 (x - y)"
  "f_mul x87 x y = round_bits 64 (x * y)" "f_div x87 x y = round_bits 64 (x / y)"
  "f_neg x87 x = - x" "f_eq x87 x y \<longleftrightarrow> x = y" "f_less x87 x y \<longleftrightarrow> x < y" "f_le x87 x y \<longleftrightarrow> x \<le> y"
  "f_max x87 = 2 powi 1024 - 2 powi 971"
  by (simp_all add: x87_def)

lemma rat_trunc_nonneg [simp]: "0 \<le> x \<Longrightarrow> rat_trunc x = \<lfloor>x\<rfloor>"
  by (simp add: rat_trunc_def)

lemma half_x87: "round_bits 53 (1 / 2) = 1 / 2"
  using round_bits_exact [of "1 / 2" 1 "- 1" 53] by simp

section \<open>Rounding to the precision\<close>

lemma pow10_nth:
  assumes "p \<le> 9"
  shows "pow10 x87 ! p = 10 ^ p"
proof -
  have "p \<in> {0, 1, 2, 3, 4, 5, 6, 7, 8, 9}" using assms by (simp, arith)
  then show ?thesis by (auto simp: pow10_def)
qed

lemma pow10_binade:
  assumes "0 < p" "p \<le> 9"
  shows "\<exists>b. (2 :: rat) ^ b * (2049 / 2048) < 10 ^ p \<and> (10 :: rat) ^ p < 2 ^ (b + 1)"
proof -
  have "p \<in> {1, 2, 3, 4, 5, 6, 7, 8, 9}" using assms by (simp, arith)
  moreover have "\<exists>b. (2 :: rat) ^ b * (2049 / 2048) < 10 ^ p \<and> (10 :: rat) ^ p < 2 ^ (b + 1)"
    if "(p, b) \<in> {(1, 3), (2, 6), (3, 9), (4, 13), (5, 16), (6, 19), (7, 23), (8, 26), (9, 29)}" for b :: nat
    using that by (intro exI [of _ b]) auto
  ultimately show ?thesis by auto
qed

text \<open>\<open>tmp\<close> and \<open>diff\<close>: one rounding error on \<open>tmp\<close>, none on the whole part and on \<open>diff\<close>.\<close>

lemma x87_fraction:
  assumes "significant 53 v" "0 \<le> v" "0 < p" "p \<le> 9"
  defines "t \<equiv> frac_part x87 v p"
  shows "0 \<le> t" "t < 10 ^ p" "\<bar>t - scaled v p\<bar> \<le> 10 ^ p / 2 ^ 52" "frac_diff x87 v p = t - of_int \<lfloor>t\<rfloor>"
proof -
  let ?s = "scaled v p"
  have e: "round_bits 64 (v - of_int \<lfloor>v\<rfloor>) = v - of_int \<lfloor>v\<rfloor>"
    by (rule round_significant [OF significant_fraction(1) [OF assms(1,2)]]) simp_all
  have t: "t = round_bits 53 (round_bits 64 ?s)"
    using assms(2) by (simp add: t_def frac_part_def e pow10_nth [OF assms(4)] scaled_def)
  note s = scaled_range [of v p]
  show t0: "0 \<le> t" unfolding t using s(1) by (intro round_nonneg) simp_all
  have "v - of_int \<lfloor>v\<rfloor> \<le> 1 - 1 / 2 ^ 53" by (rule significant_fraction(2) [OF assms(1,2) refl])
  then have s1: "?s \<le> (1 - 1 / 2 ^ 53) * 10 ^ p" unfolding scaled_def by (intro mult_right_mono) simp_all
  obtain b where b: "(2 :: rat) ^ b * (2049 / 2048) < 10 ^ p" "(10 :: rat) ^ p < 2 ^ (b + 1)"
    using pow10_binade [OF assms(3,4)] by blast
  have pb: "(2 :: rat) powi (int b + 1 - 1 - 64) = 2 ^ b / 2 ^ 64" "(2 :: rat) powi (int b + 1 - 1 - 53) = 2 ^ b / 2 ^ 53"
     "(2 :: rat) powi (int b + 1) = 2 ^ (b + 1)"
    by (simp_all add: power_int_diff power_int_add)
  have e1: "\<bar>round_bits 64 ?s - ?s\<bar> \<le> 2 ^ b / 2 ^ 64"
    using round_bits_err_below [of ?s "int b + 1" 64] s b(2) unfolding pb by simp
  have P: "y < P" "t' < P" "\<bar>t' - s\<bar> \<le> P / 2 ^ 52"
    if "\<bar>y - s\<bar> \<le> B / 2 ^ 64" "s \<le> (1 - 1 / 2 ^ 53) * P" "B * (2049 / 2048) < P" "0 < B"
      "y < P \<Longrightarrow> \<bar>t' - y\<bar> \<le> B / 2 ^ 53" for y s B P t' :: rat
  proof -
    show y: "y < P" using that(1) [unfolded abs_le_iff] that(2-4) by (simp add: field_simps)
    show "t' < P" "\<bar>t' - s\<bar> \<le> P / 2 ^ 52"
      unfolding abs_le_iff using that(1) that(5) [OF y] that(2-4) unfolding abs_le_iff by (simp_all add: field_simps)
  qed
  have y0: "0 \<le> round_bits 64 ?s" using s(1) by (intro round_nonneg) simp_all
  have "\<bar>t - round_bits 64 ?s\<bar> \<le> 2 ^ b / 2 ^ 53" if "round_bits 64 ?s < 10 ^ p"
    using round_bits_err_below [of "round_bits 64 ?s" "int b + 1" 53] that y0 b(2) unfolding pb t by simp
  note tP = P(2,3) [OF e1 s1 b(1) _ this]
  show "t < 10 ^ p" by (rule tP) simp_all
  show "\<bar>t - ?s\<bar> \<le> 10 ^ p / 2 ^ 52" by (rule tP) simp_all
  have "significant 53 (t - of_int \<lfloor>t\<rfloor>)"
    by (rule significant_fraction(1) [OF _ t0]) (simp add: t significant_round)
  then show "frac_diff x87 v p = t - of_int \<lfloor>t\<rfloor>"
    using t0 by (simp add: frac_diff_def t_def [symmetric] round_significant [of 53])
qed

lemma x87_computes:
  assumes "significant 53 v" "0 \<le> v" "0 < p" "p \<le> 9"
  shows "computes x87 v v p (frac_part x87 v p)"
  using x87_fraction [OF assms] assms(2,4)
  by (simp add: computes_def pow10_nth half_x87)

lemma x87_ordinary:
  assumes "\<bar>v\<bar> \<le> 1000000000"
  shows "ordinary x87 v"
proof -
  have "(1000000000 :: rat) < 2 powi 1024 - 2 powi 971" by simp
  with assms show "ordinary x87 v" by (auto simp: ordinary_def PRINTF_MAX_FLOAT_def)
qed

lemma x87_nearest:
  assumes "0 < p" "p \<le> 9" "double_load bits = x" "0 \<le> x" "x \<le> 1000000000" "frac_part x87 x p \<noteq> 10 ^ p - 1 / 2"
  shows "\<exists>ws fs. render x87 (float_format p) [VLong bits] = Inr (ws @ chr CHR ''.'' # fs) \<and> length fs = p
    \<and> \<bar>of_nat (number_of 10 ws) + of_nat (number_of 10 fs) / 10 ^ p - x\<bar> \<le> 1 / (2 * 10 ^ p) + 1 / 2 ^ 52"
proof -
  let ?t = "frac_part x87 x p"
  have s: "significant 53 x" unfolding assms(3) [symmetric] by (rule significant_load)
  note c = x87_computes [OF s assms(4,1,2)] and e = x87_fraction(3) [OF s assms(4,1,2)]
  obtain ws fs where r: "render x87 (float_format p) [VLong bits] = Inr (ws @ chr CHR ''.'' # fs)" "length fs = p"
    "\<bar>of_nat (number_of 10 ws) * 10 ^ p + of_nat (number_of 10 fs) - (of_int \<lfloor>x\<rfloor> * 10 ^ p + ?t)\<bar> \<le> 1 / 2"
    using float_nearest [OF assms(1,2) _ _ _ assms(4,5), of x87 bits ?t] x87_ordinary [of x] assms c by auto
  let ?a = "of_nat (number_of 10 ws) * 10 ^ p + of_nat (number_of 10 fs) :: rat"
  have "x * 10 ^ p = of_int \<lfloor>x\<rfloor> * 10 ^ p + scaled x p" by (simp add: scaled_def algebra_simps)
  with r(3) e have "\<bar>?a - x * 10 ^ p\<bar> \<le> 1 / 2 + 10 ^ p / 2 ^ 52" by linarith
  then have "\<bar>?a - x * 10 ^ p\<bar> / 10 ^ p \<le> (1 / 2 + 10 ^ p / 2 ^ 52) / 10 ^ p" by (intro divide_right_mono) simp_all
  moreover have "(1 / 2 + 10 ^ p / 2 ^ 52) / 10 ^ p = 1 / (2 * 10 ^ p) + 1 / (2 :: rat) ^ 52" by (simp add: field_simps)
  moreover have "\<bar>?a - x * 10 ^ p\<bar> / 10 ^ p = \<bar>of_nat (number_of 10 ws) + of_nat (number_of 10 fs) / 10 ^ p - x\<bar>"
  proof -
    have "\<bar>?a - x * 10 ^ p\<bar> / 10 ^ p = \<bar>(?a - x * 10 ^ p) / 10 ^ p\<bar>" by (simp add: abs_divide)
    also have "(?a - x * 10 ^ p) / 10 ^ p = of_nat (number_of 10 ws) + of_nat (number_of 10 fs) / 10 ^ p - x"
      by (simp add: add_divide_distrib diff_divide_distrib)
    finally show ?thesis .
  qed
  ultimately show ?thesis using r(1,2) by metis
qed

lemma x87_tie:
  assumes "0 < p" "p \<le> 9" "double_load bits = x" "0 \<le> x" "x \<le> 1000000000" "frac_part x87 x p = 10 ^ p - 1 / 2"
  shows "render x87 (float_format p) [VLong bits] =
    Inr (replicate (31 - p) (chr CHR ''0'') @ chr CHR ''1'' # replicate p (chr CHR ''0''))"
proof -
  have s: "significant 53 x" unfolding assms(3) [symmetric] by (rule significant_load)
  have "(1 :: rat) \<le> 10 ^ p" by simp
  then have p: "0 \<le> (10 :: rat) ^ p - 1 / 2" by linarith
  have "\<lfloor>10 ^ p - 1 / 2 :: rat\<rfloor> = \<lfloor>of_int (10 ^ p) - 1 / 2 :: rat\<rfloor>" by simp
  also have "\<dots> = 10 ^ p - 1" by (simp only: floor_eq_iff) simp
  finally have f: "\<lfloor>10 ^ p - 1 / 2 :: rat\<rfloor> = 10 ^ p - 1" .
  have t: "f_trunc x87 (frac_part x87 x p) = 10 ^ p - 1" unfolding assms(6) x87_simps by (simp only: rat_trunc_nonneg [OF p] f)
  have "frac_diff x87 x p = 1 / 2" unfolding x87_fraction(4) [OF s assms(4,1,2)] assms(6) f by simp
  with t show ?thesis
    using float_tie [OF assms(1,2), of x87 bits] x87_ordinary [of x] assms(3-5) by (simp add: half_x87)
qed

section \<open>Bits of a double\<close>

lemma word_fields:
  fixes w :: u64
  shows "uint (drop_bit 52 w AND 0x7FF) = uint w div 2 ^ 52 mod 2 ^ 11"
    "uint (w AND (push_bit 52 1 - 1)) = uint w mod 2 ^ 52"
proof -
  have "(0x7FF :: u64) = mask 11" "push_bit 52 1 - 1 = (mask 52 :: u64)" by (simp_all add: mask_eq_exp_minus_1)
  then show "uint (drop_bit 52 w AND 0x7FF) = uint w div 2 ^ 52 mod 2 ^ 11"
    "uint (w AND (push_bit 52 1 - 1)) = uint w mod 2 ^ 52"
    by (simp_all only: take_bit_eq_mask [symmetric] take_bit_eq_mod drop_bit_eq_div) (simp_all add: uint_div uint_mod)
qed

lemma uint_fields:
  assumes "0 \<le> f" "f < 2048" "0 \<le> m" "m < 2 ^ 52"
  shows "uint (word_of_int (2 ^ 52 * f + m) :: u64) = 2 ^ 52 * f + m"
proof -
  have "uint (word_of_int n :: u64) = n" if "0 \<le> n" "n < 2 ^ 64" for n
    using that by (simp add: uint_word_of_int_eq take_bit_int_eq_self)
  from this [of "2 ^ 52 * f + m"] show ?thesis using assms by simp
qed

lemma double_load_fields:
  assumes "0 \<le> f" "f < 2048" "0 \<le> m" "m < 2 ^ 52"
  shows "double_load (word_of_int (2 ^ 52 * f + m)) = (if f = 2047 then 2 powi 1024
    else if f = 0 then of_int m * 2 powi (- 1074) else of_int (2 ^ 52 + m) * 2 powi (f - 1075))"
proof -
  let ?w = "word_of_int (2 ^ 52 * f + m) :: u64"
  note u = uint_fields [OF assms]
  have fm: "uint (drop_bit 52 ?w AND 0x7FF) = f" "uint (?w AND (push_bit 52 1 - 1)) = m"
    unfolding word_fields u using assms by simp_all
  have "bit (uint ?w) 63 \<longleftrightarrow> odd ((2 ^ 52 * f + m) div 2 ^ 63)" by (simp only: u bit_iff_odd)
  moreover have "(2 ^ 52 * f + m) div 2 ^ 63 = 0" using assms by simp
  ultimately have "\<not> bit ?w 63" by (simp add: bit_uint_iff)
  with fm show ?thesis by (simp add: double_load_def Let_def)
qed

lemma double_bits_fields:
  assumes "0 \<le> x" "x < 2 powi 1024"
  shows "\<exists>f m. double_bits x = word_of_int (2 ^ 52 * f + m) \<and> 0 \<le> f \<and> f < 2047 \<and> 0 \<le> m \<and> m < 2 ^ 52
    \<and> x < 2 powi (f - 1022) \<and> (f = 0 \<or> 2 powi (f - 1023) \<le> x)"
proof (cases "x < 2 powi (- 1022)")
  case True
  have "\<lfloor>x / 2 powi (- 1074)\<rfloor> < 2 ^ 52" using True by (simp add: floor_less_iff power_int_minus field_simps)
  moreover have "0 \<le> \<lfloor>x / 2 powi (- 1074)\<rfloor>" using assms(1) by simp
  ultimately show ?thesis using True assms(1)
    by (intro exI [of _ 0] exI [of _ "\<lfloor>x / 2 powi (- 1074)\<rfloor>"]) (simp add: double_bits_def)
next
  case False
  have "(0 :: rat) < 2 powi (- 1022)" by simp
  with False have x: "0 < x" by linarith
  let ?e = "binade x"
  note b = binade_bounds [OF x]
  have e: "?e < 1024" "- 1022 \<le> ?e"
  proof -
    show "?e < 1024" using b(1) assms(2) by (intro powi_less_cancel) (rule le_less_trans)
    have "- 1022 < ?e + 1" using b(2) False by (intro powi_less_cancel) simp
    then show "- 1022 \<le> ?e" by simp
  qed
  have p: "2 powi ?e = 2 ^ 52 * (2 :: rat) powi (?e - 52)" "2 powi (?e + 1) = 2 ^ 53 * (2 :: rat) powi (?e - 52)"
    by (simp_all add: power_int_diff power_int_add)
  have "2 ^ 52 \<le> x / 2 powi (?e - 52)" "x / 2 powi (?e - 52) < 2 ^ 53"
    using b unfolding p by (simp_all only: le_divide_eq divide_less_eq zero_less_power_int zero_less_numeral if_True)
  then have "2 ^ 52 \<le> \<lfloor>x / 2 powi (?e - 52)\<rfloor>" "\<lfloor>x / 2 powi (?e - 52)\<rfloor> < 2 ^ 53"
    by (simp_all add: le_floor_iff floor_less_iff)
  then show ?thesis using False x b e
    by (intro exI [of _ "?e + 1023"] exI [of _ "\<lfloor>x / 2 powi (?e - 52)\<rfloor> - 2 ^ 52"])
      (simp add: double_bits_def Let_def add.commute)
qed

end
