(* ===== verification/Printf_Float_Range.thy ===== *)
theory Printf_Float_Range
  imports Printf_Float_X87
begin

text \<open>
  The exponential conversion on the arithmetic of the target: the estimates \<open>_etoa\<close> makes of the decimal
  exponent and of its power of ten, with their errors, bound the mantissa it hands to \<open>_ftoa\<close>; so
  the two routines call each other at most three deep, and return for every double.
\<close>

section \<open>Errors\<close>

text \<open>\<open>near e x y\<close>: \<open>x\<close> differs from \<open>y\<close> by at most \<open>e\<close>. A rounding of a number below 2000 errs by at most \<open>eps\<close>.\<close>

definition near :: "rat \<Rightarrow> rat \<Rightarrow> rat \<Rightarrow> bool" where
  "near e x y \<longleftrightarrow> y - e \<le> x \<and> x \<le> y + e"

abbreviation eps :: rat where
  "eps \<equiv> 1 / 1000000000"

lemma near_abs: "near e x y \<longleftrightarrow> \<bar>x - y\<bar> \<le> e"
  by (auto simp: near_def)

lemma fl_near:
  assumes "near 2000 x 0" "53 \<le> p"
  shows "near eps (round_bits p x) x"
proof -
  have "\<bar>round_bits p x - x\<bar> \<le> 2 powi (11 - 1 - p)"
    using assms(1) by (intro round_bits_err_below) (simp add: near_abs)
  also have "\<dots> \<le> 2 powi (- 43)" using assms(2) by (intro power_int_increasing) simp_all
  also have "\<dots> \<le> eps" by simp
  finally show ?thesis by (simp add: near_abs)
qed

lemma fl_relative:
  assumes "0 \<le> x" "53 \<le> p"
  shows "999999999 * x \<le> 1000000000 * round_bits p x" "round_bits p x \<le> 2 * x"
proof -
  have "2 powi (- p) \<le> (2 powi (- 53) :: rat)" using assms(2) by (intro power_int_increasing) simp_all
  also have "\<dots> \<le> eps" by simp
  finally have "\<bar>x\<bar> * 2 powi (- p) \<le> x * eps" using assms(1) mult_left_mono [of "2 powi (- p)" eps x] by simp
  then have "near (x * eps) (round_bits p x) x" using round_bits_err [of p x] by (simp add: near_abs)
  with assms(1) show "999999999 * x \<le> 1000000000 * round_bits p x" "round_bits p x \<le> 2 * x"
    unfolding near_def by linarith+
qed

lemma near_mult:
  assumes "near a x 0" "near b c 0" "0 \<le> a"
  shows "near (a * b) (x * c) 0"
  using assms mult_mono [of "\<bar>x\<bar>" a "\<bar>c\<bar>" b] by (simp add: near_abs abs_mult)

lemma fl_mul:
  assumes "near 1100 x 0" "near 1500 (x * c) 0" "near eps c' c"
  shows "near (2 / 1000000) (round_bits 64 (x * c')) (x * c)"
proof -
  have "near eps (c' - c) 0" using assms(3) by (simp add: near_abs)
  from near_mult [OF assms(1) this] have d: "near (11 / 10000000) (x * c') (x * c)"
    by (simp add: near_abs right_diff_distrib)
  then have "near 2000 (x * c') 0" using assms(2) unfolding near_def by linarith
  from fl_near [OF this, of 64] d show ?thesis unfolding near_def by linarith
qed

lemma fl_add:
  assumes "near d x a" "near e y b" "near 1900 (a + b) 0" "d + e \<le> 1 / 10"
  shows "near (d + e + eps) (round_bits 64 (x + y)) (a + b)"
proof -
  have "near 2000 (x + y) 0" using assms unfolding near_def by linarith
  from fl_near [OF this, of 64] assms show ?thesis unfolding near_def by linarith
qed

lemma fl_sub:
  assumes "near d x a" "near e y b" "near 1900 (a - b) 0" "d + e \<le> 1 / 10"
  shows "near (d + e + eps) (round_bits 64 (x - y)) (a - b)"
  using fl_add [OF assms(1), of e "- y" "- b"] assms by (simp add: near_def)

lemma rat_trunc_bounds:
  "of_int (rat_trunc x) > x - 1" "of_int (rat_trunc x) < x + 1"
  "0 \<le> x \<Longrightarrow> of_int (rat_trunc x) \<le> x" "x \<le> 0 \<Longrightarrow> x \<le> of_int (rat_trunc x)"
  unfolding rat_trunc_def by (auto simp: not_le) linarith+

section \<open>The steps of \<open>_etoa\<close>\<close>

abbreviation "ln_a \<equiv> 1760912590558 / 10000000000000 :: rat"
abbreviation "lg_2 \<equiv> 301029995663981 / 1000000000000000 :: rat"
abbreviation "lg_c \<equiv> 289529654602168 / 1000000000000000 :: rat"
abbreviation "ld_10 \<equiv> 3321928094887362 / 1000000000000000 :: rat"
abbreviation "ln_10 \<equiv> 2302585092994046 / 1000000000000000 :: rat"
abbreviation "ln_2 \<equiv> 6931471805599453 / 10000000000000000 :: rat"

definition expval_of :: "rat \<Rightarrow> rat \<Rightarrow> rat" where
  "expval_of E c = f_add x87 (f_add x87 (f_dec x87 1760912590558 13) (f_mul x87 E (f_dec x87 301029995663981 15)))
     (f_mul x87 (f_sub x87 c (f_dec x87 15 1)) (f_dec x87 289529654602168 15))"

definition exp2_of :: "rat \<Rightarrow> rat" where
  "exp2_of k = f_add x87 (f_mul x87 k (f_dec x87 3321928094887362 15)) (half x87)"

definition z_of :: "rat \<Rightarrow> rat \<Rightarrow> rat" where
  "z_of k j = f_store x87 (f_sub x87 (f_mul x87 k (f_dec x87 2302585092994046 15)) (f_mul x87 j (f_dec x87 6931471805599453 16)))"

lemma constants:
  "near eps (f_dec x87 1760912590558 13) ln_a" "near eps (f_dec x87 301029995663981 15) lg_2"
  "near eps (f_dec x87 289529654602168 15) lg_c" "near eps (f_dec x87 15 1) (3 / 2)"
  "near eps (f_dec x87 3321928094887362 15) ld_10" "near eps (half x87) (1 / 2)"
  "near eps (f_dec x87 2302585092994046 15) ln_10" "near eps (f_dec x87 6931471805599453 16) ln_2"
  using fl_near [of ln_a 53] fl_near [of lg_2 53] fl_near [of lg_c 53] fl_near [of "3 / 2" 53] fl_near [of ld_10 53]
    fl_near [of "1 / 2" 53] fl_near [of ln_10 53] fl_near [of ln_2 53]
  by (simp_all add: near_abs [of 2000])

lemma expval_estimate:
  assumes "near 1023 E 0" "1 \<le> c" "c < 2"
  shows "near (15 / 100) (expval_of E c) (ln_a + E * lg_2)"
proof -
  have Eb: "near (1023 * lg_2) (E * lg_2) 0" using assms(1) by (intro near_mult) (simp_all add: near_def)
  have m1: "near (2 / 1000000) (round_bits 64 (E * f_dec x87 301029995663981 15)) (E * lg_2)"
    using assms(1) Eb by (intro fl_mul constants) (simp_all add: near_def)
  have s1: "near (eps + 2 / 1000000 + eps) (round_bits 64 (f_dec x87 1760912590558 13
      + round_bits 64 (E * f_dec x87 301029995663981 15))) (ln_a + E * lg_2)"
    using Eb by (intro fl_add constants m1) (simp_all add: near_def)
  define y where "y = round_bits 64 (c - f_dec x87 15 1)"
  have "near (0 + eps + eps) y (c - 3 / 2)"
    unfolding y_def using assms(2,3) by (intro fl_sub constants) (simp_all add: near_def)
  then have y: "near (51 / 100) y 0" using assms(2,3) unfolding near_def by linarith
  have yc: "near (51 / 100 * lg_c) (y * lg_c) 0" by (intro near_mult y) (simp_all add: near_def)
  have m2: "near (2 / 1000000) (round_bits 64 (y * f_dec x87 289529654602168 15)) (y * lg_c)"
    using y yc by (intro fl_mul constants) (simp_all add: near_def)
  have "near (eps + 2 / 1000000 + eps + 2 / 1000000 + eps) (expval_of E c) (ln_a + E * lg_2 + y * lg_c)"
    unfolding expval_of_def x87_simps(7-9) y_def [symmetric]
    using Eb yc by (intro fl_add s1 m2) (simp_all add: near_def)
  with yc show ?thesis unfolding near_def by simp
qed

lemma exp2_estimate:
  assumes "near 310 k 0"
  shows "near (1 / 100000) (exp2_of k) (k * ld_10 + 1 / 2)"
proof -
  have kb: "near (310 * ld_10) (k * ld_10) 0" using assms by (intro near_mult) (simp_all add: near_def)
  have m: "near (2 / 1000000) (round_bits 64 (k * f_dec x87 3321928094887362 15)) (k * ld_10)"
    using assms kb by (intro fl_mul constants) (simp_all add: near_def)
  have "near (2 / 1000000 + eps + eps) (exp2_of k) (k * ld_10 + 1 / 2)"
    unfolding exp2_of_def x87_simps(7,9) using kb by (intro fl_add m constants) (simp_all add: near_def)
  then show ?thesis unfolding near_def by simp
qed

lemma z_estimate:
  assumes "near 310 k 0" "near 1100 j 0" "near (10001 / 10000) j (k * ld_10 + 1 / 2)"
  shows "- 105 / 100 \<le> z_of k j" "z_of k j \<le> 35 / 100"
proof -
  have kb: "near (310 * ln_10) (k * ln_10) 0" and jb: "near (1100 * ln_2) (j * ln_2) 0"
    using assms(1,2) by (intro near_mult; simp add: near_def)+
  have m: "near (2 / 1000000) (round_bits 64 (k * f_dec x87 2302585092994046 15)) (k * ln_10)"
    "near (2 / 1000000) (round_bits 64 (j * f_dec x87 6931471805599453 16)) (j * ln_2)"
    using assms(1,2) kb jb by (intro fl_mul constants; simp add: near_def)+
  have d: "k * ln_10 - j * ln_2 \<le> 348 / 1000" "- 1044 / 1000 \<le> k * ln_10 - j * ln_2"
    using assms(1,3) unfolding near_def by simp_all
  have s: "near (2 / 1000000 + 2 / 1000000 + eps) (round_bits 64 (round_bits 64 (k * f_dec x87 2302585092994046 15)
      - round_bits 64 (j * f_dec x87 6931471805599453 16))) (k * ln_10 - j * ln_2)"
    using d unfolding near_def [of 1900] by (intro fl_sub m) (simp_all add: near_def)
  then have "near eps (z_of k j) (round_bits 64 (round_bits 64 (k * f_dec x87 2302585092994046 15)
      - round_bits 64 (j * f_dec x87 6931471805599453 16)))"
    unfolding z_of_def x87_simps(3,8,9) using d by (intro fl_near) (simp_all add: near_def)
  with s d show "- 105 / 100 \<le> z_of k j" "z_of k j \<le> 35 / 100" unfolding near_def by simp_all
qed

definition pade_of :: "rat \<Rightarrow> rat" where
  "pade_of z = (let z2 = f_store x87 (f_mul x87 z z) in
     f_add x87 (f_int x87 1) (f_div x87 (f_mul x87 (f_int x87 2) z)
       (f_add x87 (f_sub x87 (f_int x87 2) z) (f_div x87 z2 (f_add x87 (f_int x87 6)
         (f_div x87 z2 (f_add x87 (f_int x87 10) (f_div x87 z2 (f_int x87 14)))))))))"

lemma pade_estimate:
  assumes "- 105 / 100 \<le> z" "z \<le> 35 / 100"
  shows "30 / 100 \<le> pade_of z"
proof -
  define z2 where "z2 = round_bits 53 (round_bits 64 (z * z))"
  define g where "g = round_bits 64 (z2 / round_bits 64 (6 + round_bits 64 (z2 / round_bits 64 (10 + round_bits 64 (z2 / 14)))))"
  define w where "w = round_bits 64 (2 - z) + g"
  define D where "D = round_bits 64 w"
  define q where "q = round_bits 64 (2 * z) / D"
  have g: "0 \<le> g" unfolding g_def z2_def by (intro round_nonneg divide_nonneg_nonneg add_nonneg_nonneg) simp_all
  have h: "near eps (round_bits 64 (2 - z)) (2 - z)" "near eps (round_bits 64 (2 * z)) (2 * z)"
    using assms by (intro fl_near; simp add: near_def)+
  have s: "1 \<le> w" "2 - z - eps \<le> w" using h(1) g assms unfolding w_def near_def by linarith+
  then have "999999999 * w \<le> 1000000000 * D" using fl_relative(1) [of w 64] by (simp add: D_def)
  with s assms have D: "2 - z - 1 / 10000000 \<le> D" by linarith
  then have D0: "0 < D" using assms by simp
  have "- (69 / 100) * D \<le> round_bits 64 (2 * z)" using D h(2) assms unfolding near_def by linarith
  then have q: "- (69 / 100) \<le> q" using D0 by (simp add: q_def le_divide_eq)
  have "- (691 / 1000) \<le> round_bits 64 q"
  proof (cases "0 \<le> q")
    case True
    then have "0 \<le> round_bits 64 q" by (intro round_nonneg) simp_all
    then show ?thesis by simp
  next
    case False
    then have "near eps (round_bits 64 q) q" using q by (intro fl_near) (simp_all add: near_def)
    with q show ?thesis unfolding near_def by simp
  qed
  have "pade_of z = round_bits 64 (1 + round_bits 64 q)"
    by (simp add: pade_of_def q_def D_def w_def g_def z2_def Let_def)
  have "0 \<le> 1 + round_bits 64 q" using \<open>- (691 / 1000) \<le> round_bits 64 q\<close> by simp
  then have "999999999 * (1 + round_bits 64 q) \<le> 1000000000 * pade_of z"
    using fl_relative(1) [of "1 + round_bits 64 q" 64] \<open>pade_of z = round_bits 64 (1 + round_bits 64 q)\<close> by simp
  with \<open>- (691 / 1000) \<le> round_bits 64 q\<close> show ?thesis by simp
qed

section \<open>The mantissa\<close>

lemma word_or_of_int: "(word_of_int a :: u64) OR word_of_int b = word_of_int (a OR b)"
  by (rule bit_word_eqI) (simp add: bit_word_of_int_iff bit_or_iff)

lemma mantissa_or:
  assumes "0 \<le> m" "m < 2 ^ 52"
  shows "(word_of_int m :: u64) OR push_bit 52 1023 = word_of_int (2 ^ 52 * 1023 + m)"
proof -
  have "take_bit 52 m = m" using assms by (simp add: take_bit_int_eq_self)
  then have "\<not> bit m n \<or> \<not> bit (push_bit 52 (1023 :: int)) n" for n
    by (metis bit_push_bit_iff bit_take_bit_iff not_le)
  then have "m OR push_bit 52 1023 = m + push_bit 52 (1023 :: int)" by (rule disjunctive_add [symmetric])
  then have "(word_of_int m :: u64) OR word_of_int (push_bit 52 1023) = word_of_int (m + push_bit 52 1023)"
    by (metis (no_types) word_or_of_int)
  then show ?thesis by (simp add: push_bit_eq_mult add.commute)
qed

lemma exponent_steps:
  assumes "0 \<le> v" "v < 2 powi 1024"
  obtains E c k j where "near 1023 (of_int E) 0" "v < 2 powi (E + 1)" "E = - 1023 \<or> 2 powi E \<le> v" "1 \<le> c" "c < 2"
    "k = rat_trunc (expval_of (of_int E) c)" "j = rat_trunc (exp2_of (of_int k))"
    "etoa_exponent x87 v = (let cF = round_bits 53 (round_bits 64 (double_load (push_bit 52 (word_of_int (j + 1023)))
         * pade_of (z_of (of_int k) (of_int j))))
       in if v < cF then (k - 1, round_bits 53 (round_bits 64 (cF / 10))) else (k, cF))"
proof -
  obtain f m where d: "double_bits v = word_of_int (2 ^ 52 * f + m)" "0 \<le> f" "f < 2047" "0 \<le> m" "m < 2 ^ 52"
    "v < 2 powi (f - 1022)" "f = 0 \<or> 2 powi (f - 1023) \<le> v" using double_bits_fields [OF assms] by blast
  let ?U = "word_of_int (2 ^ 52 * f + m) :: u64"
  have u: "uint ?U = 2 ^ 52 * f + m" by (rule uint_fields) (use d in simp_all)
  have E: "uint (drop_bit 52 ?U AND 0x7FF) = f" unfolding word_fields u using d by simp
  have "uint (?U AND (push_bit 52 1 - 1)) = m" unfolding word_fields u using d by simp
  then have "?U AND (push_bit 52 1 - 1) = word_of_int m" by (metis word_of_int_uint)
  then have W: "(?U AND (push_bit 52 1 - 1)) OR push_bit 52 1023 = word_of_int (2 ^ 52 * 1023 + m)"
    using mantissa_or [OF d(4,5)] by simp
  define c where "c = double_load (word_of_int (2 ^ 52 * 1023 + m))"
  have "c = of_int (2 ^ 52 + m) * 2 powi (1023 - 1075)"
    unfolding c_def using double_load_fields [of 1023 m] d(4,5) by simp
  then have cm: "c = (2 ^ 52 + of_int m) / 2 ^ 52" by (simp add: power_int_minus)
  have "(0 :: rat) \<le> of_int m" "of_int m < (of_int (2 ^ 52) :: rat)" using d(4,5) by (simp_all only: of_int_0_le_iff of_int_less_iff)
  then have c: "1 \<le> c" "c < 2" unfolding cm by simp_all
  show ?thesis
  proof (rule that [of "f - 1023" c])
    show "near 1023 (of_int (f - 1023)) 0" using d(2,3) by (simp add: near_def)
    show "v < 2 powi (f - 1023 + 1)" using d(6) by simp
    show "f - 1023 = - 1023 \<or> 2 powi (f - 1023) \<le> v" using d(7) by simp
    show "etoa_exponent x87 v = (let cF = round_bits 53 (round_bits 64 (double_load (push_bit 52
          (word_of_int (rat_trunc (exp2_of (of_int (rat_trunc (expval_of (of_int (f - 1023)) c)))) + 1023)))
         * pade_of (z_of (of_int (rat_trunc (expval_of (of_int (f - 1023)) c)))
            (of_int (rat_trunc (exp2_of (of_int (rat_trunc (expval_of (of_int (f - 1023)) c)))))))))
       in if v < cF then (rat_trunc (expval_of (of_int (f - 1023)) c) - 1, round_bits 53 (round_bits 64 (cF / 10)))
          else (rat_trunc (expval_of (of_int (f - 1023)) c), cF))"
      unfolding etoa_exponent_def x87_simps(2) d(1) Let_def E W x87_simps(1) c_def [symmetric]
      by (simp add: expval_of_def exp2_of_def z_of_def pade_of_def Let_def)
  qed (use c in simp_all)
qed

text \<open>What \<open>_etoa\<close> divides by is so near the number that the mantissa is small.\<close>

lemma mantissa_range:
  assumes "0 \<le> v" "v < 2 powi 1024" "etoa_exponent x87 v = (k', d)"
  shows "if k' = 0 then v \<le> 200 else 0 \<le> v / d \<and> v / d \<le> 100" "1 / 10001 \<le> v \<Longrightarrow> - 5 \<le> k'"
proof -
  obtain E c k j where e: "near 1023 (of_int E) 0" "v < 2 powi (E + 1)" "E = - 1023 \<or> 2 powi E \<le> v" "1 \<le> c" "c < 2"
    "k = rat_trunc (expval_of (of_int E) c)" "j = rat_trunc (exp2_of (of_int k))"
    "etoa_exponent x87 v = (let cF = round_bits 53 (round_bits 64 (double_load (push_bit 52 (word_of_int (j + 1023)))
         * pade_of (z_of (of_int k) (of_int j))))
       in if v < cF then (k - 1, round_bits 53 (round_bits 64 (cF / 10))) else (k, cF))"
    by (rule exponent_steps [OF assms(1,2)])
  let ?X = "expval_of (of_int E) c" and ?Y = "exp2_of (of_int k)"
  have X: "near (15 / 100) ?X (ln_a + of_int E * lg_2)" by (rule expval_estimate [OF e(1,4,5)])
  note kt = rat_trunc_bounds [of ?X, folded e(6)] and jt = rat_trunc_bounds [of ?Y, folded e(7)]
  have kr: "- 308 \<le> k" "k \<le> 308"
  proof -
    have "(of_int k :: rat) < 309" "- 309 < (of_int k :: rat)"
      using X e(1) kt unfolding near_def by linarith+
    then show "- 308 \<le> k" "k \<le> 308" by linarith+
  qed
  have k: "near 310 (of_int k) 0" using kr by (simp add: near_def)
  have Y: "near (1 / 100000) ?Y (of_int k * ld_10 + 1 / 2)" by (rule exp2_estimate [OF k])
  have jn: "near (10001 / 10000) (of_int j) (of_int k * ld_10 + 1 / 2)" using Y jt unfolding near_def by linarith
  have jr: "- 1022 \<le> j" "j \<le> 1023"
  proof -
    have kr': "(of_int k :: rat) \<le> 308" "- 308 \<le> (of_int k :: rat)" using kr by simp_all
    have "(of_int j :: rat) < 1024" "- 1023 < (of_int j :: rat)"
      using Y jt kr' unfolding near_def by linarith+
    then show "- 1022 \<le> j" "j \<le> 1023" by linarith+
  qed
  have "near 1100 (of_int j) 0" using jr by (simp add: near_def)
  note P = pade_estimate [OF z_estimate [OF k this jn]]
  let ?P = "pade_of (z_of (of_int k) (of_int j))"
  have "push_bit 52 (word_of_int (j + 1023) :: u64) = word_of_int (2 ^ 52 * (j + 1023) + 0)" by (simp add: push_bit_eq_mult algebra_simps)
  then have l: "double_load (push_bit 52 (word_of_int (j + 1023))) = 2 powi j"
    using double_load_fields [of "j + 1023" 0] jr
    by (simp add: power_int_diff power_int_add)
  define cF where "cF = round_bits 53 (round_bits 64 (2 powi j * ?P))"
  have r: "etoa_exponent x87 v = (if v < cF then (k - 1, round_bits 53 (round_bits 64 (cF / 10))) else (k, cF))"
    unfolding e(8) l by (simp add: cF_def Let_def)
  have cF: "2 powi j * (29 / 100) \<le> cF"
  proof -
    have "2 powi j * (30 / 100) \<le> 2 powi j * ?P" using P by (intro mult_left_mono) simp_all
    moreover have "0 \<le> 2 powi j * ?P" using P by simp
    note fl_relative(1) [OF this, of 64] fl_relative(1) [of "round_bits 64 (2 powi j * ?P)" 53]
    moreover have "0 \<le> round_bits 64 (2 powi j * ?P)" using \<open>0 \<le> 2 powi j * ?P\<close> by (intro round_nonneg) simp_all
    moreover have "(0 :: rat) < 2 powi j" by simp
    ultimately show ?thesis unfolding cF_def by linarith
  qed
  have p: "(0 :: rat) < 2 powi j" by simp
  have "E \<le> j + 3"
  proof -
    have "(of_int E :: rat) < of_int j + 4" using X jn kt e(1) unfolding near_def by linarith
    then show ?thesis by linarith
  qed
  then have "(2 :: rat) powi (E + 1) \<le> 2 powi (4 + j)" by (intro power_int_increasing) simp_all
  also have "\<dots> = 16 * 2 powi j" by (simp add: power_int_add)
  finally have v: "v < 16 * 2 powi j" using e(2) by simp
  have small: "v \<le> 200" if "k \<le> 1"
  proof -
    have "(of_int k :: rat) \<le> 1" using that by simp
    then have "(of_int E :: rat) < 7" using X kt unfolding near_def by linarith
    then have "(2 :: rat) powi (E + 1) \<le> 2 powi 7" by (intro power_int_increasing) linarith+
    with e(2) show ?thesis by simp
  qed
  have d0: "0 < cF" using cF p by linarith
  show "if k' = 0 then v \<le> 200 else 0 \<le> v / d \<and> v / d \<le> 100"
  proof (cases "v < cF")
    case True
    then have k': "k' = k - 1" "d = round_bits 53 (round_bits 64 (cF / 10))" using assms(3) r by simp_all
    have "cF / 11 \<le> d"
      using fl_relative(1) [of "cF / 10" 64] fl_relative(1) [of "round_bits 64 (cF / 10)" 53]
        round_nonneg [of "cF / 10" 64] d0 unfolding k'(2) by simp
    then have "v < 11 * d" "0 < d" using True d0 by linarith+
    then have q: "0 \<le> v / d \<and> v / d \<le> 100" using assms(1) by (simp add: divide_le_eq)
    show ?thesis using q small k'(1) by simp
  next
    case False
    then have k': "k' = k" "d = cF" using assms(3) r by simp_all
    have "v < 100 * d" using v cF p unfolding k'(2) by linarith
    then have q: "0 \<le> v / d \<and> v / d \<le> 100" using assms(1) d0 k'(2) by (simp add: divide_le_eq)
    show ?thesis using q small k'(1) by simp
  qed
  assume t: "1 / 10001 \<le> v"
  have "(1 / 16384 :: rat) = 2 powi (- 14)" by (simp add: power_int_minus)
  with e(2) t have "(2 :: rat) powi (- 14) < 2 powi (E + 1)" by linarith
  then have "- 14 < E + 1" by (rule powi_less_cancel)
  then have "- 14 \<le> (of_int E :: rat)" by simp
  then have "- 5 < (of_int k :: rat)" using X kt by (cases "?X \<le> 0") (auto simp: near_def)
  then have "- 5 < k" by linarith
  then show "- 5 \<le> k'" using r assms(3) by (auto split: if_splits)
qed

section \<open>The calls return\<close>

lemma fixed_chars_returns:
  assumes "has_flag flags FLAGS_PRECISION \<Longrightarrow> unat prec < 42"
  shows "\<exists>cs. fixed_chars F v prec width flags = Inr cs"
proof -
  define q where "q = (if has_flag flags FLAGS_PRECISION then prec else 6)"
  have q: "unat q < 42" using assms by (simp add: q_def)
  have "limit_prec q [] = (replicate (unat q - 9) (chr CHR ''0''), q - of_nat (unat q - 9))"
    using limit_prec_spec [of "[]" q] q by (simp add: Let_def min_def)
  moreover have "unat (q - of_nat (unat q - 9)) < 10"
    using q by (simp add: unat_sub_u32 unat_of_nat_u32)
  ultimately show ?thesis by (simp add: fixed_chars_def q_def [symmetric] Let_def case_prod_beta)
qed

lemma ftoa_small:
  assumes "\<bar>v\<bar> \<le> 1000000000" "has_flag flags FLAGS_PRECISION \<Longrightarrow> unat prec < 42"
  shows "\<exists>cs. ftoa_chars x87 (Suc n) v prec width flags = Inr cs"
  using ftoa_chars_ordinary [OF x87_ordinary [OF assms(1)]] fixed_chars_returns [OF assms(2)] by metis

lemma precision_left:
  "has_flag (flags AND NOT FLAGS_ADAPT_EXP) FLAGS_PRECISION = has_flag flags FLAGS_PRECISION"
proof -
  have "(flags AND NOT FLAGS_ADAPT_EXP) AND FLAGS_PRECISION = flags AND FLAGS_PRECISION"
    by (rule bit_word_eqI) (auto simp: bit_simps FLAGS_ADAPT_EXP_def FLAGS_PRECISION_def simp del: push_bit_of_1)
  then show ?thesis by simp
qed

lemma mantissa_small:
  assumes "0 \<le> v" "v < 2 powi 1024" "etoa_exponent x87 v = (k', d)"
  shows "k' = 0 \<Longrightarrow> \<bar>v\<bar> \<le> 1000000000" "k' \<noteq> 0 \<Longrightarrow> \<bar>round_bits 53 (round_bits 64 (v / d))\<bar> \<le> 1000000000"
proof -
  note m = mantissa_range(1) [OF assms]
  show "\<bar>v\<bar> \<le> 1000000000" if "k' = 0" using m that assms(1) by simp
  assume "k' \<noteq> 0"
  then have q: "0 \<le> v / d" "v / d \<le> 100" using m by simp_all
  have "0 \<le> round_bits 64 (v / d)" using q(1) by (intro round_nonneg) simp_all
  from fl_relative(2) [OF this, of 53] fl_relative(2) [OF q(1), of 64] q round_nonneg [OF this, of 53]
  show "\<bar>round_bits 53 (round_bits 64 (v / d))\<bar> \<le> 1000000000" by simp
qed

definition precision_ok :: "u32 \<Rightarrow> u32 \<Rightarrow> bool" where
  "precision_ok prec flags \<longleftrightarrow> has_flag flags FLAGS_PRECISION \<longrightarrow>
     unat prec < (if has_flag flags FLAGS_ADAPT_EXP then 38 else 42)"

lemma adapt_exponent:
  assumes "etoa_adapt x87 v p flags mw k = (p', fl, mw', k')" "etoa_exponent x87 v = (k, d)" "0 \<le> v" "v < 2 powi 1024"
  shows "(k' = 0 \<longrightarrow> \<bar>v\<bar> \<le> 1000000000) \<and> (k' \<noteq> 0 \<longrightarrow> k' = k)"
  using assms(1) mantissa_small(1) [OF assms(3,4,2)] assms(3)
  by (auto simp: etoa_adapt_def split: if_splits)

lemma adapt_precision:
  assumes "etoa_adapt x87 v p flags mw k = (p', fl, mw', k')" "etoa_exponent x87 v = (k, d)" "0 \<le> v" "v < 2 powi 1024"
    "unat p < (if has_flag flags FLAGS_ADAPT_EXP then 38 else 42)"
  shows "unat p' < 42"
proof -
  consider "\<not> has_flag flags FLAGS_ADAPT_EXP" "p' = p"
    | "has_flag flags FLAGS_ADAPT_EXP" "p' = p \<or> 0 < p \<and> p' = p - 1"
    | "has_flag flags FLAGS_ADAPT_EXP" "round_bits 53 (1 / 10000) \<le> v" "p' = 0 \<or> p' = word_of_int (sint p - k - 1) \<and> k < sint p"
    using assms(1) by (auto simp: etoa_adapt_def split: if_splits)
  then show ?thesis
  proof cases
    case 3
    have "1 / 10001 \<le> round_bits 53 (1 / 10000)" using fl_relative(1) [of "1 / 10000" 53] by simp
    then have "- 5 \<le> k" using 3(2) by (intro mantissa_range(2) [OF assms(3,4,2)]) simp
    have n: "uint p = int (unat p)" by simp
    have "unat p < 38" using assms(5) 3(1) by (simp split: if_splits)
    with n have u: "uint p < 38" by linarith
    have "sint p = signed_take_bit 31 (uint p)" unfolding sint_uint by simp
    also have "\<dots> = uint p"
    proof (rule signed_take_bit_int_eq_self)
      show "- (2 ^ 31) \<le> uint p" by (rule order_trans [OF _ uint_ge_0]) simp
      show "uint p < 2 ^ 31" using u by simp
    qed
    finally have s: "sint p = uint p" .
    have "unat (word_of_int i :: u32) < 42" if "0 \<le> i" "i < 42" for i
      using that by (simp add: unsigned_of_int take_bit_int_eq_self nat_less_iff)
    from this [of "sint p - k - 1"] 3(3) \<open>- 5 \<le> k\<close> u s show ?thesis by auto
  qed (use assms(5) in \<open>auto simp: unat_minus_one\<close>)
qed

lemma etoa_returns:
  assumes "significant 53 v" "\<bar>v\<bar> < 2 powi 1024" "\<not> f_special x87 v" "precision_ok prec flags"
  shows "\<exists>cs. etoa_chars x87 (Suc (Suc n)) v prec width flags = Inr cs"
proof -
  have r: "round_bits 53 (- v) = - v"
    by (rule round_significant [OF significant_minus [OF assms(1)]]) simp_all
  obtain k d where kd: "etoa_exponent x87 \<bar>v\<bar> = (k, d)" by fastforce
  have va: "(if v < 0 then - v else v) = \<bar>v\<bar>" by simp
  note m = mantissa_small [OF abs_ge_zero assms(2) kd]
  define p where "p = (if has_flag flags FLAGS_PRECISION then prec else 6)"
  define mw :: u32 where "mw = (if k < 100 \<and> - 100 < k then 4 else 5)"
  obtain p' fl mw' k' where a: "etoa_adapt x87 \<bar>v\<bar> p flags mw k = (p', fl, mw', k')" by (metis prod_cases4)
  note k' = adapt_exponent [OF a kd abs_ge_zero assms(2)]
  have p': "has_flag fl FLAGS_PRECISION \<Longrightarrow> unat p' < 42"
  proof (cases "has_flag flags FLAGS_PRECISION")
    case True
    then show ?thesis
      using adapt_precision [OF a kd abs_ge_zero assms(2)] assms(4) by (simp add: precision_ok_def p_def)
  next
    case False
    then show ?thesis using adapt_precision [OF a kd abs_ge_zero assms(2)] by (simp add: p_def split: if_splits)
  qed
  define w where "w = (if k' \<noteq> 0 then round_bits 53 (round_bits 64 (\<bar>v\<bar> / d)) else \<bar>v\<bar>)"
  have "\<bar>if v < 0 then - w else w\<bar> \<le> 1000000000" using k' m by (auto simp: w_def)
  from ftoa_small [OF this, of "fl AND NOT FLAGS_ADAPT_EXP" p' n "etoa_width width mw' fl"] p' obtain cs where
    "ftoa_chars x87 (Suc n) (if v < 0 then - w else w) p' (etoa_width width mw' fl) (fl AND NOT FLAGS_ADAPT_EXP) = Inr cs"
    by (auto simp: precision_left)
  moreover have "etoa_chars x87 (Suc (Suc n)) v prec width flags = bind_res
      (ftoa_chars x87 (Suc n) (if v < 0 then - w else w) p' (etoa_width width mw' fl) (fl AND NOT FLAGS_ADAPT_EXP))
      (\<lambda>cs. Inr (cs @ suffix_chars k' mw' width fl (of_nat (length cs))))"
    by (simp only: etoa_chars.simps(2) assms(3) if_False Let_def x87_simps of_int_0 r va kd p_def [symmetric]
        mw_def [symmetric] a prod.case w_def)
  ultimately show ?thesis by simp
qed

text \<open>
  The conversions return for every double, within the depth of the calls \<open>printf\<close> allows, as long as the
  precision leaves the powers of ten in range.
\<close>

lemma chars_return:
  assumes "precision_ok prec flags"
  shows "\<exists>cs. ftoa_chars x87 (Suc (Suc (Suc n))) (double_load bits) prec width flags = Inr cs"
    "\<exists>cs. etoa_chars x87 (Suc (Suc (Suc n))) (double_load bits) prec width flags = Inr cs"
proof -
  let ?v = "double_load bits"
  have p: "unat prec < 42" if "has_flag flags FLAGS_PRECISION" using assms that by (simp add: precision_ok_def split: if_splits)
  have m: "(2 :: rat) powi 1024 - 2 powi 971 < 2 powi 1024" by simp
  have fin: "\<bar>?v\<bar> < 2 powi 1024" if "\<not> f_special x87 ?v"
    using that m unfolding f_special_def x87_simps by (simp only: de_Morgan_disj not_not not_less abs_less_iff) linarith
  note e = etoa_returns [OF significant_load fin _ assms]
  have f: "\<exists>cs. ftoa_chars x87 (Suc (Suc (Suc k))) ?v prec width flags = Inr cs" for k
  proof (cases "f_special x87 ?v")
    case True
    then show ?thesis by (auto simp: f_special_def)
  next
    case False
    show ?thesis
    proof (cases "\<bar>?v\<bar> \<le> 1000000000")
      case True
      then show ?thesis by (intro ftoa_small p)
    next
      case big: False
      with False have "ftoa_chars x87 (Suc (Suc (Suc k))) ?v prec width flags = etoa_chars x87 (Suc (Suc k)) ?v prec width flags"
        by (auto simp: f_special_def PRINTF_MAX_FLOAT_def abs_le_iff simp del: etoa_chars.simps)
      with e [OF False False] show ?thesis by simp
    qed
  qed
  show "\<exists>cs. ftoa_chars x87 (Suc (Suc (Suc n))) ?v prec width flags = Inr cs" by (rule f)
  show "\<exists>cs. etoa_chars x87 (Suc (Suc (Suc n))) ?v prec width flags = Inr cs"
  proof (cases "f_special x87 ?v")
    case True
    then have "etoa_chars x87 (Suc (Suc (Suc n))) ?v prec width flags = ftoa_chars x87 (Suc (Suc n)) ?v prec width flags"
      by (simp del: ftoa_chars.simps)
    with True show ?thesis by (auto simp: f_special_def)
  next
    case False
    then show ?thesis by (rule e [OF False])
  qed
qed

lemma float_returns:
  assumes "precision_ok prec flags"
  shows "\<exists>st'. ftoa x87 FLOAT_DEPTH out maxlen (double_load bits) prec width flags st = Inr st'"
    "\<exists>st'. etoa x87 FLOAT_DEPTH out maxlen (double_load bits) prec width flags st = Inr st'"
proof -
  have d: "FLOAT_DEPTH = Suc (Suc (Suc 1))" by (simp add: FLOAT_DEPTH_def)
  obtain cs ds where "ftoa_chars x87 FLOAT_DEPTH (double_load bits) prec width flags = Inr cs"
    "etoa_chars x87 FLOAT_DEPTH (double_load bits) prec width flags = Inr ds"
    using chars_return [OF assms, of 1 bits width] unfolding d by blast
  then show "\<exists>st'. ftoa x87 FLOAT_DEPTH out maxlen (double_load bits) prec width flags st = Inr st'"
    "\<exists>st'. etoa x87 FLOAT_DEPTH out maxlen (double_load bits) prec width flags st = Inr st'"
    by (simp_all add: ftoa_emit etoa_emit)
qed

end
