(* ===== verification/Printf_Field.thy ===== *)
theory Printf_Field
  imports Printf_Numbers
begin

text \<open>
  The conversion specifications of the integers with flags, width and precision, against what the C
  standard says of them (7.21.6.1): \<open>c99_field\<close> is the field the standard asks for, written without index, buffer
  or flag word; \<open>field_ok\<close> the specifications on which \<open>printf.c\<close> prints exactly that field. The others are
  the arrays of 32 characters, precision together with the flag \<open>-\<close>, and the removal of digits for the
  prefix of \<open>#\<close>, whose effect is stated at the end.
\<close>

section \<open>The field of the standard\<close>

function digits_text :: "bool \<Rightarrow> nat \<Rightarrow> nat \<Rightarrow> u8 list" where
  "digits_text upper b n =
     (let d = n mod b; c = of_nat (if d < 10 then 48 + d else if upper then 55 + d else 87 + d)
      in if n < b \<or> b < 2 then [c] else digits_text upper b (n div b) @ [c])"
  by pat_completeness auto
termination digits_text
  by (relation "measure (\<lambda>(upper, b, n). n)") (auto simp: div_less_dividend)

declare digits_text.simps [simp del]

text \<open>Zero has no digits of its own under a precision, which then counts the zeros.\<close>

definition c99_digits :: "u8 \<Rightarrow> nat option \<Rightarrow> int \<Rightarrow> u8 list" where
  "c99_digits c prec v =
     (if v = 0 \<and> prec \<noteq> None then [] else digits_text (c = chr CHR ''X'') (unat (int_base c)) (nat \<bar>v\<bar>))"

definition c99_sign :: "u8 list \<Rightarrow> u8 \<Rightarrow> int \<Rightarrow> u8 list" where
  "c99_sign fl c v =
     (if c = chr CHR ''d'' \<or> c = chr CHR ''i'' then
        (if v < 0 then chrs ''-'' else if chr CHR ''+'' \<in> set fl then chrs ''+''
         else if chr CHR '' '' \<in> set fl then chrs '' '' else [])
      else [])"

definition c99_zeros :: "nat option \<Rightarrow> u8 list \<Rightarrow> nat" where
  "c99_zeros prec digits = (case prec of None \<Rightarrow> 0 | Some p \<Rightarrow> p - length digits)"

text \<open>For \<open>o\<close> the standard raises the precision, if necessary, to force a zero as first digit.\<close>

definition c99_prefix :: "u8 list \<Rightarrow> u8 \<Rightarrow> nat option \<Rightarrow> int \<Rightarrow> u8 list" where
  "c99_prefix fl c prec v =
     (let digits = c99_digits c prec v; ds = replicate (c99_zeros prec digits) (chr CHR ''0'') @ digits in
      if chr CHR ''#'' \<notin> set fl then []
      else if c = chr CHR ''o'' then (if ds = [] \<or> hd ds \<noteq> chr CHR ''0'' then chrs ''0'' else [])
      else if v = 0 then []
      else if c = chr CHR ''x'' then chrs ''0x'' else if c = chr CHR ''X'' then chrs ''0X''
      else if c = chr CHR ''b'' then chrs ''0b'' else [])"

definition field_text :: "bool \<Rightarrow> u8 list \<Rightarrow> nat \<Rightarrow> u8 list \<Rightarrow> nat \<Rightarrow> u8 list" where
  "field_text left prefix zeros digits width =
     (let body = prefix @ replicate zeros (chr CHR ''0'') @ digits;
          fill = replicate (width - length body) (chr CHR '' '')
      in if left then body @ fill else fill @ body)"

definition c99_field :: "u8 list \<Rightarrow> u8 \<Rightarrow> nat \<Rightarrow> nat option \<Rightarrow> int \<Rightarrow> u8 list" where
  "c99_field fl c width prec v =
     (let digits = c99_digits c prec v; prefix = c99_sign fl c v @ c99_prefix fl c prec v;
          left = (chr CHR ''-'' \<in> set fl);
          zeros = (if prec = None \<and> chr CHR ''0'' \<in> set fl \<and> \<not> left then width - length prefix - length digits
                   else c99_zeros prec digits)
      in field_text left prefix zeros digits width)"

section \<open>Where the code prints it\<close>

definition field_ok :: "u8 list \<Rightarrow> u8 \<Rightarrow> nat \<Rightarrow> nat option \<Rightarrow> int \<Rightarrow> bool" where
  "field_ok fl c width prec v \<longleftrightarrow>
     (let nd = length (c99_digits c prec v); plen = length (c99_sign fl c v @ c99_prefix fl c prec v);
          left = (chr CHR ''-'' \<in> set fl); zero = (chr CHR ''0'' \<in> set fl); hash = (chr CHR ''#'' \<in> set fl)
      in nd + plen \<le> 32 \<and>
         (case prec of
            Some p \<Rightarrow> p + plen \<le> 32 \<and> (left \<longrightarrow> p \<le> nd) \<and> (hash \<and> c = chr CHR ''o'' \<longrightarrow> v \<noteq> 0 \<and> p \<le> nd)
          | None \<Rightarrow> (zero \<and> \<not> left \<longrightarrow> width \<le> 32)
              \<and> (hash \<and> int_base c \<noteq> 10 \<and> v \<noteq> 0 \<longrightarrow>
                   (if zero \<and> \<not> left then width < nd \<or> c \<noteq> chr CHR ''b'' \<and> nd + plen \<le> width else width \<noteq> nd))))"

section \<open>Flags as bits\<close>

lemmas flag_defs = FLAGS_ZEROPAD_def FLAGS_LEFT_def FLAGS_PLUS_def FLAGS_SPACE_def FLAGS_HASH_def
  FLAGS_UPPERCASE_def FLAGS_CHAR_def FLAGS_SHORT_def FLAGS_LONG_def FLAGS_LONG_LONG_def FLAGS_PRECISION_def
  FLAGS_ADAPT_EXP_def

lemma mask_bit: "(f :: u32) AND push_bit k 1 \<noteq> 0 \<longleftrightarrow> bit f k"
proof
  assume "f AND push_bit k 1 \<noteq> 0"
  then obtain n where "bit (f AND push_bit k 1) n" by (auto simp: bit_eq_iff)
  then show "bit f k" by (auto simp: bit_simps simp del: push_bit_of_1)
next
  assume b: "bit f k"
  then have "bit (f AND push_bit k 1) k"
    using bit_imp_le_length [OF b] by (simp add: bit_simps del: push_bit_of_1)
  then show "f AND push_bit k 1 \<noteq> 0" by auto
qed

lemma flag_bits:
  "has_flag f FLAGS_ZEROPAD \<longleftrightarrow> bit f 0" "has_flag f FLAGS_LEFT \<longleftrightarrow> bit f 1" "has_flag f FLAGS_PLUS \<longleftrightarrow> bit f 2"
  "has_flag f FLAGS_SPACE \<longleftrightarrow> bit f 3" "has_flag f FLAGS_HASH \<longleftrightarrow> bit f 4" "has_flag f FLAGS_UPPERCASE \<longleftrightarrow> bit f 5"
  "has_flag f FLAGS_CHAR \<longleftrightarrow> bit f 6" "has_flag f FLAGS_SHORT \<longleftrightarrow> bit f 7" "has_flag f FLAGS_LONG \<longleftrightarrow> bit f 8"
  "has_flag f FLAGS_LONG_LONG \<longleftrightarrow> bit f 9" "has_flag f FLAGS_PRECISION \<longleftrightarrow> bit f 10"
  unfolding flag_defs by (simp_all only: mask_bit)

lemma plus_space_bits: "has_flag f (FLAGS_PLUS OR FLAGS_SPACE) \<longleftrightarrow> bit f 2 \<or> bit f 3"
proof -
  have "f AND (FLAGS_PLUS OR FLAGS_SPACE) = 0 \<longleftrightarrow> f AND FLAGS_PLUS = 0 \<and> f AND FLAGS_SPACE = 0"
    by (simp add: bit.conj_disj_distrib or_eq_0_iff)
  then show ?thesis using flag_bits(3,4) by blast
qed

text \<open>The bits of a constant flag.\<close>

lemma bit_flags:
  "bit FLAGS_ZEROPAD n \<longleftrightarrow> n = 0" "bit FLAGS_LEFT n \<longleftrightarrow> n = 1" "bit FLAGS_PLUS n \<longleftrightarrow> n = 2" "bit FLAGS_SPACE n \<longleftrightarrow> n = 3"
  "bit FLAGS_HASH n \<longleftrightarrow> n = 4" "bit FLAGS_UPPERCASE n \<longleftrightarrow> n = 5" "bit FLAGS_PRECISION n \<longleftrightarrow> n = 10"
  by (auto simp: flag_defs bit_simps simp del: push_bit_of_1)

section \<open>Digits\<close>

lemma digits_text_spec:
  assumes "2 \<le> b" "b \<le> 16" "n < b ^ k" "0 < k"
  shows "map (\<lambda>d. digit_char flags (of_nat d)) (spec_digits k b n) = rev (digits_text (bit flags 5) b n)"
  using assms(3,4)
proof (induction k arbitrary: n)
  case (Suc k)
  have "n mod b < 16" using assms(1,2) by (meson less_le_trans mod_less_divisor zero_less_numeral)
  then have d: "digit_char flags (of_nat (n mod b)) =
      of_nat (if n mod b < 10 then 48 + n mod b else if bit flags 5 then 55 + n mod b else 87 + n mod b)"
    using small_digits [of "n mod b"] flag_bits(6) [of flags] by (auto simp: digit_char_def chr_digits)
  have z: "n div b = 0 \<longleftrightarrow> n < b" using assms(1) by (simp add: div_eq_0_iff)
  show ?case
  proof (cases "n < b")
    case True
    then show ?thesis using d z by (simp add: digits_text.simps [of _ b n] Let_def)
  next
    case False
    have "n div b < b ^ k" using Suc.prems(1) by (simp add: less_mult_imp_div_less mult.commute)
    moreover from this have "0 < k" using False assms(1) by (cases k) (auto simp: div_eq_0_iff)
    ultimately have "map (\<lambda>d. digit_char flags (of_nat d)) (spec_digits k b (n div b)) = rev (digits_text (bit flags 5) b (n div b))"
      by (rule Suc.IH)
    then show ?thesis using False assms(1) d z by (simp add: digits_text.simps [of _ b n] Let_def)
  qed
qed simp

lemma ntoa_digits_text:
  fixes val base :: u32
  assumes "2 \<le> unat base" "unat base \<le> 16"
  shows "ntoa_digits flags base val =
    (if bit flags 10 \<and> val = 0 then [] else rev (digits_text (bit flags 5) (unat base) (unat val)))"
proof -
  have "unat val < 2 ^ 32" by simp
  also have "\<dots> \<le> unat base ^ 32" using assms(1) by (rule power_mono) simp
  finally have "map (\<lambda>d. digit_char flags (of_nat d)) (spec_digits 32 (unat base) (unat val)) =
      rev (digits_text (bit flags 5) (unat base) (unat val))"
    by (intro digits_text_spec assms) simp_all
  then show ?thesis using flag_bits(11) [of flags] ntoa_loop_spec [of "[]" flags base val] by (auto simp: ntoa_digits_def)
qed

section \<open>The format of a converted number\<close>

lemma pad_zeros_eq:
  "length buf \<le> 32 \<Longrightarrow> pad_zeros n buf = buf @ replicate (min (unat n) 32 - length buf) (chr CHR ''0'')"
proof (induction n buf rule: pad_zeros.induct)
  case (1 n buf)
  have l: "unat (of_nat (length buf) :: u32) = length buf" using 1(2) by (simp add: unat_of_nat_u32)
  show ?case
  proof (cases "of_nat (length buf) < n \<and> length buf < 32")
    case True
    then have "length buf < unat n" using l by (simp add: word_less_nat_alt)
    then have "min (unat n) 32 - length buf = Suc (min (unat n) 32 - Suc (length buf))" using True by auto
    then show ?thesis
      using 1 True by (simp add: pad_zeros.simps [of n buf] PRINTF_NTOA_BUFFER_SIZE_def)
  next
    case False
    then have "min (unat n) 32 \<le> length buf" using l by (auto simp: word_less_nat_alt)
    moreover have "pad_zeros n buf = buf"
      using False by (subst pad_zeros.simps) (simp only: PRINTF_NTOA_BUFFER_SIZE_def if_False)
    ultimately show ?thesis by simp
  qed
qed

definition sign_chars :: "bool \<Rightarrow> u32 \<Rightarrow> u8 list" where
  "sign_chars negative flags =
     (if negative then chrs ''-'' else if bit flags 2 then chrs ''+'' else if bit flags 3 then chrs '' '' else [])"

lemma ntoa_sign_eq:
  "length buf + length (sign_chars negative flags) \<le> 32 \<Longrightarrow> ntoa_sign buf negative flags = buf @ sign_chars negative flags"
  by (cases negative; cases "bit flags 2"; cases "bit flags 3")
    (simp_all add: ntoa_sign_def sign_chars_def flag_bits PRINTF_NTOA_BUFFER_SIZE_def chrs_def)

lemma sign_chars_length: "length (sign_chars negative flags) = (if negative \<or> bit flags 2 \<or> bit flags 3 then 1 else 0)"
  by (simp add: sign_chars_def chrs_def)

lemma sign_chars_rev [simp]: "rev (sign_chars negative flags) = sign_chars negative flags"
  by (simp add: sign_chars_def chrs_def)

text \<open>Without a prefix.\<close>

lemma ntoa_chars_signed:
  assumes h: "\<not> bit flags 4" and s: "s = sign_chars negative flags" and room: "length buf + length s \<le> 32" "unat prec + length s \<le> 32"
    and z: "bit flags 0 \<Longrightarrow> prec = 0" "bit flags 0 \<Longrightarrow> \<not> bit flags 1 \<Longrightarrow> unat width \<le> 32"
  shows "ntoa_chars buf negative base prec width flags = field_text (bit flags 1) s
    (if bit flags 1 then 0 else if bit flags 0 then unat width - length s - length buf else unat prec - length buf)
    (rev buf) (unat width)"
proof -
  have hash: "ntoa_hash b base prec w flags = b" for b w using h by (simp add: ntoa_hash_def flag_bits)
  consider (left) "bit flags 1" | (zero) "\<not> bit flags 1" "bit flags 0" | (plain) "\<not> bit flags 1" "\<not> bit flags 0" by blast
  then show ?thesis
  proof cases
    case left
    then show ?thesis using room
      by (simp add: ntoa_chars_def ntoa_pad_def flag_bits hash ntoa_sign_eq rev_chars_def field_text_def Let_def s add.commute)
  next
    case zero
    let ?w = "if width \<noteq> 0 \<and> (negative \<or> bit flags 2 \<or> bit flags 3) then width - 1 else width"
    have w: "unat ?w = unat width - length s"
      using unat_sub_u32 [of 1 width] by (auto simp: s sign_chars_length unat_gt_0 Suc_le_eq)
    have "ntoa_pad buf negative prec width flags = (buf @ replicate (unat width - length s - length buf) (chr CHR ''0''), ?w)"
      using zero z room w by (simp add: ntoa_pad_def flag_bits plus_space_bits Let_def pad_zeros_eq)
    moreover have "length buf + (unat width - length s - length buf) + length s \<le> 32"
      using room z(2) zero by linarith
    ultimately show ?thesis using zero room
      by (simp add: ntoa_chars_def flag_bits hash ntoa_sign_eq rev_chars_def field_text_def Let_def s)
  next
    case plain
    have m: "min (unat prec) 32 = unat prec" using room by simp
    have "ntoa_pad buf negative prec width flags = (buf @ replicate (unat prec - length buf) (chr CHR ''0''), width)"
      using plain room m by (simp add: ntoa_pad_def flag_bits Let_def pad_zeros_eq)
    moreover have "length buf + (unat prec - length buf) + length s \<le> 32" using room by linarith
    ultimately show ?thesis using plain
      by (simp add: ntoa_chars_def flag_bits hash ntoa_sign_eq rev_chars_def field_text_def Let_def s add_ac)
  qed
qed

text \<open>With the prefix of \<open>#\<close>, which may first take digits away.\<close>

definition prefix_chars :: "u32 \<Rightarrow> bool \<Rightarrow> u8 list" where
  "prefix_chars base upper =
     (if base = 16 then (if upper then chrs ''0X'' else chrs ''0x'') else if base = 2 then chrs ''0b'' else chrs ''0'')"

definition hash_cut :: "u8 list \<Rightarrow> u32 \<Rightarrow> u32 \<Rightarrow> u32 \<Rightarrow> u32 \<Rightarrow> u8 list" where
  "hash_cut buf base prec width flags =
     (if \<not> bit flags 10 \<and> buf \<noteq> [] \<and> (length buf = unat prec \<or> length buf = unat width)
      then (if base = 16 then butlast (butlast buf) else butlast buf) else buf)"

lemma ntoa_hash_eq:
  assumes "bit flags 4" "length buf \<le> 32" "length (hash_cut buf base prec width flags) + length (prefix_chars base (bit flags 5)) \<le> 32"
  shows "ntoa_hash buf base prec width flags = hash_cut buf base prec width flags @ rev (prefix_chars base (bit flags 5))"
proof -
  have l: "of_nat (length buf) = w \<longleftrightarrow> length buf = unat w" for w :: u32
    using assms(2) by (auto simp: u32_eq_iff_unat unat_of_nat_u32)
  define b where "b = hash_cut buf base prec width flags"
  have c: "(if \<not> has_flag flags FLAGS_PRECISION \<and> buf \<noteq> [] \<and> (of_nat (length buf) = prec \<or> of_nat (length buf) = width)
      then (let buf = butlast buf in if buf \<noteq> [] \<and> base = 16 then butlast buf else buf) else buf) = b"
    by (auto simp: b_def hash_cut_def flag_bits l Let_def)
  have r: "length b + length (prefix_chars base (bit flags 5)) \<le> 32" using assms(3) by (simp add: b_def)
  have "ntoa_hash buf base prec width flags =
      (let buf = (if base = 16 \<and> \<not> has_flag flags FLAGS_UPPERCASE \<and> length b < PRINTF_NTOA_BUFFER_SIZE
            then b @ [chr CHR ''x'']
            else if base = 16 \<and> has_flag flags FLAGS_UPPERCASE \<and> length b < PRINTF_NTOA_BUFFER_SIZE
            then b @ [chr CHR ''X'']
            else push_char (base = 2) (chr CHR ''b'') b)
       in push_char True (chr CHR ''0'') buf)"
    unfolding ntoa_hash_def c using assms(1) flag_bits(5) [of flags] by (simp add: Let_def)
  also have "\<dots> = b @ rev (prefix_chars base (bit flags 5))"
    using r by (cases "base = 16"; cases "bit flags 5"; cases "base = 2")
      (simp_all add: prefix_chars_def push_char_def PRINTF_NTOA_BUFFER_SIZE_def flag_bits chrs_def Let_def)
  finally show ?thesis by (simp add: b_def)
qed

lemma ntoa_chars_hash:
  assumes h: "bit flags 4" "\<not> negative" "\<not> bit flags 2" "\<not> bit flags 3" and base: "base \<in> {2, 8, 16}"
    and pre: "pre = prefix_chars base (bit flags 5)" and buf: "buf \<noteq> []" and room: "length buf + length pre \<le> 32"
    and p: "bit flags 10 \<Longrightarrow> \<not> bit flags 0 \<and> unat prec + length pre \<le> 32"
    and n: "\<not> bit flags 10 \<Longrightarrow> prec = 0 \<and> (if bit flags 0 \<and> \<not> bit flags 1
        then unat width \<le> 32 \<and> (unat width < length buf \<or> base \<noteq> 2 \<and> length buf + length pre \<le> unat width)
        else unat width \<noteq> length buf)"
  shows "ntoa_chars buf negative base prec width flags = field_text (bit flags 1) pre
    (if bit flags 1 then 0 else if bit flags 0 then unat width - length pre - length buf else unat prec - length buf)
    (rev buf) (unat width)"
proof -
  have s: "sign_chars negative flags = []" using h by (simp add: sign_chars_def)
  have pl: "length pre = (if base = 8 then 1 else 2)" using base by (auto simp: pre prefix_chars_def chrs_def)
  consider (prec) "bit flags 10" | (left) "\<not> bit flags 10" "bit flags 1" | (plain) "\<not> bit flags 10" "\<not> bit flags 1" "\<not> bit flags 0"
    | (wide) "\<not> bit flags 10" "\<not> bit flags 1" "bit flags 0" "unat width < length buf"
    | (zero) "\<not> bit flags 10" "\<not> bit flags 1" "bit flags 0" "base \<noteq> 2" "length buf + length pre \<le> unat width"
    using n by argo
  then show ?thesis
  proof cases
    case prec
    let ?b = "if bit flags 1 then buf else buf @ replicate (unat prec - length buf) (chr CHR ''0'')"
    have m: "min (unat prec) 32 = unat prec" using p prec by simp
    have "ntoa_pad buf negative prec width flags = (?b, width)"
      using prec p room m by (simp add: ntoa_pad_def flag_bits Let_def pad_zeros_eq)
    moreover have r: "length ?b + length pre \<le> 32" using room p prec by auto
    moreover have "ntoa_hash ?b base prec width flags = ?b @ rev pre"
      unfolding pre by (subst ntoa_hash_eq) (use h r prec in \<open>simp_all add: hash_cut_def pre del: if_image_distrib\<close>)
    ultimately show ?thesis using prec p s
      by (cases "bit flags 1") (simp_all add: ntoa_chars_def flag_bits ntoa_sign_eq rev_chars_def field_text_def Let_def add_ac)
  next
    case left
    then have "ntoa_hash buf base prec width flags = buf @ rev pre"
      unfolding pre using h room n buf by (subst ntoa_hash_eq) (auto simp: hash_cut_def pre)
    then show ?thesis using left s room
      by (simp add: ntoa_chars_def ntoa_pad_def flag_bits ntoa_sign_eq rev_chars_def field_text_def Let_def add_ac)
  next
    case plain
    have "prec = 0" using n plain by simp
    then have "ntoa_pad buf negative prec width flags = (buf, width)"
      using plain room by (simp add: ntoa_pad_def flag_bits Let_def pad_zeros_eq)
    moreover have "ntoa_hash buf base prec width flags = buf @ rev pre"
      unfolding pre using h room n buf plain by (subst ntoa_hash_eq) (auto simp: hash_cut_def pre)
    ultimately show ?thesis using plain s room \<open>prec = 0\<close>
      by (simp add: ntoa_chars_def flag_bits ntoa_sign_eq rev_chars_def field_text_def Let_def add_ac)
  next
    case wide
    have z: "prec = 0" using n wide by simp
    then have "ntoa_pad buf negative prec width flags = (buf, width)"
      using wide room h by (simp add: ntoa_pad_def flag_bits plus_space_bits Let_def pad_zeros_eq)
    moreover have "ntoa_hash buf base prec width flags = buf @ rev pre"
      unfolding pre using h room z buf wide by (subst ntoa_hash_eq) (auto simp: hash_cut_def pre)
    ultimately show ?thesis using wide s room
      by (simp add: ntoa_chars_def flag_bits ntoa_sign_eq rev_chars_def field_text_def Let_def add_ac)
  next
    case zero
    let ?k = "unat width - length pre - length buf"
    have z: "prec = 0" "unat width \<le> 32" using n zero by simp_all
    let ?b = "buf @ replicate (unat width - length buf) (chr CHR ''0'')"
    have pad: "ntoa_pad buf negative prec width flags = (?b, width)"
      using zero z room h by (simp add: ntoa_pad_def flag_bits plus_space_bits Let_def pad_zeros_eq)
    have w: "unat width - length buf = ?k + length pre" using zero(5) by simp
    have "hash_cut ?b base prec width flags = buf @ replicate ?k (chr CHR ''0'')"
      using zero base pl buf unfolding hash_cut_def w
      by (auto simp: butlast_append replicate_append_same [symmetric] butlast_conv_take min_def)
    moreover have "length (buf @ replicate ?k (chr CHR ''0'')) + length pre \<le> 32" using zero(5) z(2) by simp
    moreover have "length ?b \<le> 32" using zero(5) z(2) by simp
    ultimately have "ntoa_hash ?b base prec width flags = (buf @ replicate ?k (chr CHR ''0'')) @ rev pre"
      unfolding pre by (subst ntoa_hash_eq) (use h in simp_all)
    then show ?thesis using zero s z(2) pad
      by (simp add: ntoa_chars_def flag_bits ntoa_sign_eq rev_chars_def field_text_def Let_def add_ac)
  qed
qed

section \<open>From the format to the field\<close>

definition flag_char :: "u8 \<Rightarrow> bool" where
  "flag_char c \<longleftrightarrow> c \<in> set (chrs ''0-+ #'')"

lemma flag_chars: "flag_char c \<longleftrightarrow> c \<in> {48, 45, 43, 32, 35}"
  by (simp add: flag_char_def chrs_def chr_def)

lemma parse_flags_bits:
  assumes "\<forall>c \<in> set fl. flag_char c" "\<not> flag_char d"
  shows "\<exists>g. parse_flags (fl @ d # rest) f = (g, d # rest) \<and> (\<forall>k. bit g k \<longleftrightarrow> bit f k
    \<or> k = 0 \<and> chr CHR ''0'' \<in> set fl \<or> k = 1 \<and> chr CHR ''-'' \<in> set fl \<or> k = 2 \<and> chr CHR ''+'' \<in> set fl
    \<or> k = 3 \<and> chr CHR '' '' \<in> set fl \<or> k = 4 \<and> chr CHR ''#'' \<in> set fl)"
  using assms(1)
proof (induction fl arbitrary: f)
  case Nil
  then show ?case using assms(2) by (simp add: flag_chars chr_digits)
next
  case (Cons c fl)
  then have "c \<in> {48, 45, 43, 32, 35}" "\<forall>c \<in> set fl. flag_char c" by (simp_all add: flag_chars)
  then show ?case
    by (elim insertE; use Cons.IH [of "f OR FLAGS_ZEROPAD"] Cons.IH [of "f OR FLAGS_LEFT"] Cons.IH [of "f OR FLAGS_PLUS"]
        Cons.IH [of "f OR FLAGS_SPACE"] Cons.IH [of "f OR FLAGS_HASH"] in \<open>force simp: chr_digits bit_or_iff bit_flags\<close>)
qed

lemma digits_text_hd: "0 < n \<Longrightarrow> 2 \<le> b \<Longrightarrow> b \<le> 16 \<Longrightarrow> digits_text upper b n \<noteq> [] \<and> hd (digits_text upper b n) \<noteq> chr CHR ''0''"
proof (induction upper b n rule: digits_text.induct)
  case (1 upper b n)
  show ?case
  proof (cases "n < b")
    case True
    then show ?thesis using 1(2-4) small_digits [of n]
      by (auto simp: digits_text.simps [of upper b n] chr_digits Let_def)
  next
    case False
    then have "0 < n div b" using 1(3) by (simp add: div_greater_zero_iff)
    with 1 False have "digits_text upper b (n div b) \<noteq> [] \<and> hd (digits_text upper b (n div b)) \<noteq> chr CHR ''0''" by simp
    then show ?thesis using False 1(3) by (simp add: digits_text.simps [of upper b n] Let_def)
  qed
qed

definition int_specifier :: "u8 \<Rightarrow> bool" where
  "int_specifier c \<longleftrightarrow> c \<in> set (chrs ''diuxXob'')"

lemma int_specifiers: "int_specifier c \<longleftrightarrow> c \<in> {100, 105, 117, 120, 88, 111, 98}"
  by (simp add: int_specifier_def chrs_def chr_def)

text \<open>A specification whose width, and precision if there is one, are arguments.\<close>

definition field_format :: "u8 list \<Rightarrow> bool \<Rightarrow> u8 \<Rightarrow> u8 list" where
  "field_format fl precise c = chrs ''%'' @ fl @ chrs ''*'' @ (if precise then chrs ''.*'' else []) @ [c]"

definition field_args :: "u32 \<Rightarrow> u32 option \<Rightarrow> va \<Rightarrow> va list" where
  "field_args w prec v = VWord w # (case prec of None \<Rightarrow> [] | Some p \<Rightarrow> [VWord p]) @ [v]"

text \<open>The number an argument stands for; a negative width is the flag \<open>-\<close> and its absolute value.\<close>

definition arg_value :: "u8 \<Rightarrow> u32 \<Rightarrow> int" where
  "arg_value c x = (if c = chr CHR ''d'' \<or> c = chr CHR ''i'' then sint x else uint x)"

definition width_flags :: "u8 list \<Rightarrow> u32 \<Rightarrow> u8 list" where
  "width_flags fl w = (if sint w < 0 then chr CHR ''-'' # fl else fl)"

lemma int_flags_bits:
  assumes "int_specifier c"
  shows "bit (int_flags c f) k \<longleftrightarrow> (bit f k \<or> k = 5 \<and> c = chr CHR ''X'')
    \<and> \<not> (k = 4 \<and> int_base c = 10) \<and> \<not> ((k = 2 \<or> k = 3) \<and> c \<noteq> chr CHR ''d'' \<and> c \<noteq> chr CHR ''i'')
    \<and> \<not> (k = 0 \<and> bit f 10)"
proof -
  let ?f1 = "if int_base c = 10 then f AND NOT FLAGS_HASH else f"
  let ?f2 = "if c = chr CHR ''X'' then ?f1 OR FLAGS_UPPERCASE else ?f1"
  let ?f3 = "if c \<noteq> chr CHR ''i'' \<and> c \<noteq> chr CHR ''d'' then ?f2 AND NOT (FLAGS_PLUS OR FLAGS_SPACE) else ?f2"
  have l: "bit w k \<Longrightarrow> k < 32" for w :: u32 using bit_imp_le_length [of w k] by simp
  have 1: "bit ?f1 k \<longleftrightarrow> bit f k \<and> \<not> (k = 4 \<and> int_base c = 10)" for k
    by (auto simp: bit_and_iff bit_not_iff bit_flags dest: bit_imp_le_length)
  have 2: "bit ?f2 k \<longleftrightarrow> bit ?f1 k \<or> k = 5 \<and> c = chr CHR ''X''" for k
    by (simp add: bit_or_iff bit_flags)
  have 3: "bit ?f3 k \<longleftrightarrow> bit ?f2 k \<and> \<not> ((k = 2 \<or> k = 3) \<and> c \<noteq> chr CHR ''d'' \<and> c \<noteq> chr CHR ''i'')" for k
    by (auto simp: bit_and_iff bit_or_iff bit_not_iff bit_flags simp del: if_split dest: bit_imp_le_length
        split: if_split)
  have 4: "bit (int_flags c f) k \<longleftrightarrow> bit ?f3 k \<and> \<not> (k = 0 \<and> bit ?f3 10)"
    unfolding int_flags_def Let_def flag_bits(11)
    by (auto simp: bit_and_iff bit_not_iff bit_flags dest: bit_imp_le_length)
  show ?thesis unfolding 4 3 2 1 by auto
qed

definition arg_magnitude :: "u8 \<Rightarrow> u32 \<Rightarrow> u32" where
  "arg_magnitude c x = (if c = chr CHR ''d'' \<or> c = chr CHR ''i'' then magnitude x else x)"

lemma conv_int_chars:
  assumes "int_specifier c" "\<And>k. 5 \<le> k \<Longrightarrow> k \<le> 9 \<Longrightarrow> \<not> bit f k"
  shows "conv_specifier fc collect 0 c f w p (VWord x # vs) (0, []) = Inr (vs, emit collect 0
    (let g = clear_hash (arg_magnitude c x) (int_flags c f) in
     ntoa_chars (ntoa_digits g (int_base c) (arg_magnitude c x)) (arg_value c x < 0) (int_base c) p w g) (0, []))"
proof -
  have b: "\<not> bit (int_flags c f) 6" "\<not> bit (int_flags c f) 7" "\<not> bit (int_flags c f) 8" "\<not> bit (int_flags c f) 9"
    using assms(2) by (simp_all add: int_flags_bits [OF assms(1)])
  have c: "c \<in> set (chrs ''diuxXob'')" using assms(1) by (simp add: int_specifier_def)
  show ?thesis
    using c b by (auto simp: conv_specifier_def conv_int_def conv_signed_def conv_unsigned_def flag_bits Let_def
        ntoa_long_emit arg_magnitude_def arg_value_def)
qed

lemma step_parts:
  assumes "parse_flags fs 0 = (g, f1)" "parse_width g f1 vs = Inr (w, g2, f2, v2)"
    "parse_precision g2 f2 v2 = Inr (p, g3, f3, v3)" "parse_length g3 f3 = (g4, [c])"
    "conv_specifier fc collect 0 c g4 w p v3 (0, []) = Inr (v4, emit collect 0 cs (0, []))"
  shows "step_chars fc (chr CHR ''%'' # fs) vs = Inr ([], v4, cs)"
  using assms by (simp add: step_chars_def format_step_def peek_def emit_collect)

text \<open>The flags the loop hands to a conversion.\<close>

definition field_bits :: "u8 list \<Rightarrow> u32 \<Rightarrow> u32 option \<Rightarrow> u32 \<Rightarrow> bool" where
  "field_bits fl w prec f \<longleftrightarrow>
     (\<forall>k. bit f k \<longleftrightarrow> k = 0 \<and> chr CHR ''0'' \<in> set (width_flags fl w) \<or> k = 1 \<and> chr CHR ''-'' \<in> set (width_flags fl w)
      \<or> k = 2 \<and> chr CHR ''+'' \<in> set (width_flags fl w) \<or> k = 3 \<and> chr CHR '' '' \<in> set (width_flags fl w)
      \<or> k = 4 \<and> chr CHR ''#'' \<in> set (width_flags fl w) \<or> k = 10 \<and> prec \<noteq> None)"

lemma field_step:
  assumes fl: "\<forall>d \<in> set fl. flag_char d" and p: "\<And>p. prec = Some p \<Longrightarrow> 0 \<le> sint p"
    and cs: "int_specifier c \<or> c = chr CHR ''s'' \<or> c = chr CHR ''c''"
    and conv: "\<And>f. field_bits fl w prec f \<Longrightarrow>
      conv_specifier fc collect 0 c f (if sint w < 0 then - w else w) (case prec of None \<Rightarrow> 0 | Some p \<Rightarrow> p) [v] (0, []) =
        Inr ([], emit collect 0 (text f) (0, []))"
  shows "\<exists>f. field_bits fl w prec f \<and> render fc (field_format fl (prec \<noteq> None) c) (field_args w prec v) = Inr (text f)"
proof -
  let ?ps = "if prec \<noteq> None then chrs ''.*'' else []"
  let ?vs = "(case prec of None \<Rightarrow> [] | Some p \<Rightarrow> [VWord p]) @ [v]"
  have cs: "c \<in> {100, 105, 117, 120, 88, 111, 98, 115, 99}" using cs by (auto simp: int_specifiers chr_def)
  have star: "\<not> flag_char (chr CHR ''*'')" by (simp add: flag_chars chr_digits)
  obtain g where g: "parse_flags (fl @ chr CHR ''*'' # ?ps @ [c]) 0 = (g, chr CHR ''*'' # ?ps @ [c])"
    "\<And>k. bit g k \<longleftrightarrow> bit (0 :: u32) k \<or> k = 0 \<and> chr CHR ''0'' \<in> set fl \<or> k = 1 \<and> chr CHR ''-'' \<in> set fl
      \<or> k = 2 \<and> chr CHR ''+'' \<in> set fl \<or> k = 3 \<and> chr CHR '' '' \<in> set fl \<or> k = 4 \<and> chr CHR ''#'' \<in> set fl"
  proof -
    from parse_flags_bits [OF fl star, of "?ps @ [c]" 0] show thesis
      by (elim exE conjE) (rule that, assumption, erule spec)
  qed
  let ?g = "if sint w < 0 then g OR FLAGS_LEFT else g"
  let ?f = "if prec \<noteq> None then ?g OR FLAGS_PRECISION else ?g"
  have 2: "parse_width g (chr CHR ''*'' # ?ps @ [c]) (VWord w # ?vs) = Inr (if sint w < 0 then - w else w, ?g, ?ps @ [c], ?vs)"
    by (simp add: parse_width_def peek_def is_digit_def chr_digits)
  have 3: "parse_precision ?g (?ps @ [c]) ?vs = Inr (case prec of None \<Rightarrow> 0 | Some p \<Rightarrow> p, ?f, [c], [v])"
  proof (cases prec)
    case None
    then show ?thesis using cs by (auto simp: parse_precision_def peek_def chr_digits)
  next
    case (Some q)
    have "(if 0 < sint q then q else 0) = q"
      using p [OF Some] by (metis sint_0 order_le_less signed_word_eqI)
    then show ?thesis using Some by (simp add: parse_precision_def peek_def is_digit_def chr_digits chrs_def)
  qed
  have 4: "parse_length ?f [c] = (?f, [c])" using cs by (auto simp: parse_length_def peek_def chr_def)
  have b: "field_bits fl w prec ?f"
    unfolding field_bits_def by (auto simp: bit_or_iff bit_flags g(2) width_flags_def chr_digits)
  have fmt: "field_format fl (prec \<noteq> None) c = chr CHR ''%'' # fl @ chr CHR ''*'' # ?ps @ [c]"
    "field_args w prec v = VWord w # ?vs"
    by (simp_all add: field_format_def field_args_def chrs_def)
  have "step_chars fc (field_format fl (prec \<noteq> None) c) (field_args w prec v) = Inr ([], [], text ?f)"
    unfolding fmt by (rule step_parts [OF g(1) 2 3 4 conv [OF b]])
  moreover have "peek (field_format fl (prec \<noteq> None) c) \<noteq> 0" unfolding fmt by (simp add: peek_def chr_digits)
  ultimately have "render fc (field_format fl (prec \<noteq> None) c) (field_args w prec v) = Inr (text ?f)"
    by (subst render.simps) (simp add: render_end)
  with b show ?thesis by blast
qed

lemma field_render:
  assumes fl: "\<forall>d \<in> set fl. flag_char d" and c: "int_specifier c" and p: "\<And>p. prec = Some p \<Longrightarrow> 0 \<le> sint p"
  shows "\<exists>f. field_bits fl w prec f \<and> render fc (field_format fl (prec \<noteq> None) c) (field_args w prec (VWord x)) = Inr
      (let g = clear_hash (arg_magnitude c x) (int_flags c f) in
       ntoa_chars (ntoa_digits g (int_base c) (arg_magnitude c x)) (arg_value c x < 0) (int_base c)
         (case prec of None \<Rightarrow> 0 | Some p \<Rightarrow> p) (if sint w < 0 then - w else w) g)"
proof (rule field_step [OF fl p])
  fix f
  assume "field_bits fl w prec f"
  then have "\<not> bit f k" if "5 \<le> k" "k \<le> 9" for k using that by (auto simp: field_bits_def)
  from conv_int_chars [OF c this]
  show "conv_specifier fc collect 0 c f (if sint w < 0 then - w else w) (case prec of None \<Rightarrow> 0 | Some p \<Rightarrow> p) [VWord x] (0, []) =
    Inr ([], emit collect 0
      (let g = clear_hash (arg_magnitude c x) (int_flags c f) in
       ntoa_chars (ntoa_digits g (int_base c) (arg_magnitude c x)) (arg_value c x < 0) (int_base c)
         (case prec of None \<Rightarrow> 0 | Some p \<Rightarrow> p) (if sint w < 0 then - w else w) g) (0, []))" .
qed (use c in simp_all)

lemma clear_hash_bits: "bit (clear_hash m f) k \<longleftrightarrow> bit f k \<and> \<not> (k = 4 \<and> m = 0)"
  by (auto simp: clear_hash_def bit_and_iff bit_not_iff bit_flags dest: bit_imp_le_length)

lemma arg_magnitude_value: "unat (arg_magnitude c x) = nat \<bar>arg_value c x\<bar>" "arg_magnitude c x = 0 \<longleftrightarrow> arg_value c x = 0"
proof -
  show u: "unat (arg_magnitude c x) = nat \<bar>arg_value c x\<bar>"
    by (simp add: arg_magnitude_def arg_value_def unat_magnitude)
  show "arg_magnitude c x = 0 \<longleftrightarrow> arg_value c x = 0"
    using u by (metis abs_eq_0 abs_ge_zero eq_nat_nat_iff nat_zero_as_int of_nat_0 order_refl unat_eq_zero)
qed

lemma width_value: "unat (if sint (w :: u32) < 0 then - w else w) = nat \<bar>sint w\<bar>"
proof -
  have "- w = w" if "sint w = 0"
    using that by (metis minus_zero signed_word_eqI sint_0)
  then have "(if sint w < 0 then - w else w) = magnitude w"
    by (cases "sint w" "0 :: int" rule: linorder_cases) (simp_all add: magnitude_def)
  then show ?thesis by (simp add: unat_magnitude)
qed

lemma int_bases:
  assumes "int_specifier c"
  shows "int_base c \<in> {2, 8, 10, 16}" "int_base c = 2 \<longleftrightarrow> c = chr CHR ''b''" "int_base c = 8 \<longleftrightarrow> c = chr CHR ''o''"
    "int_base c = 16 \<longleftrightarrow> c = chr CHR ''x'' \<or> c = chr CHR ''X''"
    "int_base c \<noteq> 10 \<Longrightarrow> c \<noteq> chr CHR ''d'' \<and> c \<noteq> chr CHR ''i''"
    "2 \<le> unat (int_base c)" "unat (int_base c) \<le> 16"
  using assms by (auto simp: int_specifiers int_base_def chr_def)

lemma hash_prefix:
  assumes "int_specifier c" "chr CHR ''#'' \<in> set fl" "int_base c \<noteq> 10" "v \<noteq> 0"
    and "c99_digits c prec v \<noteq> []" "hd (c99_digits c prec v) \<noteq> chr CHR ''0''"
    and "c = chr CHR ''o'' \<Longrightarrow> c99_zeros prec (c99_digits c prec v) = 0"
  shows "c99_prefix fl c prec v = prefix_chars (int_base c) (c = chr CHR ''X'')"
proof -
  consider "c = chr CHR ''o''" | "c = chr CHR ''x''" | "c = chr CHR ''X''" | "c = chr CHR ''b''"
    using assms(1,3) by (auto simp: int_specifiers int_base_def chr_def)
  then show ?thesis
    using assms(2,4-7) by cases (simp_all add: c99_prefix_def prefix_chars_def int_base_def chr_def Let_def)
qed

lemma no_prefix:
  assumes "int_specifier c" "chr CHR ''#'' \<notin> set fl \<or> int_base c = 10 \<or> v = 0"
    and "chr CHR ''#'' \<in> set fl \<Longrightarrow> c = chr CHR ''o'' \<Longrightarrow> v = 0 \<Longrightarrow> prec = None"
  shows "c99_prefix fl c prec v = []"
proof -
  consider (off) "chr CHR ''#'' \<notin> set fl" | (dec) "int_base c = 10" | (zero) "v = 0" "chr CHR ''#'' \<in> set fl" using assms(2) by blast
  then show ?thesis
  proof cases
    case dec
    then have "c \<noteq> chr CHR ''o''" "c \<noteq> chr CHR ''x''" "c \<noteq> chr CHR ''X''" "c \<noteq> chr CHR ''b''"
      by (auto simp: int_base_def chr_def)
    then show ?thesis by (simp add: c99_prefix_def Let_def)
  next
    case zero
    then show ?thesis using assms(3)
      by (simp add: c99_prefix_def Let_def c99_digits_def digits_text.simps chr_digits c99_zeros_def)
  qed (simp add: c99_prefix_def Let_def)
qed

lemma field_c99:
  fixes w x :: u32 and prec :: "u32 option"
  assumes fl: "\<forall>d \<in> set fl. flag_char d" and c: "int_specifier c" and p: "\<And>p. prec = Some p \<Longrightarrow> 0 \<le> sint p"
    and ok: "field_ok (width_flags fl w) c (nat \<bar>sint w\<bar>) (map_option unat prec) (arg_value c x)"
  shows "render fc (field_format fl (prec \<noteq> None) c) (field_args w prec (VWord x)) =
    Inr (c99_field (width_flags fl w) c (nat \<bar>sint w\<bar>) (map_option unat prec) (arg_value c x))"
proof -
  define F where "F = width_flags fl w"
  define v where "v = arg_value c x"
  define m where "m = arg_magnitude c x"
  define W where "W = (if sint w < 0 then - w else w)"
  define P where "P = (case prec of None \<Rightarrow> 0 | Some p \<Rightarrow> p)"
  define D where "D = c99_digits c (map_option unat prec) v"
  let ?b = "int_base c"
  obtain f where f: "field_bits fl w prec f" "render fc (field_format fl (prec \<noteq> None) c) (field_args w prec (VWord x)) =
      Inr (let g = clear_hash m (int_flags c f) in ntoa_chars (ntoa_digits g ?b m) (v < 0) ?b P W g)"
    using field_render [OF fl c p, where fc = fc and w = w and x = x] unfolding v_def m_def W_def P_def by blast
  define g where "g = clear_hash m (int_flags c f)"
  note b = int_bases [OF c]
  have g: "bit g 0 \<longleftrightarrow> chr CHR ''0'' \<in> set F \<and> prec = None" "bit g 1 \<longleftrightarrow> chr CHR ''-'' \<in> set F"
    "bit g 2 \<longleftrightarrow> chr CHR ''+'' \<in> set F \<and> (c = chr CHR ''d'' \<or> c = chr CHR ''i'')"
    "bit g 3 \<longleftrightarrow> chr CHR '' '' \<in> set F \<and> (c = chr CHR ''d'' \<or> c = chr CHR ''i'')"
    "bit g 4 \<longleftrightarrow> chr CHR ''#'' \<in> set F \<and> ?b \<noteq> 10 \<and> m \<noteq> 0" "bit g 5 \<longleftrightarrow> c = chr CHR ''X''" "bit g 10 \<longleftrightarrow> prec \<noteq> None"
    unfolding g_def clear_hash_bits int_flags_bits [OF c] f(1) [unfolded field_bits_def, folded F_def, rule_format] by auto
  have mv: "unat m = nat \<bar>v\<bar>" "m = 0 \<longleftrightarrow> v = 0" unfolding m_def v_def by (rule arg_magnitude_value)+
  have W: "unat W = nat \<bar>sint w\<bar>" unfolding W_def by (rule width_value)
  have P: "unat P = (case map_option unat prec of None \<Rightarrow> 0 | Some p \<Rightarrow> p)" by (simp add: P_def split: option.split)
  have buf: "ntoa_digits g ?b m = rev D"
    using ntoa_digits_text [OF b(6,7), of g m] mv g(6,7) by (auto simp: D_def c99_digits_def)
  have S: "c99_sign F c v = sign_chars (v < 0) g"
    using g(3,4) by (auto simp: c99_sign_def sign_chars_def v_def arg_value_def)
  define Q where "Q = c99_prefix F c (map_option unat prec) v"
  note ok' = ok [folded F_def v_def W, unfolded field_ok_def Let_def, folded D_def, folded Q_def]
  have room: "length D + length (c99_sign F c v @ Q) \<le> 32" using ok' by (rule conjunct1)
  have Some': "unat P + length (c99_sign F c v @ Q) \<le> 32" "bit g 1 \<Longrightarrow> unat P \<le> length D"
    "chr CHR ''#'' \<in> set F \<Longrightarrow> c = chr CHR ''o'' \<Longrightarrow> v \<noteq> 0 \<and> unat P \<le> length D" if "prec = Some q" for q
    using ok' P g(2) that by (simp_all only: option.case option.map) simp_all
  have None': "prec = None \<Longrightarrow> P = 0" by (simp add: P_def)
  have Z: "c99_zeros (map_option unat prec) D = unat P - length D"
    using P None' by (cases prec) (simp_all add: c99_zeros_def)
  have wide: "unat W \<le> 32" if "prec = None" "bit g 0" "\<not> bit g 1"
    using ok' that g(1,2) by simp
  have rhs: "c99_field F c (unat W) (map_option unat prec) v = field_text (bit g 1) (c99_sign F c v @ Q)
    (if bit g 1 then 0 else if bit g 0 then unat W - length (c99_sign F c v @ Q) - length D else unat P - length D) D (unat W)"
    unfolding c99_field_def Let_def D_def [symmetric] Q_def [symmetric] Z
    using None' Some'(2) g(1,2) by (cases prec) simp_all
  have "ntoa_chars (rev D) (v < 0) ?b P W g = c99_field F c (unat W) (map_option unat prec) v"
  proof (cases "bit g 4")
    case True
    then have h: "chr CHR ''#'' \<in> set F" "?b \<noteq> 10" "v \<noteq> 0" using g(5) mv(2) by auto
    have sg: "c \<noteq> chr CHR ''d''" "c \<noteq> chr CHR ''i''" using b(5) h(2) by auto
    have v: "0 < v" using h(3) sg by (simp add: v_def arg_value_def order_less_le)
    have D: "D \<noteq> []" "hd D \<noteq> chr CHR ''0''"
      using digits_text_hd [OF _ b(6,7), of "nat \<bar>v\<bar>"] v by (auto simp: D_def c99_digits_def)
    have "c = chr CHR ''o'' \<Longrightarrow> c99_zeros (map_option unat prec) D = 0"
      unfolding Z using Some'(3) None' h by (cases prec) auto
    then have Q: "Q = prefix_chars ?b (bit g 5)"
      unfolding Q_def g(6) using hash_prefix [OF c h] D unfolding D_def by blast
    have s0: "c99_sign F c v = []" using sg by (simp add: c99_sign_def)
    have base: "?b \<in> {2, 8, 16}" using b(1) h(2) by blast
    show ?thesis
      unfolding rhs s0 append_Nil
    proof (subst ntoa_chars_hash [OF True _ _ _ base Q])
      show "\<not> v < 0" "\<not> bit g 2" "\<not> bit g 3" "rev D \<noteq> []" using v g(3,4) sg D by simp_all
      show "length (rev D) + length Q \<le> 32" using room s0 by simp
      show "\<not> bit g 0 \<and> unat P + length Q \<le> 32" if "bit g 10"
        using that g(1,7) Some'(1) s0 by (cases prec) simp_all
      show "P = 0 \<and> (if bit g 0 \<and> \<not> bit g 1
          then unat W \<le> 32 \<and> (unat W < length (rev D) \<or> ?b \<noteq> 2 \<and> length (rev D) + length Q \<le> unat W)
          else unat W \<noteq> length (rev D))" if "\<not> bit g 10"
      proof -
        have "prec = None" using that g(7) by simp
        then show ?thesis using ok' None' h s0 b(2) g(1,2) wide by (auto split: if_splits)
      qed
    qed simp
  next
    case False
    have Q: "Q = []"
      unfolding Q_def using no_prefix [OF c, of F v "map_option unat prec"] False g(5) mv(2) Some'(3) by (cases prec) auto
    show ?thesis
      unfolding rhs Q append_Nil2
    proof (subst ntoa_chars_signed [OF False S])
      show "length (rev D) + length (c99_sign F c v) \<le> 32" using room Q by simp
      show "unat P + length (c99_sign F c v) \<le> 32" using Some'(1) None' room Q by (cases prec) simp_all
      show "P = 0" if "bit g 0" using that g(1) None' by simp
      show "unat W \<le> 32" if "bit g 0" "\<not> bit g 1" using that g(1) wide by simp
    qed simp
  qed
  then show ?thesis using f(2) buf W unfolding g_def [symmetric] F_def v_def Let_def by simp
qed

section \<open>Strings and characters\<close>

lemma strnlen_s_eq:
  "length (takeWhile (\<lambda>c. c \<noteq> 0) s) < 2 ^ 32 \<Longrightarrow> unat (strnlen_s s m) = min (length (takeWhile (\<lambda>c. c \<noteq> 0) s)) (unat m)"
proof (induction s arbitrary: m)
  case (Cons c s)
  show ?case
  proof (cases "c = 0 \<or> m = 0")
    case False
    then have m: "unat m = Suc (unat (m - 1))" using unat_sub_u32 [of 1 m] by (simp add: unat_gt_0 Suc_le_eq)
    have i: "unat (strnlen_s s (m - 1)) = min (length (takeWhile (\<lambda>c. c \<noteq> 0) s)) (unat (m - 1))"
      using Cons False by simp
    then have "unat (strnlen_s s (m - 1)) + 1 < 2 ^ 32" using Cons.prems False by simp
    then have "unat (strnlen_s s (m - 1) + 1) = unat (strnlen_s s (m - 1)) + 1"
      by (subst unat_add_lem [THEN iffD1]) simp_all
    then show ?thesis using False i m by simp
  qed auto
qed simp

text \<open>The precision bounds the characters taken from a string; \<open>0\<close> and the flags of numbers have no effect.\<close>

definition c99_text :: "u8 list \<Rightarrow> nat \<Rightarrow> nat option \<Rightarrow> u8 list \<Rightarrow> u8 list" where
  "c99_text fl width prec s =
     field_text (chr CHR ''-'' \<in> set fl) [] 0 (case prec of None \<Rightarrow> s | Some p \<Rightarrow> take p s) width"

lemma field_left: "field_bits fl w prec f \<Longrightarrow> has_flag f FLAGS_LEFT \<longleftrightarrow> chr CHR ''-'' \<in> set (width_flags fl w)"
  "field_bits fl w prec f \<Longrightarrow> has_flag f FLAGS_PRECISION \<longleftrightarrow> prec \<noteq> None"
  unfolding flag_bits field_bits_def by simp_all

lemma text_c99:
  assumes fl: "\<forall>d \<in> set fl. flag_char d" and p: "\<And>p. prec = Some p \<Longrightarrow> 0 \<le> sint p"
    and l: "length (takeWhile (\<lambda>c. c \<noteq> 0) s) < 2 ^ 32"
  shows "render fc (field_format fl (prec \<noteq> None) (chr CHR ''s'')) (field_args w prec (VStr s)) =
    Inr (c99_text (width_flags fl w) (nat \<bar>sint w\<bar>) (map_option unat prec) (takeWhile (\<lambda>c. c \<noteq> 0) s))"
proof -
  let ?t = "takeWhile (\<lambda>c. c \<noteq> 0) s" and ?P = "case prec of None \<Rightarrow> 0 | Some p \<Rightarrow> p" and ?W = "if sint w < 0 then - w else w"
  let ?T = "c99_text (width_flags fl w) (nat \<bar>sint w\<bar>) (map_option unat prec) ?t"
  let ?n = "case prec of None \<Rightarrow> length ?t | Some p \<Rightarrow> min (length ?t) (unat p)"
  have n: "unat (let l = strnlen_s s (if ?P \<noteq> 0 then ?P else - 1)
      in if prec \<noteq> None then (if l < ?P then l else ?P) else l) = ?n"
  proof (cases prec)
    case None
    have "unat (- 1 :: u32) = 4294967295" by (simp add: unsigned_minus_1_eq_mask mask_eq_exp_minus_1)
    then show ?thesis using None strnlen_s_eq [OF l, of "- 1"] l by simp
  next
    case (Some q)
    then show ?thesis using strnlen_s_eq [OF l, of "if q \<noteq> 0 then q else - 1"] l
      by (auto simp: Let_def word_less_nat_alt)
  qed
  have "conv_specifier fc collect 0 (chr CHR ''s'') f ?W ?P [VStr s] (0, []) = Inr ([], emit collect 0 ?T (0, []))"
    if "field_bits fl w prec f" for f
  proof -
    have "conv_specifier fc collect 0 (chr CHR ''s'') f ?W ?P [VStr s] (0, []) = conv_str collect 0 f ?W ?P [VStr s] (0, [])"
      by (simp add: conv_specifier_def chrs_def chr_def)
    also have "\<dots> = Inr ([], emit collect 0 ?T (0, []))"
      using n [unfolded Let_def] width_value [of w]
      by (cases prec) (auto simp: conv_str_def Let_def field_left [OF that] pad_loop_emit str_loop_emit emit_collect add_ac
          c99_text_def field_text_def min.commute
          min_absorb2 length_takeWhile_le)
    finally show ?thesis .
  qed
  from field_step [OF fl p _ this] show ?thesis by simp
qed

lemma char_c99:
  assumes fl: "\<forall>d \<in> set fl. flag_char d" and p: "\<And>p. prec = Some p \<Longrightarrow> 0 \<le> sint p"
  shows "render fc (field_format fl (prec \<noteq> None) (chr CHR ''c'')) (field_args w prec (VWord x)) =
    Inr (c99_text (width_flags fl w) (nat \<bar>sint w\<bar>) None [ucast x])"
proof -
  let ?P = "case prec of None \<Rightarrow> 0 | Some p \<Rightarrow> p" and ?W = "if sint w < 0 then - w else w"
  let ?T = "c99_text (width_flags fl w) (nat \<bar>sint w\<bar>) None [ucast x]"
  have "conv_specifier fc collect 0 (chr CHR ''c'') f ?W ?P [VWord x] (0, []) = Inr ([], emit collect 0 ?T (0, []))"
    if "field_bits fl w prec f" for f
  proof -
    have "conv_specifier fc collect 0 (chr CHR ''c'') f ?W ?P [VWord x] (0, []) = conv_char collect 0 f ?W [VWord x] (0, [])"
      by (simp add: conv_specifier_def chrs_def chr_def)
    also have "\<dots> = Inr ([], emit collect 0 ?T (0, []))"
      using width_value [of w]
      by (auto simp: conv_char_def Let_def field_left [OF that] pad_loop_emit emit_collect add_ac
          put_one_def [of collect] collect_def c99_text_def field_text_def)
    finally show ?thesis .
  qed
  from field_step [OF fl p _ this] show ?thesis by simp
qed

text \<open>A pointer is printed with eight digits, in capitals and without prefix.\<close>

lemma pointer_text:
  "render fc (chrs ''%p'') [VWord x] =
     Inr (replicate (8 - length (digits_text True 16 (unat x))) (chr CHR ''0'') @ digits_text True 16 (unat x))"
proof -
  let ?D = "digits_text True 16 (unat x)"
  define g where "g = clear_hash x (FLAGS_ZEROPAD OR FLAGS_UPPERCASE)"
  have g: "bit g k \<longleftrightarrow> k = 0 \<or> k = 5" for k unfolding g_def clear_hash_bits by (auto simp: bit_or_iff bit_flags)
  have buf: "ntoa_digits g 16 x = rev ?D" using ntoa_digits_text [of 16 g x] by (simp add: g)
  have l: "length ?D \<le> 32" using ntoa_digits_room [of g 16 x] buf by simp
  have "ntoa_chars (rev ?D) False 16 0 8 g = field_text False [] (8 - length ?D) ?D 8"
    using ntoa_chars_signed [of g "[]" False "rev ?D" 0 8 16] l by (simp add: g sign_chars_def)
  also have "\<dots> = replicate (8 - length ?D) (chr CHR ''0'') @ ?D" by (simp add: field_text_def)
  finally have n: "ntoa_chars (rev ?D) False 16 0 8 g = replicate (8 - length ?D) (chr CHR ''0'') @ ?D" .
  have s: "chr CHR ''p'' = 112" "plain_specifier (chr CHR ''p'')" by (simp_all add: chr_def plain_specifier_def chrs_def)
  have "conv_ptr collect 0 0 0 [VWord x] (0, []) = Inr ([], emit collect 0 (replicate (8 - length ?D) (chr CHR ''0'') @ ?D) (0, []))"
    by (simp add: conv_ptr_def Let_def ntoa_long_emit g_def [symmetric] buf n del: emit_simps)
  moreover have "conv_specifier fc collect 0 (chr CHR ''p'') 0 0 0 [VWord x] (0, []) = conv_ptr collect 0 0 0 [VWord x] (0, [])"
    by (simp add: conv_specifier_def chrs_def chr_def)
  ultimately show ?thesis
    using render_plain [OF s(2), of fc "[]" "[VWord x]"] by (simp add: chrs_def emit_collect render_end del: emit_simps)
qed

section \<open>Where the prefix takes digits\<close>

text \<open>
  Without precision a number as long as the field is wide loses its two most significant digits to the
  prefix: the code takes them for padding.
\<close>

lemma hash_takes_digits:
  fixes w x :: u32
  assumes x: "x \<noteq> 0" and w: "sint w = int (length (digits_text False 16 (unat x)))"
  shows "render fc (chrs ''%#*x'') [VWord w, VWord x] = Inr (chrs ''0x'' @ drop 2 (digits_text False 16 (unat x)))"
proof -
  let ?fl = "chrs ''#''" and ?c = "chr CHR ''x''"
  have c: "int_specifier ?c" and base: "int_base ?c = 16" by (simp_all add: int_specifiers int_base_def chr_digits chr_def)
  have fl: "\<forall>d \<in> set ?fl. flag_char d" by (simp add: flag_char_def chrs_def)
  have m: "arg_magnitude ?c x = x" "\<not> arg_value ?c x < 0" by (simp_all add: arg_magnitude_def arg_value_def chr_digits chr_def)
  have wf: "width_flags ?fl w = ?fl" using w by (simp add: width_flags_def)
  have W: "\<not> sint w < 0" "unat w = length (digits_text False 16 (unat x))"
    using w width_value [of w] by simp_all
  have no: "chr CHR ''#'' \<in> set ?fl" "chr CHR ''0'' \<notin> set ?fl" "chr CHR ''-'' \<notin> set ?fl" "chr CHR ''+'' \<notin> set ?fl"
    "chr CHR '' '' \<notin> set ?fl" by (simp_all add: chrs_def chr_def)
  have "\<exists>f. render fc (field_format ?fl False ?c) (field_args w None (VWord x)) =
      Inr (let g = clear_hash x (int_flags ?c f) in ntoa_chars (ntoa_digits g 16 x) False 16 0 w g) \<and> (\<forall>k. bit f k \<longleftrightarrow> k = 4)"
    using field_render [OF fl c, where prec = None and fc = fc and w = w and x = x]
    by (simp add: field_bits_def m base wf no W(1)) blast
  then obtain f where f: "render fc (field_format ?fl False ?c) (field_args w None (VWord x)) =
      Inr (let g = clear_hash x (int_flags ?c f) in ntoa_chars (ntoa_digits g 16 x) False 16 0 w g)"
    "\<And>k. bit f k \<longleftrightarrow> k = 4"
    by blast
  define g where "g = clear_hash x (int_flags ?c f)"
  have g: "bit g k \<longleftrightarrow> k = 4" for k
    unfolding g_def clear_hash_bits int_flags_bits [OF c] f(2) base using x by (auto simp: chr_digits chr_def)
  let ?D = "digits_text False 16 (unat x)"
  have buf: "ntoa_digits g 16 x = rev ?D" using ntoa_digits_text [of 16 g x] by (simp add: g)
  have l: "length ?D \<le> 32" using ntoa_digits_room [of g 16 x] buf by simp
  have ne: "?D \<noteq> []" using digits_text_hd [of "unat x" 16 False] x by (simp add: unat_gt_0)
  have pre: "prefix_chars 16 False = chrs ''0x''" by (simp add: prefix_chars_def)
  have cut: "hash_cut (rev ?D) 16 0 w g = rev (drop 2 ?D)"
    using ne W(2) by (cases ?D; cases "tl ?D") (simp_all add: hash_cut_def g butlast_append)
  have "ntoa_hash (rev ?D) 16 0 w g = rev (drop 2 ?D) @ rev (chrs ''0x'')"
    using ntoa_hash_eq [of g "rev ?D" 16 0 w] l by (simp add: cut g pre chrs_def)
  moreover have "ntoa_pad (rev ?D) False 0 w g = (rev ?D, w)"
    using l by (simp add: ntoa_pad_def flag_bits g Let_def pad_zeros_eq)
  ultimately have "ntoa_chars (rev ?D) False 16 0 w g = chrs ''0x'' @ drop 2 ?D"
    using W(2) ne l by (simp add: ntoa_chars_def ntoa_sign_def flag_bits g rev_chars_def chrs_def)
  moreover have "field_format ?fl False ?c = chrs ''%#*x''" "field_args w None (VWord x) = [VWord w, VWord x]"
    by (simp_all add: field_format_def field_args_def chrs_def)
  ultimately show ?thesis using f(1) buf unfolding g_def [symmetric] Let_def by simp
qed

end
