(* ===== verification/Printf_Properties.thy ===== *)
theory Printf_Properties
  imports Storm_Example Printf_Float_Range Printf_Field
begin

text \<open>
  The properties of formatted output and of the message of a panic.
\<close>

section \<open>What is printed and where\<close>

text \<open>
  C26. What a format prints does not depend on where it is printed: with any output function, index
  and limit, the format loop passes to it, in order, the characters \<open>render\<close> gives, and ends; it
  fails exactly when \<open>render\<close> does.
\<close>

theorem format_sink_independent:
  "format_loop fc out maxlen fmt vs st = bind_res (render fc fmt vs) (\<lambda>cs. Inr (emit out maxlen cs st))"
  by (rule format_loop_via)

text \<open>
  C27. \<open>snprintf\<close> with a buffer and a count above zero writes the first \<open>count - 1\<close> characters of
  the text and a terminator, changes no other byte of the memory, and returns the length of the
  whole text.
\<close>

theorem snprintf_bounded:
  assumes "buf \<noteq> 0" "render fc fmt vs = Inr cs" "length cs < 4294967296" "count \<noteq> 0"
  shows "\<exists>m'. snprintf fc buf count fmt vs m = Inr (of_nat (length cs), m')
    \<and> (\<forall>x. m' x = (if unat (x - buf) < min (length cs) (unat count - 1) then cs ! unat (x - buf)
        else if unat (x - buf) = min (length cs) (unat count - 1) then 0 else m x))"
  using assms by (rule snprintf_memory)

theorem snprintf_bounded_witness:
  "\<exists>m'. snprintf x87 0x100 4 (chrs ''Storm'') [] (\<lambda>_. 7) = Inr (5, m')
     \<and> map m' [0x100, 0x101, 0x102, 0x103, 0x104] = chrs ''Sto'' @ [0, 7]"
proof -
  have "\<forall>c \<in> set (chrs ''Storm''). c \<noteq> 0 \<and> c \<noteq> chr CHR ''%''" by (simp add: chrs_def chr_def)
  from render_text [OF this, of x87 "[]" "[]"] have r: "render x87 (chrs ''Storm'') [] = Inr (chrs ''Storm'')"
    by (simp add: render_end)
  show ?thesis
    using snprintf_bounded [OF _ r, of "0x100" 4 "\<lambda>_. 7"] by (auto simp: chrs_def)
qed

text \<open>
  C28. \<open>printf\<close>, with the serial port set up, sends exactly the characters of the text that are not
  null over the line, in order, leaves the line usable, and returns their number.
\<close>

theorem printf_serial:
  assumes "line_up l s" "render fc fmt vs = Inr cs"
  shows "\<exists>s'. printf fc fmt vs s = Inr (of_nat (length cs), s') \<and> line_up l s'
     \<and> line_sent l s' = line_sent l s @ filter (\<lambda>c. c \<noteq> 0) cs"
  using uart.prints [OF assms, of 1 "- 1"] by (simp add: printf_def uart_put_text)

lemma ex_line_up: "line_up ex_line (uart_init ex_ports)" "line_sent ex_line (uart_init ex_ports) = []"
  by (simp_all add: line_up_def line_sent_def uart_init_line bit_numeral_word_iff ex_ports_def ex_line_def)

theorem printf_serial_witness:
  "\<exists>s'. printf x87 (chrs ''%s'') [VStr (chrs ''ok'')] (uart_init ex_ports) = Inr (2, s')
     \<and> line_sent ex_line s' = chrs ''ok''"
proof -
  have r: "render x87 (chrs ''%s'') [VStr (chrs ''ok'')] = Inr (chrs ''ok'')"
    using render_s [of x87 "[]" "chrs ''ok''" "[]"] by (simp add: render_end chrs_def chr_def)
  from printf_serial [OF ex_line_up(1) r] show ?thesis by (auto simp: ex_line_up(2) chrs_def chr_def)
qed



section \<open>Numbers\<close>

text \<open>
  C30. The arrays of 32 characters never overflow. In an integer conversion, whatever the number, its
  base, the precision, the width and the flags, digits, leading zeros, prefix and sign fit; in a
  floating point conversion, whatever the value and the arithmetic, zeros of the precision, digits,
  leading zeros and sign do.
\<close>

theorem conversion_arrays_fit:
  "length (ntoa_sign (ntoa_hash (fst (ntoa_pad (ntoa_digits flags b val) negative prec width flags))
      (ucast b) prec w flags') negative flags') \<le> PRINTF_NTOA_BUFFER_SIZE
   \<and> length (ntoa_sign (fst (ftoa_pad (ftoa_digits F v prec (fst (limit_prec prec' []))) negative width flags))
      negative flags) \<le> PRINTF_FTOA_BUFFER_SIZE"
  unfolding PRINTF_NTOA_BUFFER_SIZE_def PRINTF_FTOA_BUFFER_SIZE_def
  by (intro conjI ntoa_sign_room ntoa_hash_room ntoa_pad_room ntoa_digits_room ftoa_pad_room ftoa_digits_room
      limit_prec_room) simp

text \<open>
  C31. Numbers read back. Within any text \<open>%d\<close> prints the argument in decimal with its sign, and the text
  around it is unchanged; \<open>%u\<close>, \<open>%x\<close>, \<open>%o\<close> and \<open>%b\<close> print it in their base. With the length \<open>ll\<close> a 64-bit
  argument is printed correctly in the bases 8, 10 and 16; in base 2 only the low 32 bits are, because the
  array has no room for more.
\<close>

theorem printf_reads_back:
  assumes "\<forall>c \<in> set pre \<union> set post. c \<noteq> 0 \<and> c \<noteq> chr CHR ''%''" "unsigned_specifier c"
  shows "(\<exists>ds. render fc (pre @ chrs ''%d'' @ post) [VWord w] = Inr (pre @ ds @ post) \<and> read_signed ds = sint w)
    \<and> (\<exists>ds. render fc [chr CHR ''%'', c] [VWord w] = Inr ds \<and> number_of (unat (int_base c)) ds = unat w)
    \<and> (\<exists>ds. render fc (chrs ''%ll'' @ [c]) [VLong v] = Inr ds
         \<and> number_of (unat (int_base c)) ds = (if int_base c = 2 then unat v mod 4294967296 else unat v))"
proof (intro conjI)
  have "render fc post [] = Inr post"
    using render_text [of post fc "[]" "[]"] assms(1) by (simp add: render_end)
  then show "\<exists>ds. render fc (pre @ chrs ''%d'' @ post) [VWord w] = Inr (pre @ ds @ post) \<and> read_signed ds = sint w"
    using render_text [of pre fc "chrs ''%d'' @ post" "[VWord w]"] render_d [of fc post w "[]"] assms(1)
      read_signed_d [of w] by auto
  show "\<exists>ds. render fc [chr CHR ''%'', c] [VWord w] = Inr ds \<and> number_of (unat (int_base c)) ds = unat w"
    using render_unsigned [OF assms(2), of fc "[]" w "[]"] digits_value_u32 [of "int_base c" 0 w] unsigned_base [OF assms(2)]
    by (simp add: render_end)
  show "\<exists>ds. render fc (chrs ''%ll'' @ [c]) [VLong v] = Inr ds
      \<and> number_of (unat (int_base c)) ds = (if int_base c = 2 then unat v mod 4294967296 else unat v)"
    using render_ll [OF assms(2), of fc v] ll_value [OF assms(2), of v] base_64 [OF assms(2), of v] by auto
qed

theorem printf_reads_back_witness:
  "(\<exists>ds. render x87 (chrs ''n='' @ chrs ''%d'' @ chrs '';'') [VWord (- 42)] = Inr (chrs ''n='' @ ds @ chrs '';'')
      \<and> read_signed ds = - 42)
   \<and> (\<exists>ds. render x87 [chr CHR ''%'', chr CHR ''x''] [VWord 0xBEEF] = Inr ds \<and> number_of 16 ds = 0xBEEF)
   \<and> (\<exists>ds. render x87 (chrs ''%ll'' @ [chr CHR ''b'']) [VLong 0x100000001] = Inr ds \<and> number_of 2 ds = 1)
   \<and> (\<exists>ds. render x87 (chrs ''%ll'' @ [chr CHR ''x'']) [VLong 0x100000001] = Inr ds \<and> number_of 16 ds = 0x100000001)"
proof -
  have t: "\<forall>c \<in> set (chrs ''n='') \<union> set (chrs '';''). c \<noteq> 0 \<and> c \<noteq> chr CHR ''%''" by (simp add: chrs_def chr_def)
  have "unsigned_specifier (chr CHR ''b'')" "int_base (chr CHR ''b'') = 2"
    "unsigned_specifier (chr CHR ''x'')" "int_base (chr CHR ''x'') = 16"
    by (simp_all add: unsigned_specifiers int_base_def chr_def)
  with printf_reads_back [OF t, of "chr CHR ''b''" x87 "- 42" "0x100000001"]
    printf_reads_back [OF t, of "chr CHR ''x''" x87 "0xBEEF" "0x100000001"] show ?thesis by auto
qed

lemma replicate_few: "replicate 2 z = [z, z]" "replicate 3 z = [z, z, z]" "replicate 4 z = [z, z, z, z]"
  by (simp_all add: numeral_eq_Suc)

text \<open>
  C32. The integer conversions with flags, width and precision print the field the C standard defines:
  digits, prefix of \<open>#\<close>, sign, zeros of the precision or of the flag \<open>0\<close>, and blanks on the side the flag \<open>-\<close>
  or a negative width says. \<open>field_ok\<close> leaves out what the arrays of 32 characters cannot hold, a precision
  that adds zeros together with \<open>-\<close>, and \<open>#\<close> where the code counts digits as padding.
\<close>

theorem printf_field:
  assumes "\<forall>d \<in> set fl. flag_char d" "int_specifier c" "\<And>p. prec = Some p \<Longrightarrow> 0 \<le> sint p"
    and "field_ok (width_flags fl w) c (nat \<bar>sint w\<bar>) (map_option unat prec) (arg_value c x)"
  shows "render fc (field_format fl (prec \<noteq> None) c) (field_args w prec (VWord x)) =
    Inr (c99_field (width_flags fl w) c (nat \<bar>sint w\<bar>) (map_option unat prec) (arg_value c x))"
  using assms by (rule field_c99)

theorem printf_field_witness:
  "render x87 (chrs ''%#0*x'') [VWord 8, VWord 0x2A] = Inr (chrs ''0x00002a'')
   \<and> render x87 (chrs ''%+*.*d'') [VWord 7, VWord 4, VWord 42] = Inr (chrs ''  +0042'')
   \<and> render x87 (chrs ''%*d'') [VWord (- 5), VWord (- 42)] = Inr (chrs ''-42  '')"
proof (intro conjI)
  note ev = c99_field_def c99_digits_def c99_sign_def c99_prefix_def c99_zeros_def field_text_def digits_text.simps
    width_flags_def arg_value_def int_base_def chrs_def chr_def Let_def field_format_def field_args_def replicate_few
  have ok: "field_ok (width_flags (chrs ''#0'') 8) (chr CHR ''x'') (nat \<bar>sint (8 :: u32)\<bar>) (map_option unat None)
      (arg_value (chr CHR ''x'') 0x2A)"
    by (simp add: field_ok_def ev)
  have "\<forall>d \<in> set (chrs ''#0''). flag_char d" "int_specifier (chr CHR ''x'')"
    by (simp_all add: flag_chars int_specifiers chrs_def chr_def)
  from printf_field [OF this _ ok, of x87] show "render x87 (chrs ''%#0*x'') [VWord 8, VWord 0x2A] = Inr (chrs ''0x00002a'')"
    by (simp add: ev)
  have ok: "field_ok (width_flags (chrs ''+'') 7) (chr CHR ''d'') (nat \<bar>sint (7 :: u32)\<bar>) (map_option unat (Some (4 :: u32)))
      (arg_value (chr CHR ''d'') 42)"
    by (simp add: field_ok_def ev)
  have "\<forall>d \<in> set (chrs ''+''). flag_char d" "int_specifier (chr CHR ''d'')"
    by (simp_all add: flag_chars int_specifiers chrs_def chr_def)
  from printf_field [OF this _ ok, of x87] show "render x87 (chrs ''%+*.*d'') [VWord 7, VWord 4, VWord 42] = Inr (chrs ''  +0042'')"
    by (simp add: ev)
  have ok: "field_ok (width_flags [] (- 5)) (chr CHR ''d'') (nat \<bar>sint (- 5 :: u32)\<bar>) (map_option unat None)
      (arg_value (chr CHR ''d'') (- 42))"
    by (simp add: field_ok_def ev)
  have "\<forall>d \<in> set []. flag_char d" "int_specifier (chr CHR ''d'')"
    by (simp_all add: int_specifiers chrs_def chr_def)
  from printf_field [OF this _ ok, of x87] show "render x87 (chrs ''%*d'') [VWord (- 5), VWord (- 42)] = Inr (chrs ''-42  '')"
    by (simp add: ev)
qed



text \<open>
  C34. \<open>#\<close> and a width that is the number of the digits: the code takes the two most significant digits of
  a number in base 16 for padding and writes the prefix over them, so that another number is printed.
\<close>

theorem printf_hash_takes_digits:
  assumes "x \<noteq> 0" "sint w = int (length (digits_text False 16 (unat x)))"
  shows "render fc (chrs ''%#*x'') [VWord w, VWord x] = Inr (chrs ''0x'' @ drop 2 (digits_text False 16 (unat x)))"
  using assms by (rule hash_takes_digits)

theorem printf_hash_takes_digits_witness:
  "render x87 (chrs ''%#*x'') [VWord 4, VWord 0x1234] = Inr (chrs ''0x34'')"
  using printf_hash_takes_digits [of "0x1234" 4 x87] by (simp add: digits_text.simps Let_def chrs_def chr_def)

section \<open>Floating point\<close>


lemma ex_number: "double_load 0x4005C00000000000 = 87 / 32"
  by (simp add: double_load_def Let_def bit_numeral_word_iff)


text \<open>
  C36. That exception: when the fraction is computed as exactly half way between \<open>10\<^sup>p - 1\<close> and \<open>10\<^sup>p\<close> units of
  the last decimal, what \<open>%.pf\<close> prints is not a number near the argument: the whole part and the point are
  missing, and a one among thirty-one zeros is printed.
\<close>

theorem printf_float_tie:
  assumes "0 < p" "p \<le> 9" "double_load bits = x" "0 \<le> x" "x \<le> 1000000000" "frac_part x87 x p = 10 ^ p - 1 / 2"
  shows "render x87 (float_format p) [VLong bits] =
    Inr (replicate (31 - p) (chr CHR ''0'') @ chr CHR ''1'' # replicate p (chr CHR ''0''))"
  using assms by (rule x87_tie)

text \<open>The double nearest to 0.95.\<close>

lemma ex_tie:
  defines "v \<equiv> 4278419646001971 / 4503599627370496 :: rat"
  shows "double_load 0x3FEE666666666666 = v" "frac_part x87 v 1 = 10 ^ 1 - 1 / 2"
proof -
  show "double_load 0x3FEE666666666666 = v" by (simp add: v_def double_load_def Let_def bit_numeral_word_iff)
  have s: "\<lfloor>v\<rfloor> = 0" "\<lfloor>21392098230009855 / 4 :: rat\<rfloor> = 5348024557502463"
    by (simp_all add: v_def floor_eq_iff)
  have "binade (21392098230009855 / 2251799813685248) = 3" by (rule binade_eq) simp_all
  then have r: "round_bits 53 (21392098230009855 / 2251799813685248) = 19 / 2"
    by (simp add: round_bits_def round_even_def Let_def s)
  have b: "round_bits 64 v = v" "round_bits 64 (v * 10) = v * 10"
    using round_bits_exact [of v 4278419646001971 "- 52" 64] round_bits_exact [of "v * 10" 42784196460019710 "- 52" 64]
    by (simp_all add: v_def)
  have v10: "v * 10 = 21392098230009855 / 2251799813685248" by (simp add: v_def)
  have p: "0 \<le> v" by (simp add: v_def)
  show "frac_part x87 v 1 = 10 ^ 1 - 1 / 2" using b r [folded v10] p by (simp add: frac_part_def s pow10_nth)
qed

theorem printf_float_tie_witness:
  "render x87 (chrs ''%.1f'') [VLong 0x3FEE666666666666] = Inr (chrs ''00000000000000000000000000000010'')"
proof -
  have f: "chrs ''%.1f'' = float_format 1" by (simp add: float_format_def chrs_def chr_def)
  show ?thesis
    unfolding f using printf_float_tie [OF _ _ ex_tie(1) _ _ ex_tie(2)] by (simp add: chrs_def numeral_eq_Suc)
qed



text \<open>
  C38. A precision of 42 or more, given to a conversion in fixed notation, indexes the table of the powers of
  ten past its end: the loop that limits the precision to 9 stops when the array is full.
\<close>

theorem printf_float_precision:
  assumes "double_load bits = x" "\<bar>x\<bar> \<le> 1000000000" "42 \<le> sint w"
  shows "render x87 (chrs ''%.*f'') [VWord w, VLong bits] = Inl OutOfBounds"
  using float_precision_fault [of x87 bits w] x87_ordinary [OF assms(2)] assms(1,3) by simp

theorem printf_float_precision_witness:
  "render x87 (chrs ''%.*f'') [VWord 50, VLong 0x4005C00000000000] = Inl OutOfBounds"
  by (rule printf_float_precision [OF ex_number]) simp_all

end
