(* ===== verification/Spec2Isabelle.thy ===== *)
theory Spec2Isabelle
  imports Thread_Properties Heap_Properties Device_Properties Printf_Properties
begin

text \<open>
  Storm, a kernel for i386: the parts of \<open>src/kernel\<close> and \<open>src/lib\<close> that run between the first
  instruction of \<open>boot_start\<close> and the last thread.

  The parts and how they interact. \<open>boot_start\<close> (\<open>boot_asm.S\<close>) sets up a stack and calls \<open>start_kernel\<close>
  (\<open>main.c\<close>), which sets up the descriptor tables and the table of interrupt handlers, programs the
  interrupt controllers, the timer and the serial port, gives the heap its memory, creates the idle thread and
  starts it. From then on threads run one after the other: \<open>thread_create\<close> takes a structure and a stack from
  the heap and puts the thread into a run queue on the intrusive list; a thread whose function has returned
  gives up the processor in \<open>thread_main\<close>, which enters the next one through \<open>thread_asm.S\<close>. An interrupt is
  taken on the stack of the running thread and goes through a stub of \<open>interrupts_asm.S\<close> to \<open>isr_main\<close>, which
  acknowledges it at the controllers and calls the handler registered; the only one the kernel registers
  counts the ticks of the timer. \<open>printf\<close> formats into \<open>_putchar\<close>, and so onto the serial line; \<open>panic\<close> prints
  through it and halts the processor.

  Foundations.
    \<^item> \<open>Storm_Prelude\<close>: words of the target, the result type \<open>res\<close> with the faults \<open>Panic\<close> (\<open>panic.c\<close>,
      \<open>assert.h\<close>), \<open>OutOfBounds\<close>, \<open>DivideError\<close> and \<open>Diverges\<close>; a call that never returns is a fault value.
    \<^item> \<open>Memory_Model\<close>: bytes at 32-bit addresses, little-endian words; locale \<open>word_memory\<close>. Structures
      the code links or overlays (lists, heap blocks, threads, stacks) live in this memory at the offsets
      the compiler gives them; drivers keep their static variables in records.
    \<^item> \<open>Linked_List\<close>: \<open>list.h\<close>, store by store, with its four traversals; \<open>dll m h xs\<close> says that the ring at
      \<open>h\<close> holds \<open>xs\<close>.
    \<^item> \<open>Port_IO\<close>: \<open>io.h\<close>, \<open>uart.c\<close>, \<open>putchar.c\<close>. Port writes are logged; a model of the device, built
      from the comments of the drivers, reads the log.

  Heap. \<open>Heap_Spec\<close> is the allocator without memory, lists of blocks; \<open>Heap_Code\<close> is \<open>heap.c\<close>;
  \<open>Heap_Refine\<close> and \<open>Heap_Free\<close> prove that the code implements the specification, its footprint, that it
  returns on every well-formed heap, and the contract \<open>allocator\<close> the threads are verified against.
  \<open>Heap_Properties\<close> has the theorems on heap and list.

  Threads. \<open>Thread_Context\<close> is \<open>thread_asm.S\<close> instruction by instruction and \<open>thread_setup_stack\<close>;
  \<open>Thread_Code\<close> is \<open>thread.c\<close>; \<open>Run_Queue\<close> proves the run queue a \<open>fifo_queue\<close>; \<open>Thread_Sched\<close> holds the
  invariant \<open>sched_inv\<close>, \<open>Thread_Ops\<close> the entry points, \<open>Thread_Run\<close> and \<open>Thread_History\<close> the life of the
  scheduler as an inductive step relation, \<open>Thread_Interrupt\<close> an interrupt on the stack of a thread.
  \<open>Thread_Properties\<close> has the theorems.

  Drivers. \<open>Pic_8259\<close> is \<open>i8259.c\<close> (contract \<open>irq_controller\<close>), \<open>Interrupts\<close> is \<open>interrupts.c\<close>,
  \<open>Interrupt_Entry\<close> is \<open>interrupts_asm.S\<close> with what the processor pushes and pops, \<open>Timer_8254\<close> is
  \<open>i8254.c\<close>, \<open>Cpu_Tables\<close> is \<open>gdt.c\<close> and \<open>idt.c\<close> with the reading of the descriptors by the processor.
  \<open>Cpu_Control\<close> is the remaining assembly (\<open>cpu_asm.S\<close>, \<open>io_asm.S\<close>, \<open>gdt_asm.S\<close>, \<open>idt_asm.S\<close>), each routine
  called by the convention of C, and the loops that only wait. \<open>Driver_Run\<close> puts the drivers together: any
  sequence of their operations and of interrupts, over the type \<open>drv_ok\<close> of their common state. \<open>Machine_Run\<close>
  is the way of an interrupt through processor and drivers, from the gate in the interrupt table to the \<open>iret\<close>.
  \<open>Device_Properties\<close> has the theorems.

  Formatted output, \<open>printf.c\<close>. \<open>Printf_Text\<close> (output functions, padding, integer conversion),
  \<open>Printf_Float\<close> (\<open>_ftoa\<close>, \<open>_etoa\<close>) and \<open>Printf_Code\<close> (\<open>_vsnprintf\<close> and the entry points) are the code.
  \<open>Printf_Render\<close> proves that what is printed does not depend on the output function, \<open>Printf_Sinks\<close>
  treats the buffer of \<open>snprintf\<close> and character devices (contract \<open>char_device\<close>, provided by the serial
  port), \<open>Printf_Numbers\<close> and \<open>Printf_Float_Text\<close> relate the digits to the numbers. \<open>Printf_Field\<close> states the
  fields the C standard defines for integers, strings and characters with flags, width and precision, without
  array, index or flag word, and on which of them the code prints exactly those. \<open>Fpu_X87\<close> is the
  arithmetic of the target: operations in the 64 bits of the x87 registers, rounded to nearest and even, and to 53
  bits when stored. \<open>Printf_Float_X87\<close> bounds the error of what \<open>%f\<close> prints with it, \<open>Printf_Float_Range\<close>
  estimates the exponent and the mantissa \<open>_etoa\<close> computes. \<open>Printf_Properties\<close> has the theorems.

  \<open>Kernel_Main\<close> is \<open>main.c\<close>, \<open>cpu.c\<close>, \<open>panic.c\<close> and \<open>boot_start\<close> over all of this, \<open>Storm_Example\<close> one
  concrete machine on which the theorems are applied, and the present theory the boot of the whole and the clock
  of the booted kernel.

  Parameters: the addresses the linker chooses (\<open>sym_\<close> fields; \<open>boot_ok\<close> asks of them to be
  apart), what a registered handler does (\<open>call\<close>), what a C function keeps under the calling
  convention (\<open>keeps_frame\<close>, \<open>isr_function\<close>), the interrupts that arrive at each wait of \<open>i8254_sleep\<close>, the state after a
  \<open>hlt\<close> (\<open>wait\<close>), the byte a port is read as, the arguments of a variadic call, and the floating point
  arithmetic (\<open>fpu\<close>): C leaves it to the implementation, so the theorems on text hold for any, those on values
  for \<open>x87\<close>. The registers of \<open>x87\<close> have an unlimited range of exponents; the exponents reached from a double
  are far inside that of the processor.

  Bounds. Loops over lists of the heap run in \<open>partial_function\<close>s, and that they return is proved; those
  over the arrays of \<open>printf.c\<close> terminate by the room left. \<open>_ftoa\<close> and \<open>_etoa\<close> call each other;
  \<open>FLOAT_DEPTH\<close> bounds the depth by four, where a large value under \<open>%f\<close> takes three (\<open>_ftoa\<close>, \<open>_etoa\<close>,
  \<open>_ftoa\<close> on the mantissa). That this is enough on the arithmetic of the target is proved for every double
  (\<open>float_returns\<close>), with precisions below 42, below 38 for \<open>%g\<close>: beyond that the table of the powers of ten is
  indexed past its end. A text rendered within a depth is the same within any greater one
  (\<open>float_depth_mono\<close>). The negation of the least integer in \<open>%d\<close>, undefined in C, wraps around as on the
  target. The loops of \<open>cpu_halt\<close> and of the idle thread never end, which is proved.

  Not modelled: the multiboot header, \<open>link.ld\<close> and the Makefile, which lay out the image (hypothesis
  \<open>boot_ok\<close>) and keep no state; declarations without code in the headers; the switches of the preprocessor in
  \<open>printf.c\<close> other than the configuration the Makefile builds.
\<close>





end
